(* ===== verification/WL_Prelude.thy ===== *)
theory WL_Prelude
  imports Main "HOL-Library.Word"
begin

text \<open>
  Shared vocabulary of the winter-lily development: the machine integer types of the target
  (x86-64, so \<open>usize\<close> is 64 bits wide), the value of a computation that may panic, the two
  slice operations the Rust code uses everywhere (\<open>&s[i..j]\<close> and \<open>s[i..].copy_from_slice(t)\<close>),
  page rounding, and the interfaces that several components share: stores with numbered slots, stores
  that choose the key, allocators that move a cursor upwards, and transition systems with an
  inductive invariant.
\<close>

unbundle bit_operations_syntax

named_theorems run_simps \<open>rewriting of computations that may panic\<close>
named_theorems slice_simps \<open>slices and in-place overwriting of byte vectors\<close>
named_theorems page_simps \<open>rounding of addresses to pages\<close>

section \<open>Machine types\<close>

type_synonym u8 = "8 word"
type_synonym u16 = "16 word"
type_synonym u32 = "32 word"
type_synonym u64 = "64 word"
type_synonym usize = "64 word"
type_synonym bytes = "8 word list"

lemma unat_max_usize: "unat (- 1 :: usize) = 2 ^ 64 - 1"
  by (simp add: unsigned_minus_1_eq_mask mask_eq_exp_minus_1)

lemma unat_lt_64: "unat (x :: u64) < 2 ^ 64"
  using unsigned_less [of x] by simp

lemma unat_of_nat_64: "n < 2 ^ 64 \<Longrightarrow> unat (of_nat n :: u64) = n"
  by (simp add: unat_of_nat take_bit_eq_mod)

lemma unat_pos_64: "x \<noteq> 0 \<Longrightarrow> 0 < unat (x :: u64)"
  by (auto simp: unsigned_eq_0_iff intro: gr0I)

lemma unat_add_64: "unat x + unat y < 2 ^ 64 \<Longrightarrow> unat (x + y :: u64) = unat x + unat y"
  by (simp add: unat_word_ariths)

lemma unat_sub_less:
  assumes "len \<noteq> (0 :: u64)" "k \<noteq> 0"
  shows "unat (len - min len k) < unat len"
proof -
  have le: "min len k \<le> len" by simp
  have "min len k \<noteq> 0" using assms by (auto simp: min_def)
  then have "0 < unat (min len k)" by (auto simp: unsigned_eq_0_iff intro: gr0I)
  then show ?thesis using le by (simp add: unat_sub word_le_nat_alt)
qed

lemma unat_mult_64: "unat x * unat y < 2 ^ 64 \<Longrightarrow> unat (x * y :: u64) = unat x * unat y"
  by (simp add: unat_word_ariths)

section \<open>Computations that may panic\<close>

text \<open>
  A Rust function returns a value or panics. Recoverable errors (\<open>Result::Err\<close>) are the
  left summand of the returned value, never a panic.
\<close>

datatype 'a run = Ret 'a | Panic

fun run_bind :: "'a run \<Rightarrow> ('a \<Rightarrow> 'b run) \<Rightarrow> 'b run" where
  "run_bind (Ret a) f = f a"
| "run_bind Panic f = Panic"

declare run_bind.simps [run_simps]

lemma run_bind_eq_Ret [run_simps]:
  "run_bind m f = Ret b \<longleftrightarrow> (\<exists>a. m = Ret a \<and> f a = Ret b)"
  by (cases m) auto

lemma run_bind_eq_Panic [run_simps]:
  "run_bind m f = Panic \<longleftrightarrow> m = Panic \<or> (\<exists>a. m = Ret a \<and> f a = Panic)"
  by (cases m) auto

text \<open>Running an operation over a list of arguments, stopping at the first panic.\<close>

fun fold_run :: "('a \<Rightarrow> 's \<Rightarrow> 's run) \<Rightarrow> 'a list \<Rightarrow> 's \<Rightarrow> 's run" where
  "fold_run f [] s = Ret s"
| "fold_run f (x # xs) s = run_bind (f x s) (fold_run f xs)"

lemma run_bind_Ret [simp]: "run_bind m Ret = m"
  by (cases m) auto

lemma fold_run_fun:
  "fold_run f [] = Ret"
  "fold_run f (x # xs) = (\<lambda>s. run_bind (f x s) (fold_run f xs))"
  by (auto simp: fun_eq_iff)

lemma fold_run_append: "fold_run f (xs @ ys) s = run_bind (fold_run f xs s) (fold_run f ys)"
proof (induction xs arbitrary: s)
  case (Cons x xs)
  then show ?case by (cases "f x s") auto
qed simp

section \<open>Recoverable errors\<close>

text \<open>The \<open>?\<close> operator: an error is returned at once, a value goes to the continuation.\<close>

fun and_then :: "'e + 'a \<Rightarrow> ('a \<Rightarrow> 'e + 'b) \<Rightarrow> 'e + 'b" where
  "and_then (Inr a) f = f a"
| "and_then (Inl e) f = Inl e"

lemma and_then_eq_Inr: "and_then m f = Inr b \<longleftrightarrow> (\<exists>a. m = Inr a \<and> f a = Inr b)"
  by (cases m) auto

section \<open>Integers as bytes\<close>

text \<open>\<open>to_ne_bytes\<close> and \<open>from_ne_bytes\<close> of \<open>usize\<close>: the target is little-endian.\<close>

fun le_bytes :: "nat \<Rightarrow> nat \<Rightarrow> bytes" where
  "le_bytes 0 x = []"
| "le_bytes (Suc n) x = of_nat x # le_bytes n (x div 256)"

fun le_value :: "bytes \<Rightarrow> nat" where
  "le_value [] = 0"
| "le_value (b # bs) = unat b + 256 * le_value bs"

definition to_ne_bytes :: "usize \<Rightarrow> bytes" where
  "to_ne_bytes x = le_bytes 8 (unat x)"

definition from_ne_bytes :: "bytes \<Rightarrow> usize" where
  "from_ne_bytes bs = of_nat (le_value bs)"

lemma length_le_bytes [simp]: "length (le_bytes n x) = n"
  by (induction n arbitrary: x) auto

lemma le_value_le_bytes: "x < 256 ^ n \<Longrightarrow> le_value (le_bytes n x) = x"
proof (induction n arbitrary: x)
  case (Suc n)
  have "unat (of_nat x :: u8) = x mod 256" by (simp add: unat_of_nat take_bit_eq_mod)
  moreover have "x div 256 < 256 ^ n" using Suc.prems by (simp add: less_mult_imp_div_less mult.commute)
  ultimately show ?case using Suc.IH by simp
qed simp

lemma length_to_ne_bytes [simp]: "length (to_ne_bytes x) = 8"
  by (simp add: to_ne_bytes_def)

lemma from_to_ne_bytes [simp]: "from_ne_bytes (to_ne_bytes x) = x"
  using unat_lt_64 [of x] by (simp add: from_ne_bytes_def to_ne_bytes_def le_value_le_bytes)

section \<open>Slices\<close>

text \<open>\<open>overwrite xs i ys\<close> is \<open>xs[i..i + ys.len()].copy_from_slice(ys)\<close> for a range in bounds.\<close>

definition overwrite :: "'a list \<Rightarrow> nat \<Rightarrow> 'a list \<Rightarrow> 'a list" where
  "overwrite xs i ys = take i xs @ ys @ drop (i + length ys) xs"

lemma length_overwrite [slice_simps]:
  "i + length ys \<le> length xs \<Longrightarrow> length (overwrite xs i ys) = length xs"
  by (simp add: overwrite_def)

lemma take_overwrite [slice_simps]:
  "i + length ys \<le> length xs \<Longrightarrow> n \<le> i \<Longrightarrow> take n (overwrite xs i ys) = take n xs"
  by (simp add: overwrite_def min_def)

lemma drop_overwrite [slice_simps]:
  "i + length ys \<le> length xs \<Longrightarrow> i + length ys \<le> n \<Longrightarrow>
   drop n (overwrite xs i ys) = drop n xs"
  by (simp add: overwrite_def)

lemma overwrite_hit [slice_simps]:
  "i + length ys \<le> length xs \<Longrightarrow> take (length ys) (drop i (overwrite xs i ys)) = ys"
  by (simp add: overwrite_def)

lemma overwrite_append_left [slice_simps]:
  "i + length zs \<le> length xs \<Longrightarrow> overwrite (xs @ ys) i zs = overwrite xs i zs @ ys"
  by (simp add: overwrite_def)

lemma overwrite_append_right [slice_simps]:
  "length xs \<le> i \<Longrightarrow> overwrite (xs @ ys) i zs = xs @ overwrite ys (i - length xs) zs"
  by (simp add: overwrite_def)

lemma nth_overwrite [slice_simps]:
  "i + length ys \<le> length xs \<Longrightarrow> n < length xs \<Longrightarrow>
   overwrite xs i ys ! n = (if i \<le> n \<and> n < i + length ys then ys ! (n - i) else xs ! n)"
  by (auto simp: overwrite_def nth_append min_def)

section \<open>Page rounding\<close>

text \<open>\<open>v & !4095\<close> and \<open>(v + 4095) & !4095\<close>, which the loader writes out at every use.\<close>

definition page_down :: "usize \<Rightarrow> usize" where
  "page_down v = v AND NOT 4095"

definition page_up :: "usize \<Rightarrow> usize" where
  "page_up v = (v + 4095) AND NOT 4095"

lemma and_not_mask_eq: "(v :: 'a :: len word) AND NOT (mask n) = v - (v AND mask n)"
proof -
  have "(v AND mask n) + (v AND NOT (mask n)) = (v AND mask n) OR (v AND NOT (mask n))"
    by (rule disjunctive_add_eq_or) (auto intro!: bit_eqI simp: bit_simps)
  also have "\<dots> = v" by (auto intro!: bit_eqI simp: bit_simps)
  finally show ?thesis by (metis add_diff_cancel_left')
qed

lemma page_mask: "(4095 :: usize) = mask 12"
  by (simp add: mask_eq_exp_minus_1)

lemma and_4095: "unat (v AND 4095 :: usize) = unat v mod 4096"
proof -
  have "unat (v AND mask 12) = unat v mod 4096"
    by (simp add: take_bit_eq_mask [symmetric] take_bit_eq_mod unat_mod_distrib)
  then show ?thesis unfolding page_mask .
qed

lemma unat_page_down [page_simps]: "unat (page_down v) = unat v div 4096 * 4096"
proof -
  have "unat (v AND mask 12) = unat v mod 4096"
    by (simp add: take_bit_eq_mask [symmetric] take_bit_eq_mod unat_mod_distrib)
  moreover have "v AND mask 12 \<le> v" by (rule word_and_le2)
  ultimately show ?thesis
    unfolding page_down_def page_mask and_not_mask_eq
    by (simp add: unat_sub minus_mod_eq_div_mult)
qed

lemma unat_page_up [page_simps]:
  assumes "unat v + 4095 < 2 ^ 64"
  shows "unat (page_up v) = (unat v + 4095) div 4096 * 4096"
proof -
  have "unat (v + 4095) = unat v + 4095"
    using assms by (simp add: unat_word_ariths)
  then show ?thesis
    using unat_page_down [of "v + 4095"] by (simp add: page_up_def page_down_def)
qed

lemma page_down_aligned [page_simps]: "unat (page_down v) mod 4096 = 0"
  by (simp add: unat_page_down)

lemma page_down_le: "page_down v \<le> v"
  by (simp add: page_down_def word_and_le2)

section \<open>Stores with numbered slots\<close>

text \<open>
  The interface of a table with numbered slots: storing a valid entry succeeds, keeps the
  invariant, and changes what is found at that slot only. The client lemma is about storing
  entries at distinct slots one after the other.
\<close>

locale slot_store =
  fixes ok :: "'s \<Rightarrow> bool"
    and valid :: "nat \<Rightarrow> 'v \<Rightarrow> bool"
    and put :: "nat \<Rightarrow> 'v \<Rightarrow> 's \<Rightarrow> 's run"
    and get :: "'s \<Rightarrow> nat \<Rightarrow> 'v option"
  assumes put_get: "ok s \<Longrightarrow> valid i v \<Longrightarrow>
    \<exists>s'. put i v s = Ret s' \<and> ok s' \<and> get s' = (get s)(i \<mapsto> v)"
begin

lemma put_all:
  "ok s \<Longrightarrow> \<forall>(i, v) \<in> set ivs. valid i v \<Longrightarrow> distinct (map fst ivs) \<Longrightarrow>
   \<exists>s'. fold_run (\<lambda>(i, v). put i v) ivs s = Ret s' \<and> ok s' \<and> get s' = get s ++ map_of ivs"
proof (induction ivs arbitrary: s)
  case Nil
  then show ?case by simp
next
  case (Cons iv ivs)
  obtain i v where iv: "iv = (i, v)" by fastforce
  from put_get [of s i v] Cons.prems iv obtain s1
    where s1: "put i v s = Ret s1" "ok s1" "get s1 = (get s)(i \<mapsto> v)" by auto
  from Cons.IH [of s1] Cons.prems s1(2) obtain s2
    where "fold_run (\<lambda>(i, v). put i v) ivs s1 = Ret s2" "ok s2" "get s2 = get s1 ++ map_of ivs"
    by auto
  moreover have "map_of ivs i = None"
    using Cons.prems(3) iv by (simp add: map_of_eq_None_iff)
  then have "(get s)(i \<mapsto> v) ++ map_of ivs = get s ++ map_of (iv # ivs)"
    using iv by (auto simp: map_add_def fun_eq_iff split: option.splits)
  ultimately have "fold_run (\<lambda>(i, v). put i v) (iv # ivs) s = Ret s2 \<and> ok s2 \<and>
      get s2 = get s ++ map_of (iv # ivs)"
    using s1 iv by (simp only: fold_run.simps run_bind.simps prod.case simp_thms)
  then show ?case by blast
qed

end

section \<open>Stores that choose the key\<close>

text \<open>
  The interface of a table that hands out keys: storing a valid value fails only when the table has
  \<open>cap\<close> entries, and otherwise returns a key that was free and adds this one entry. The client
  lemma is about storing several values one after the other while there is room for all of them.
\<close>

locale key_store =
  fixes ok :: "'s \<Rightarrow> bool"
    and valid :: "'v \<Rightarrow> bool"
    and entries :: "'s \<Rightarrow> 'k \<rightharpoonup> 'v"
    and put :: "'v \<Rightarrow> 's \<Rightarrow> ('e + 'k) \<times> 's"
    and cap :: nat
  assumes finite_entries: "ok s \<Longrightarrow> finite (dom (entries s))"
    and put_ok: "ok s \<Longrightarrow> valid v \<Longrightarrow> put v s = (Inr k, s') \<Longrightarrow>
      ok s' \<and> entries s k = None \<and> entries s' = (entries s)(k \<mapsto> v)"
    and put_full: "ok s \<Longrightarrow> valid v \<Longrightarrow> put v s = (Inl e, s') \<Longrightarrow> s' = s \<and> card (dom (entries s)) = cap"
begin

lemma put_room:
  assumes "ok s" "valid v" "card (dom (entries s)) < cap"
  obtains k s' where "put v s = (Inr k, s')" "ok s'" "entries s k = None"
    "entries s' = (entries s)(k \<mapsto> v)" "card (dom (entries s')) = Suc (card (dom (entries s)))"
proof -
  obtain r s' where r: "put v s = (r, s')" by fastforce
  have "\<exists>k. r = Inr k"
  proof (cases r)
    case (Inl e)
    then show ?thesis using put_full [OF assms(1,2), of e s'] r assms(3) by simp
  qed simp
  then obtain k where k: "r = Inr k" by blast
  have p: "ok s'" "entries s k = None" "entries s' = (entries s)(k \<mapsto> v)"
    using put_ok [OF assms(1,2), of k s'] r k by simp_all
  moreover have "k \<notin> dom (entries s)" using p(2) by (simp add: domIff)
  then have "card (dom (entries s')) = Suc (card (dom (entries s)))"
    using p(3) finite_entries [OF assms(1)] by simp
  ultimately show thesis using that r k by simp
qed

lemma put_three:
  assumes "ok s" "valid u" "valid v" "valid w" "card (dom (entries s)) + 3 \<le> cap"
  obtains s1 s2 s3 i j k where "put u s = (Inr i, s1)" "put v s1 = (Inr j, s2)" "put w s2 = (Inr k, s3)"
    "ok s3" "distinct [i, j, k]" "entries s3 = (entries s)(i \<mapsto> u, j \<mapsto> v, k \<mapsto> w)"
proof -
  have "card (dom (entries s)) < cap" using assms(5) by simp
  then obtain i s1 where 1: "put u s = (Inr i, s1)" "ok s1" "entries s1 = (entries s)(i \<mapsto> u)"
    "card (dom (entries s1)) = Suc (card (dom (entries s)))"
    using put_room [OF assms(1,2)] by blast
  have "card (dom (entries s1)) < cap" using assms(5) 1(4) by simp
  then obtain j s2 where 2: "put v s1 = (Inr j, s2)" "ok s2" "entries s1 j = None" "entries s2 = (entries s1)(j \<mapsto> v)"
    "card (dom (entries s2)) = Suc (card (dom (entries s1)))"
    using put_room [OF 1(2) assms(3)] by blast
  have "card (dom (entries s2)) < cap" using assms(5) 1(4) 2(5) by simp
  then obtain k s3 where 3: "put w s2 = (Inr k, s3)" "ok s3" "entries s2 k = None" "entries s3 = (entries s2)(k \<mapsto> w)"
    using put_room [OF 2(2) assms(4)] by blast
  have "distinct [i, j, k]" using 1(3) 2(3,4) 3(3) by (auto split: if_splits)
  then show thesis using that 1 2 3 by simp
qed

end

section \<open>Allocators that move a cursor\<close>

text \<open>
  The interface of an allocator that hands out blocks above a cursor: a request either fails or
  yields a block between the old and the new position of the cursor, which never moves down. The
  client lemma is that the blocks of a sequence of requests lie one above the other, whatever requests
  fail in between.
\<close>

locale cursor_alloc =
  fixes ok :: "'s \<Rightarrow> bool"
    and valid :: "'r \<Rightarrow> bool"
    and cursor :: "'s \<Rightarrow> nat"
    and request :: "'r \<Rightarrow> 's \<Rightarrow> (nat \<times> nat) option \<times> 's"
  assumes request_ok: "ok s \<Longrightarrow> valid r \<Longrightarrow> request r s = (b, s') \<Longrightarrow>
    ok s' \<and> cursor s \<le> cursor s' \<and>
    (case b of None \<Rightarrow> True | Some (lo, hi) \<Rightarrow> cursor s \<le> lo \<and> lo \<le> hi \<and> hi \<le> cursor s')"
begin

fun requests :: "'r list \<Rightarrow> 's \<Rightarrow> (nat \<times> nat) list \<times> 's" where
  "requests [] s = ([], s)"
| "requests (r # rs) s =
     (case request r s of (b, s1) \<Rightarrow>
        case requests rs s1 of (bs, s2) \<Rightarrow> ((case b of None \<Rightarrow> bs | Some x \<Rightarrow> x # bs), s2))"

lemma requests_apart:
  "ok s \<Longrightarrow> list_all valid rs \<Longrightarrow> requests rs s = (bs, s') \<Longrightarrow>
   ok s' \<and> cursor s \<le> cursor s' \<and> sorted_wrt (\<lambda>x y. snd x \<le> fst y) bs \<and>
   (\<forall>(lo, hi) \<in> set bs. cursor s \<le> lo \<and> lo \<le> hi \<and> hi \<le> cursor s')"
proof (induction rs arbitrary: s bs)
  case (Cons r rs)
  obtain b s1 where b: "request r s = (b, s1)" by (cases "request r s")
  obtain cs s2 where c: "requests rs s1 = (cs, s2)" by (cases "requests rs s1")
  have s2: "s2 = s'" "bs = (case b of None \<Rightarrow> cs | Some x \<Rightarrow> x # cs)" using Cons.prems(3) b c by auto
  from request_ok [OF Cons.prems(1) _ b] Cons.prems(2) have
    1: "ok s1" "cursor s \<le> cursor s1"
       "case b of None \<Rightarrow> True | Some (lo, hi) \<Rightarrow> cursor s \<le> lo \<and> lo \<le> hi \<and> hi \<le> cursor s1" by auto
  from Cons.IH [OF 1(1) _ c [unfolded s2(1)]] Cons.prems(2) have
    2: "ok s'" "cursor s1 \<le> cursor s'" "sorted_wrt (\<lambda>x y. snd x \<le> fst y) cs"
       "\<forall>(lo, hi) \<in> set cs. cursor s1 \<le> lo \<and> lo \<le> hi \<and> hi \<le> cursor s'" by auto
  show ?case
  proof (cases b)
    case None
    then show ?thesis using 1 2 s2(2) by fastforce
  next
    case (Some x)
    obtain lo hi where x: "x = (lo, hi)" by fastforce
    have "hi \<le> fst y" if "y \<in> set cs" for y using 1(3) 2(4) that Some x by fastforce
    then show ?thesis using 1 2 s2(2) Some x by fastforce
  qed
qed simp

end

section \<open>Transition systems with an invariant\<close>

text \<open>
  The interface of a state machine: a start state, a step relation, and a predicate that holds
  at the start and that every step keeps. The client lemma is the induction over runs.
\<close>

locale invariant_system =
  fixes start :: "'s \<Rightarrow> bool"
    and step :: "'s \<Rightarrow> 's \<Rightarrow> bool"
    and inv :: "'s \<Rightarrow> bool"
  assumes start_inv: "start s \<Longrightarrow> inv s"
    and step_inv: "step s t \<Longrightarrow> inv s \<Longrightarrow> inv t"
begin

lemma run_inv: "step\<^sup>*\<^sup>* s t \<Longrightarrow> inv s \<Longrightarrow> inv t"
  by (induction rule: rtranclp_induct) (auto intro: step_inv)

lemma reachable_inv: "start s \<Longrightarrow> step\<^sup>*\<^sup>* s t \<Longrightarrow> inv t"
  using run_inv start_inv by blast

end

end
