(* ===== verification/WL_Split.thy ===== *)
theory WL_Split
  imports WL_Prelude
begin

text \<open>
  The byte-separator iterator \<open>SplitAscii\<close> of \<open>wl-ld-lilium/src/helpers.rs\<close>, the prefix and
  suffix tests used by its glob expansion, and the environment lookup \<open>get_env\<close> of
  \<open>wl-ld-lilium/src/env.rs\<close> built on it. The state of the iterator is the byte slice still to
  be split together with the separator.
\<close>

section \<open>The iterator\<close>

record split_ascii =
  rest :: bytes
  sepb :: u8

definition split_new :: "bytes \<Rightarrow> u8 \<Rightarrow> split_ascii run" where
  "split_new v val = (if val > 0x80 then Panic else Ret \<lparr>rest = v, sepb = val\<rparr>)"

text \<open>The enumerating loop shared by \<open>find\<close> and \<open>next\<close>: index of the first separator.\<close>

fun find_sep :: "u8 \<Rightarrow> bytes \<Rightarrow> nat option" where
  "find_sep c [] = None"
| "find_sep c (b # bs) = (if b = c then Some 0 else map_option Suc (find_sep c bs))"

text \<open>The reversed loop of \<open>next_back\<close>: index of the last separator.\<close>

fun rfind_sep :: "u8 \<Rightarrow> bytes \<Rightarrow> nat option" where
  "rfind_sep c [] = None"
| "rfind_sep c (b # bs) =
     (case rfind_sep c bs of Some i \<Rightarrow> Some (Suc i) | None \<Rightarrow> if b = c then Some 0 else None)"

definition split_find :: "split_ascii \<Rightarrow> nat option" where
  "split_find s = find_sep (sepb s) (rest s)"

definition split_next :: "split_ascii \<Rightarrow> bytes option \<times> split_ascii" where
  "split_next s =
     (if rest s = [] then (None, s)
      else case find_sep (sepb s) (rest s) of
             Some i \<Rightarrow> (Some (take i (rest s)), s\<lparr>rest := drop (i + 1) (rest s)\<rparr>)
           | None \<Rightarrow> (Some (rest s), s\<lparr>rest := drop (length (rest s)) (rest s)\<rparr>))"

definition split_next_back :: "split_ascii \<Rightarrow> bytes option \<times> split_ascii" where
  "split_next_back s =
     (if rest s = [] then (None, s)
      else case rfind_sep (sepb s) (rest s) of
             Some i \<Rightarrow> (Some (drop (i + 1) (rest s)), s\<lparr>rest := take i (rest s)\<rparr>)
           | None \<Rightarrow> (Some (rest s), s\<lparr>rest := take 1 (rest s)\<rparr>))"

definition split_once :: "split_ascii \<Rightarrow> bytes \<times> bytes" where
  "split_once s =
     (case split_next s of (v, s') \<Rightarrow> ((case v of Some x \<Rightarrow> x | None \<Rightarrow> []), rest s'))"

definition rsplit_once :: "split_ascii \<Rightarrow> bytes \<times> bytes" where
  "rsplit_once s =
     (case split_next_back s of (v, s') \<Rightarrow> (rest s', (case v of Some x \<Rightarrow> x | None \<Rightarrow> [])))"

text \<open>What a \<open>for\<close> loop over the iterator visits: the items of \<open>next\<close> until it returns \<open>None\<close>.\<close>

lemma find_sep_Some: "find_sep c bs = Some i \<Longrightarrow> i < length bs \<and> bs ! i = c \<and> c \<notin> set (take i bs)"
  by (induction bs arbitrary: i) (auto split: if_splits)

lemma find_sep_None [simp]: "find_sep c bs = None \<longleftrightarrow> c \<notin> set bs"
  by (induction bs) auto

lemmas find_sep_NoneI [simp] = find_sep_None [THEN iffD2]

function split_items :: "u8 \<Rightarrow> bytes \<Rightarrow> bytes list" where
  "split_items c bs =
     (case split_next \<lparr>rest = bs, sepb = c\<rparr> of
        (None, s') \<Rightarrow> []
      | (Some v, s') \<Rightarrow> v # split_items c (rest s'))"
  by pat_completeness auto
termination
  by (relation "measure (\<lambda>(c, bs). length bs)")
     (auto simp: split_next_def split: if_splits option.splits dest: find_sep_Some)

declare split_items.simps [simp del]

definition has_prefix :: "bytes \<Rightarrow> bytes \<Rightarrow> bool" where
  "has_prefix long prefix =
     (if length long < length prefix then False else take (length prefix) long = prefix)"

definition has_suffix :: "bytes \<Rightarrow> bytes \<Rightarrow> bool" where
  "has_suffix long suffix =
     (if length long < length suffix then False
      else drop (length long - length suffix) long = suffix)"

section \<open>Environment lookup\<close>

text \<open>
  \<open>env\<close> is \<open>None\<close> for a null \<open>__environ\<close> and otherwise the byte strings its null-terminated
  pointer array yields, in order.
\<close>

fun get_env_loop :: "bytes list \<Rightarrow> bytes \<Rightarrow> bytes option" where
  "get_env_loop [] var = None"
| "get_env_loop (st # sts) var =
     (case split_once \<lparr>rest = st, sepb = 0x3D\<rparr> of
        (key, val) \<Rightarrow> if key = var then Some val else get_env_loop sts var)"

definition get_env :: "bytes list option \<Rightarrow> bytes \<Rightarrow> bytes option" where
  "get_env env var = (case env of None \<Rightarrow> None | Some sts \<Rightarrow> get_env_loop sts var)"

section \<open>Lemmas on one step\<close>

lemma find_sep_append [simp]: "c \<notin> set xs \<Longrightarrow> find_sep c (xs @ c # ys) = Some (length xs)"
  by (induction xs) auto

lemma rfind_sep_None [simp]: "rfind_sep c bs = None \<longleftrightarrow> c \<notin> set bs"
  by (induction bs) (auto split: option.splits)

lemmas rfind_sep_NoneI [simp] = rfind_sep_None [THEN iffD2]

lemma rfind_sep_append [simp]: "c \<notin> set ys \<Longrightarrow> rfind_sep c (xs @ c # ys) = Some (length xs)"
  by (induction xs) auto

lemma split_next_sep:
  "c \<notin> set xs \<Longrightarrow>
   split_next \<lparr>rest = xs @ c # ys, sepb = c\<rparr> = (Some xs, \<lparr>rest = ys, sepb = c\<rparr>)"
  by (simp add: split_next_def)

lemma split_next_last:
  "c \<notin> set xs \<Longrightarrow> xs \<noteq> [] \<Longrightarrow>
   split_next \<lparr>rest = xs, sepb = c\<rparr> = (Some xs, \<lparr>rest = [], sepb = c\<rparr>)"
  by (simp add: split_next_def)

lemma split_items_Nil [simp]: "split_items c [] = []"
  by (subst split_items.simps) (simp add: split_next_def)

lemma split_items_sep [simp]: "c \<notin> set xs \<Longrightarrow> split_items c (xs @ c # ys) = xs # split_items c ys"
  by (subst split_items.simps) (simp add: split_next_sep)

lemma split_items_last [simp]: "c \<notin> set xs \<Longrightarrow> xs \<noteq> [] \<Longrightarrow> split_items c xs = [xs]"
  by (subst split_items.simps) (simp add: split_next_last)

lemma split_once_sep [simp]:
  "c \<notin> set xs \<Longrightarrow> split_once \<lparr>rest = xs @ c # ys, sepb = c\<rparr> = (xs, ys)"
  by (simp add: split_once_def split_next_sep)

lemma split_once_none [simp]: "c \<notin> set xs \<Longrightarrow> split_once \<lparr>rest = xs, sepb = c\<rparr> = (xs, [])"
  by (simp add: split_once_def split_next_def)

text \<open>Every byte string either has no separator or splits at its first one.\<close>

lemma split_first_cases [case_names none sep]:
  assumes "c \<notin> set bs \<Longrightarrow> P" and "\<And>xs ys. bs = xs @ c # ys \<Longrightarrow> c \<notin> set xs \<Longrightarrow> P"
  shows P
  using assms split_list_first by metis

section \<open>Properties\<close>

text \<open>Joining the items again, each followed by the separator.\<close>

definition terminate_all :: "u8 \<Rightarrow> bytes list \<Rightarrow> bytes" where
  "terminate_all c xss = concat (map (\<lambda>xs. xs @ [c]) xss)"

lemma terminate_all_simps [simp]:
  "terminate_all c [] = []"
  "terminate_all c (xs # xss) = xs @ c # terminate_all c xss"
  by (simp_all add: terminate_all_def)

lemma split_items_cover:
  "(\<forall>x \<in> set (split_items c bs). c \<notin> set x) \<and>
   (terminate_all c (split_items c bs) = bs \<or>
    split_items c bs \<noteq> [] \<and> last (split_items c bs) \<noteq> [] \<and>
    terminate_all c (split_items c bs) = bs @ [c])"
proof (induction "length bs" arbitrary: bs rule: less_induct)
  case less
  show ?case
  proof (cases bs rule: split_first_cases [where c = c])
    case none
    then show ?thesis by (cases "bs = []") auto
  next
    case (sep xs ys)
    with less [of ys] show ?thesis by auto
  qed
qed

lemma split_items_terminated:
  "\<forall>x \<in> set xss. c \<notin> set x \<Longrightarrow> split_items c (terminate_all c xss @ ys) = xss @ split_items c ys"
  by (induction xss) auto

lemma split_items_unterminated:
  assumes "\<forall>x \<in> set xss. c \<notin> set x" and "xss \<noteq> []" and "last xss \<noteq> []"
    and "terminate_all c xss = bs @ [c]"
  shows "split_items c bs = xss"
proof -
  obtain yss l where xss: "xss = yss @ [l]" using assms(2) rev_exhaust by blast
  then have "bs = terminate_all c yss @ l"
    using assms(4) by (simp add: terminate_all_def)
  with xss assms(1,3) show ?thesis by (simp add: split_items_terminated)
qed

text \<open>
  C21. The items a loop over \<open>SplitAscii\<close> visits are determined by the bytes and lose nothing:
  they are exactly the separator-free pieces that give the bytes back when the separator is
  written after each of them, where the separator after a non-empty last piece may be missing.
\<close>

theorem split_items_spec:
  "split_items c bs = xss \<longleftrightarrow>
     list_all (\<lambda>x. c \<notin> set x) xss \<and>
     (terminate_all c xss = bs \<or>
      xss \<noteq> [] \<and> last xss \<noteq> [] \<and> terminate_all c xss = bs @ [c])"
proof
  assume eq: "split_items c bs = xss"
  show "list_all (\<lambda>x. c \<notin> set x) xss \<and>
     (terminate_all c xss = bs \<or>
      xss \<noteq> [] \<and> last xss \<noteq> [] \<and> terminate_all c xss = bs @ [c])"
    using split_items_cover [of c bs] unfolding eq list_all_iff .
next
  assume "list_all (\<lambda>x. c \<notin> set x) xss \<and>
     (terminate_all c xss = bs \<or>
      xss \<noteq> [] \<and> last xss \<noteq> [] \<and> terminate_all c xss = bs @ [c])"
  then show "split_items c bs = xss"
    using split_items_terminated [of xss c "[]"] split_items_unterminated [of xss c bs]
    by (elim conjE disjE) (simp_all add: list_all_iff)
qed

text \<open>Iterating \<open>next_back\<close> \<open>n\<close> times.\<close>

fun back_iter :: "nat \<Rightarrow> split_ascii \<Rightarrow> split_ascii" where
  "back_iter 0 s = s"
| "back_iter (Suc n) s = back_iter n (snd (split_next_back s))"

lemma back_iter_stuck:
  "b \<noteq> c \<Longrightarrow> back_iter n \<lparr>rest = [b], sepb = c\<rparr> = \<lparr>rest = [b], sepb = c\<rparr>"
  by (induction n) (simp_all add: split_next_back_def)

text \<open>
  \<open>rsplit_once\<close> cuts at the last separator. Without a separator the head it returns is the
  first byte of the text and not the empty text: \<open>next_back\<close> keeps \<open>[..1]\<close> of the slice, so
  iterating from the back never ends either.
\<close>

theorem rsplit_once_behaviour:
  assumes "c \<notin> set ys" and "b \<noteq> c"
  shows "rsplit_once \<lparr>rest = xs @ c # ys, sepb = c\<rparr> = (xs, ys) \<and>
    rsplit_once \<lparr>rest = ys, sepb = c\<rparr> = (take 1 ys, ys) \<and>
    fst (split_next_back (back_iter n \<lparr>rest = [b], sepb = c\<rparr>)) = Some [b]"
  using assms by (simp_all add: rsplit_once_def split_next_back_def back_iter_stuck)

theorem rsplit_once_behaviour_witness:
  "rsplit_once \<lparr>rest = [0x65, 0x2F, 0x66] @ 0x2F # [0x61, 0x62], sepb = 0x2F\<rparr>
     = ([0x65, 0x2F, 0x66], [0x61, 0x62]) \<and>
   rsplit_once \<lparr>rest = [0x61, 0x62], sepb = 0x2F\<rparr> = ([0x61], [0x61, 0x62]) \<and>
   fst (split_next_back (back_iter 7 \<lparr>rest = [0x61], sepb = 0x2F\<rparr>)) = Some [0x61]"
  using rsplit_once_behaviour [of "0x2F" "[0x61, 0x62]" "0x61" "[0x65, 0x2F, 0x66]" 7] by simp

text \<open>
  \<open>get_env\<close> is a lookup in the environment read as an association list: it returns the
  value of the first \<open>key=value\<close> string with the key asked for, and nothing if there is none
  (keys never contain \<open>=\<close>, values may).
\<close>

theorem get_env_is_map_of:
  assumes "\<forall>(k, v) \<in> set kvs. 0x3D \<notin> set k"
  shows "get_env (Some (map (\<lambda>(k, v). k @ 0x3D # v) kvs)) var = map_of kvs var"
proof -
  have "get_env_loop (map (\<lambda>(k, v). k @ 0x3D # v) kvs) var = map_of kvs var"
    using assms by (induction kvs) auto
  then show ?thesis by (simp add: get_env_def)
qed

theorem get_env_is_map_of_witness:
  "get_env (Some [[0x41, 0x3D, 0x31], [0x42, 0x3D, 0x32, 0x3D]]) [0x42] = Some [0x32, 0x3D]"
  using get_env_is_map_of [of "[([0x41], [0x31]), ([0x42], [0x32, 0x3D])]" "[0x42]"] by simp

end
