(* ===== verification/WL_Dispatch.thy ===== *)
theory WL_Dispatch
  imports WL_Prelude
begin

text \<open>
  System call dispatch: the subsystem registry and the trampoline of
  \<open>wl-impl/src/syscall_handler.rs\<close>, the table builder \<open>insert_elems\<close> of
  \<open>wl-impl/src/helpers.rs\<close>, the register shuffle of the \<open>SIGSYS\<close> handler in
  \<open>wl-impl/src/catch_signals.rs\<close>, and the tables the six default subsystems register
  (\<open>wl-usi-*/src/lib.rs\<close>). The 64 atomic pointers of each static array are the entries of a
  list, null being \<open>None\<close>; memory orderings are not modelled. A UUID is the text the source
  gives to \<open>parse_uuid\<close>.
\<close>

section \<open>Building a table\<close>

fun insert_elems_loop :: "'a list \<Rightarrow> (nat \<times> 'a) list \<Rightarrow> 'a list run" where
  "insert_elems_loop base [] = Ret base"
| "insert_elems_loop base ((idx, val) # updates) =
     (if idx < length base then insert_elems_loop (base[idx := val]) updates else Panic)"

definition insert_elems :: "'a list \<Rightarrow> (nat \<times> 'a) list \<Rightarrow> 'a list run" where
  "insert_elems base updates =
     (if length updates \<le> length base then insert_elems_loop base updates else Panic)"

section \<open>The registry\<close>

type_synonym uuid = string

record subsys_info =
  si_name :: string
  si_uuid :: uuid
  subsys_version :: u64
  max_sysno :: u16

record 'f registry =
  syscall_subsys_array :: "'f option list option list"
  next_dyn_subsys :: usize
  subsys_registry :: "subsys_info option list"

definition registry_init :: "'f registry" where
  "registry_init =
     \<lparr>syscall_subsys_array = replicate 64 None, next_dyn_subsys = 8,
      subsys_registry = replicate 64 None\<rparr>"

definition register_subsys ::
    "usize \<Rightarrow> 'f option list \<Rightarrow> subsys_info \<Rightarrow> 'f registry \<Rightarrow> 'f registry run" where
  "register_subsys subsys arr info r =
     run_bind
       (if subsys = NOT 0 then
          let val = next_dyn_subsys r in
          if unat val > length (syscall_subsys_array r) then Panic
          else Ret (val, r\<lparr>next_dyn_subsys := val + 1\<rparr>)
        else Ret (subsys, r))
       (\<lambda>(n, r').
          if unat n < length (syscall_subsys_array r') \<and> unat n < length (subsys_registry r')
          then Ret (r'\<lparr>syscall_subsys_array := (syscall_subsys_array r')[unat n := Some arr],
                      subsys_registry := (subsys_registry r')[unat n := Some info]\<rparr>)
          else Panic)"

definition all_subsystems :: "'f registry \<Rightarrow> (u16 \<times> subsys_info) list" where
  "all_subsystems r =
     List.map_filter (\<lambda>(num, p). map_option (\<lambda>v. (word_of_nat num, v)) p)
       (enumerate 0 (subsys_registry r))"

section \<open>The trampoline\<close>

text \<open>
  The assembly of \<open>__handle_syscall\<close> ends in a jump to the handler or in returning the constant
  \<open>UNSUPPORTED_KERNEL_FUNCTION\<close>. The table entry read is in bounds because every table has 4096
  entries and the index is masked to 12 bits.
\<close>

datatype 'f dispatch = Jump 'f | Unsupported

definition handle_syscall :: "'f registry \<Rightarrow> u64 \<Rightarrow> 'f dispatch" where
  "handle_syscall r rax =
     (let r10 = drop_bit 12 rax; idx = rax AND 0xFFF in
      if r10 \<ge> 64 then Unsupported
      else case syscall_subsys_array r ! unat r10 of
             None \<Rightarrow> Unsupported
           | Some tbl \<Rightarrow>
               (case tbl ! unat idx of None \<Rightarrow> Unsupported | Some f \<Rightarrow> Jump f))"

text \<open>
  \<open>invoke_syscall_uctx\<close> loads the registers of the interrupted thread, calls the trampoline and
  writes the result back over \<open>rax\<close>. \<open>run\<close> is the effect of calling a handler with the six
  argument registers, \<open>unsupported\<close> the error constant.
\<close>

definition REG_R8 :: nat where "REG_R8 = 0"
definition REG_R9 :: nat where "REG_R9 = 1"
definition REG_R10 :: nat where "REG_R10 = 2"
definition REG_RDI :: nat where "REG_RDI = 8"
definition REG_RSI :: nat where "REG_RSI = 9"
definition REG_RDX :: nat where "REG_RDX = 12"
definition REG_RAX :: nat where "REG_RAX = 13"
definition NGREGS :: nat where "NGREGS = 19"

lemmas reg_defs =
  REG_R8_def REG_R9_def REG_R10_def REG_RDI_def REG_RSI_def REG_RDX_def REG_RAX_def NGREGS_def

definition invoke_syscall_uctx ::
    "('f \<Rightarrow> u64 list \<Rightarrow> u64) \<Rightarrow> u64 \<Rightarrow> 'f registry \<Rightarrow> u64 list \<Rightarrow> u64 list" where
  "invoke_syscall_uctx run unsupported r gregs =
     (let rax = gregs ! REG_RAX; rdi = gregs ! REG_RDI; rsi = gregs ! REG_RSI;
          rdx = gregs ! REG_RDX; rcx = gregs ! REG_R10; r8 = gregs ! REG_R8;
          r9 = gregs ! REG_R9
      in gregs[REG_RAX :=
           (case handle_syscall r rax of
              Jump f \<Rightarrow> run f [rdi, rsi, rdx, rcx, r8, r9]
            | Unsupported \<Rightarrow> unsupported)])"

section \<open>The default subsystems\<close>

datatype syscall_fn =
    UnmanagedException | GetSystemInfo
  | IOWrite
  | ExitProcess | CreateMapping | ChangeMappingAttributes | RemoveMapping | ResizeMapping

definition empty_table :: "syscall_fn option list" where
  "empty_table = replicate 4096 None"

text \<open>\<open>sys_ue\<close> and \<open>sys_gsi\<close> are \<open>SYS_UnmanagedException\<close> and \<open>SYS_GetSystemInfo\<close> of \<open>lilium_sys\<close>.\<close>

definition base_syscalls :: "nat \<Rightarrow> nat \<Rightarrow> syscall_fn option list run" where
  "base_syscalls sys_ue sys_gsi =
     insert_elems empty_table [(sys_ue, Some UnmanagedException), (sys_gsi, Some GetSystemInfo)]"

definition thread_syscalls :: "syscall_fn option list run" where
  "thread_syscalls = insert_elems empty_table []"

definition io_syscalls :: "syscall_fn option list run" where
  "io_syscalls = insert_elems empty_table [(1, Some IOWrite)]"

definition process_syscalls :: "syscall_fn option list run" where
  "process_syscalls =
     insert_elems empty_table
       [(0, Some ExitProcess), (0x30, Some CreateMapping), (0x31, Some ChangeMappingAttributes),
        (0x32, Some RemoveMapping), (0x33, Some ResizeMapping)]"

definition debug_syscalls :: "syscall_fn option list run" where
  "debug_syscalls = insert_elems empty_table []"

definition kmgmt_syscalls :: "syscall_fn option list run" where
  "kmgmt_syscalls = insert_elems empty_table []"

definition base_info :: subsys_info where
  "base_info = \<lparr>si_name = ''base'', si_uuid = ''9e780f9e-f35f-580a-ada0-444d0c24e3ea'',
     subsys_version = 0, max_sysno = 128\<rparr>"

definition thread_info :: subsys_info where
  "thread_info = \<lparr>si_name = ''thread'', si_uuid = ''f8ee4381-7db2-5c4b-bdd9-dad7f83412a4'',
     subsys_version = 0, max_sysno = 128\<rparr>"

definition io_info :: subsys_info where
  "io_info = \<lparr>si_name = ''io'', si_uuid = ''144e7137-9e85-5b9e-8d4a-8c700fb9d6bd'',
     subsys_version = 0, max_sysno = 128\<rparr>"

definition process_info :: subsys_info where
  "process_info = \<lparr>si_name = ''process'', si_uuid = ''2bf86506-9b4a-5065-ac9e-ad6d21027460'',
     subsys_version = 0, max_sysno = 128\<rparr>"

definition debug_info :: subsys_info where
  "debug_info = \<lparr>si_name = ''debug'', si_uuid = ''630603ac-38d2-5936-9083-ed87a50b3453'',
     subsys_version = 0, max_sysno = 128\<rparr>"

definition kmgmt_info :: subsys_info where
  "kmgmt_info = \<lparr>si_name = ''kmgmt'', si_uuid = ''90bd3c96-a8e1-5896-a9f2-704e98abec9f'',
     subsys_version = 0, max_sysno = 128\<rparr>"

definition init_subsystem ::
    "usize \<Rightarrow> syscall_fn option list run \<Rightarrow> subsys_info \<Rightarrow> syscall_fn registry \<Rightarrow>
     syscall_fn registry run" where
  "init_subsystem n tbl info r = run_bind tbl (\<lambda>t. register_subsys n t info r)"

text \<open>The initialisation calls of \<open>__rust_entry\<close>, in its order.\<close>

definition boot_subsystems :: "nat \<Rightarrow> nat \<Rightarrow> syscall_fn registry run" where
  "boot_subsystems sys_ue sys_gsi =
     run_bind (init_subsystem 0 (base_syscalls sys_ue sys_gsi) base_info registry_init) (\<lambda>r.
     run_bind (init_subsystem 1 thread_syscalls thread_info r) (\<lambda>r.
     run_bind (init_subsystem 2 io_syscalls io_info r) (\<lambda>r.
     run_bind (init_subsystem 3 process_syscalls process_info r) (\<lambda>r.
     run_bind (init_subsystem 4 debug_syscalls debug_info r) (\<lambda>r.
     init_subsystem 5 kmgmt_syscalls kmgmt_info r)))))"

section \<open>Lemmas\<close>

lemma insert_elems_loop_spec:
  "\<forall>(i, v) \<in> set ups. i < length base \<Longrightarrow> distinct (map fst ups) \<Longrightarrow>
   \<exists>out. insert_elems_loop base ups = Ret out \<and> length out = length base \<and>
     (\<forall>i < length base. out ! i = (case map_of ups i of Some v \<Rightarrow> v | None \<Rightarrow> base ! i))"
proof (induction ups arbitrary: base)
  case Nil
  then show ?case by simp
next
  case (Cons u ups)
  obtain j w where u: "u = (j, w)" by fastforce
  from Cons.IH [of "base[j := w]"] Cons.prems u obtain out where out:
    "insert_elems_loop (base[j := w]) ups = Ret out" "length out = length base"
    "\<forall>i < length base. out ! i = (case map_of ups i of Some v \<Rightarrow> v | None \<Rightarrow> base[j := w] ! i)"
    by auto
  moreover have "map_of ups j = None"
    using Cons.prems(2) u by (simp add: map_of_eq_None_iff)
  ultimately show ?case
    using Cons.prems(1) u by (auto split: option.splits)
qed

definition registry_ok :: "'f registry \<Rightarrow> bool" where
  "registry_ok r \<longleftrightarrow>
     length (syscall_subsys_array r) = 64 \<and> length (subsys_registry r) = 64 \<and>
     (\<forall>n < 64. (syscall_subsys_array r ! n = None) = (subsys_registry r ! n = None)) \<and>
     (\<forall>n < 64. \<forall>t. syscall_subsys_array r ! n = Some t \<longrightarrow> length t = 4096)"

definition subsys_slot :: "'f registry \<Rightarrow> nat \<Rightarrow> ('f option list \<times> subsys_info) option" where
  "subsys_slot r n =
     (if n < 64 then
        case syscall_subsys_array r ! n of
          None \<Rightarrow> None
        | Some t \<Rightarrow> map_option (\<lambda>i. (t, i)) (subsys_registry r ! n)
      else None)"

lemma registry_init_ok: "registry_ok registry_init"
  by (simp add: registry_ok_def registry_init_def)

lemma registry_init_slot [simp]: "subsys_slot registry_init = Map.empty"
  by (auto simp: subsys_slot_def registry_init_def fun_eq_iff)

lemma register_slot:
  assumes "registry_ok r" and "n < 64" and "length t = 4096"
  shows "\<exists>r'. register_subsys (word_of_nat n) t info r = Ret r' \<and> registry_ok r' \<and>
    subsys_slot r' = (subsys_slot r)(n \<mapsto> (t, info)) \<and> next_dyn_subsys r' = next_dyn_subsys r"
proof -
  have n: "unat (word_of_nat n :: usize) = n"
    using assms(2) by (simp add: unat_of_nat take_bit_eq_mod)
  then have "(word_of_nat n :: usize) \<noteq> NOT 0"
    using assms(2) unat_max_usize by auto
  with n assms show ?thesis
    by (auto simp: register_subsys_def registry_ok_def subsys_slot_def fun_eq_iff nth_list_update)
qed

interpretation subsystems: slot_store registry_ok
  "\<lambda>n (t, info). n < 64 \<and> length t = 4096"
  "\<lambda>n (t, info). register_subsys (word_of_nat n) t info"
  subsys_slot
  by unfold_locales (use register_slot in \<open>fastforce split: prod.splits\<close>)

text \<open>Dispatch reads one slot, named by the number of the call divided by 4096.\<close>

definition table_entry :: "'f option list \<Rightarrow> nat \<Rightarrow> 'f dispatch" where
  "table_entry t i = (case t ! i of None \<Rightarrow> Unsupported | Some f \<Rightarrow> Jump f)"

lemma unat_subsys_no: "unat (drop_bit 12 (rax :: u64)) = unat rax div 4096"
  by (simp add: drop_bit_eq_div unat_div_distrib)

lemma unat_call_no: "unat ((rax :: u64) AND 0xFFF) = unat rax mod 4096"
proof -
  have "rax AND 0xFFF = take_bit 12 rax"
    by (simp add: take_bit_eq_mask mask_eq_exp_minus_1)
  then show ?thesis by (simp add: take_bit_eq_mod unat_mod_distrib)
qed

lemma handle_syscall_slot:
  assumes "registry_ok r"
  shows "handle_syscall r rax =
    (case subsys_slot r (unat rax div 4096) of
       None \<Rightarrow> Unsupported | Some (t, _) \<Rightarrow> table_entry t (unat rax mod 4096))"
proof -
  have "drop_bit 12 rax \<ge> 64 \<longleftrightarrow> \<not> unat rax div 4096 < 64"
    by (simp add: word_le_nat_alt unat_subsys_no not_less)
  with assms show ?thesis
    by (auto simp: handle_syscall_def subsys_slot_def table_entry_def unat_subsys_no unat_call_no
        registry_ok_def Let_def split: option.splits)
qed

text \<open>
  C1. Registering a table under a fixed number succeeds and changes dispatch for exactly the
  4096 system call numbers of that subsystem: they now reach the entries of the new table, every
  other number dispatches as before. The registry stays well formed.
\<close>

theorem register_then_dispatch:
  assumes "registry_ok r" and "n < 64" and "length t = 4096"
  shows "\<exists>r'. register_subsys (word_of_nat n) t info r = Ret r' \<and> registry_ok r' \<and>
    (\<forall>rax. handle_syscall r' rax =
       (if unat rax div 4096 = n then table_entry t (unat rax mod 4096)
        else handle_syscall r rax))"
  using register_slot [OF assms, of info] handle_syscall_slot [OF assms(1)]
  by (auto simp: handle_syscall_slot)

theorem register_then_dispatch_witness:
  "\<exists>r'. register_subsys (word_of_nat 2) (replicate 4096 None) io_info
      (registry_init :: syscall_fn registry) = Ret r' \<and> registry_ok r' \<and>
    (\<forall>rax. handle_syscall r' rax =
       (if unat rax div 4096 = 2 then table_entry (replicate 4096 None) (unat rax mod 4096)
        else handle_syscall registry_init rax))"
  by (rule register_then_dispatch) (simp_all add: registry_init_ok)

section \<open>The default subsystems after start-up\<close>

lemma insert_elems_table:
  assumes "\<forall>(i, f) \<in> set ups. i < 4096" and "distinct (map fst ups)" and "length ups \<le> 4096"
  shows "\<exists>t. insert_elems empty_table (map (\<lambda>(i, f). (i, Some f)) ups) = Ret t \<and> length t = 4096 \<and>
    (\<forall>i < 4096. table_entry t i = (case map_of ups i of Some f \<Rightarrow> Jump f | None \<Rightarrow> Unsupported))"
proof -
  let ?ups = "map (\<lambda>(i, f). (i, Some f)) ups"
  have "\<forall>(i, v) \<in> set ?ups. i < length empty_table" and "distinct (map fst ?ups)"
    using assms by (auto simp: empty_table_def comp_def case_prod_unfold)
  from insert_elems_loop_spec [OF this] obtain out where
    "insert_elems_loop empty_table ?ups = Ret out" "length out = 4096"
    "\<forall>i < 4096. out ! i = (case map_of ?ups i of Some v \<Rightarrow> v | None \<Rightarrow> empty_table ! i)"
    by (auto simp: empty_table_def simp del: nth_replicate)
  moreover have "map_of ?ups i = map_option Some (map_of ups i)" for i
    by (induction ups) auto
  ultimately show ?thesis
    using assms(3)
    by (auto simp: insert_elems_def table_entry_def empty_table_def split: option.splits)
qed

definition boot_calls :: "nat \<Rightarrow> nat \<Rightarrow> (nat \<times> syscall_fn) list" where
  "boot_calls sys_ue sys_gsi =
     [(sys_ue, UnmanagedException), (sys_gsi, GetSystemInfo), (0x2001, IOWrite),
      (0x3000, ExitProcess), (0x3030, CreateMapping), (0x3031, ChangeMappingAttributes),
      (0x3032, RemoveMapping), (0x3033, ResizeMapping)]"

text \<open>The pairs of slot and entry the six initialisers store.\<close>

lemma boot_as_fold:
  assumes "base_syscalls sys_ue sys_gsi = Ret t0" and "thread_syscalls = Ret t1"
    and "io_syscalls = Ret t2" and "process_syscalls = Ret t3" and "debug_syscalls = Ret t4"
    and "kmgmt_syscalls = Ret t5"
  shows "boot_subsystems sys_ue sys_gsi =
    fold_run (\<lambda>(n, t, info). register_subsys (word_of_nat n) t info)
      [(0, t0, base_info), (1, t1, thread_info), (2, t2, io_info), (3, t3, process_info),
       (4, t4, debug_info), (5, t5, kmgmt_info)] registry_init"
  by (simp add: boot_subsystems_def init_subsystem_def assms fold_run_fun)

lemma all_subsystems_slots:
  assumes "registry_ok r"
  shows "all_subsystems r =
    List.map_filter (\<lambda>n. map_option (\<lambda>(t, i). (word_of_nat n, i)) (subsys_slot r n)) [0..<64]"
proof -
  have nth: "subsys_registry r ! n = map_option snd (subsys_slot r n)" if "n < 64" for n
    using assms that by (auto simp: registry_ok_def subsys_slot_def split: option.splits)
  have "enumerate 0 (subsys_registry r) = map (\<lambda>n. (n, map_option snd (subsys_slot r n))) [0..<64]"
    using assms nth by (intro nth_equalityI) (auto simp: registry_ok_def nth_enumerate_eq)
  then show ?thesis
    by (auto simp: all_subsystems_def List.map_filter_def comp_def option.map_comp case_prod_unfold
        filter_map intro!: map_cong filter_cong)
qed

lemma call_split: "unat (rax :: u64) = 4096 * (unat rax div 4096) + unat rax mod 4096"
  by simp

text \<open>What a table built from a list of numbered handlers answers.\<close>

definition entry_of :: "(nat \<times> 'f) list \<Rightarrow> nat \<Rightarrow> 'f dispatch" where
  "entry_of m i = (case map_of m i of Some f \<Rightarrow> Jump f | None \<Rightarrow> Unsupported)"

definition base_calls :: "nat \<Rightarrow> nat \<Rightarrow> (nat \<times> syscall_fn) list" where
  "base_calls sys_ue sys_gsi = [(sys_ue, UnmanagedException), (sys_gsi, GetSystemInfo)]"

definition process_calls :: "(nat \<times> syscall_fn) list" where
  "process_calls = [(0, ExitProcess), (0x30, CreateMapping), (0x31, ChangeMappingAttributes),
     (0x32, RemoveMapping), (0x33, ResizeMapping)]"

lemma default_tables:
  assumes "sys_ue < 4096" and "sys_gsi < 4096" and "sys_ue \<noteq> sys_gsi"
  obtains t0 t2 t3 e where
    "base_syscalls sys_ue sys_gsi = Ret t0" "io_syscalls = Ret t2" "process_syscalls = Ret t3"
    "thread_syscalls = Ret e" "debug_syscalls = Ret e" "kmgmt_syscalls = Ret e"
    "length t0 = 4096" "length t2 = 4096" "length t3 = 4096" "length e = 4096"
    "\<forall>i < 4096. table_entry t0 i = entry_of (base_calls sys_ue sys_gsi) i"
    "\<forall>i < 4096. table_entry t2 i = entry_of [(1, IOWrite)] i"
    "\<forall>i < 4096. table_entry t3 i = entry_of process_calls i"
    "\<forall>i < 4096. table_entry e i = entry_of [] i"
  using insert_elems_table [of "base_calls sys_ue sys_gsi"]
    insert_elems_table [of "[(1, IOWrite)]"] insert_elems_table [of process_calls]
    insert_elems_table [of "[]"] assms
  by (force simp: base_syscalls_def io_syscalls_def process_syscalls_def thread_syscalls_def
      debug_syscalls_def kmgmt_syscalls_def base_calls_def process_calls_def entry_of_def)

lemma boot_slots:
  assumes "sys_ue < 4096" and "sys_gsi < 4096" and "sys_ue \<noteq> sys_gsi"
  obtains r t0 t2 t3 e where
    "boot_subsystems sys_ue sys_gsi = Ret r" "registry_ok r"
    "subsys_slot r = map_of [(0, t0, base_info), (1, e, thread_info), (2, t2, io_info),
       (3, t3, process_info), (4, e, debug_info), (5, e, kmgmt_info)]"
    "\<forall>i < 4096. table_entry t0 i = entry_of (base_calls sys_ue sys_gsi) i"
    "\<forall>i < 4096. table_entry t2 i = entry_of [(1, IOWrite)] i"
    "\<forall>i < 4096. table_entry t3 i = entry_of process_calls i"
    "\<forall>i < 4096. table_entry e i = entry_of [] i"
proof (rule default_tables [OF assms])
  fix t0 t2 t3 e
  assume t: "base_syscalls sys_ue sys_gsi = Ret t0" "io_syscalls = Ret t2"
    "process_syscalls = Ret t3" "thread_syscalls = Ret e" "debug_syscalls = Ret e"
    "kmgmt_syscalls = Ret e" "length t0 = 4096" "length t2 = 4096" "length t3 = 4096"
    "length e = 4096"
    and entries: "\<forall>i < 4096. table_entry t0 i = entry_of (base_calls sys_ue sys_gsi) i"
    "\<forall>i < 4096. table_entry t2 i = entry_of [(1, IOWrite)] i"
    "\<forall>i < 4096. table_entry t3 i = entry_of process_calls i"
    "\<forall>i < 4096. table_entry e i = entry_of [] i"
  let ?slots = "[(0, t0, base_info), (1, e, thread_info), (2, t2, io_info),
    (3, t3, process_info), (4, e, debug_info), (5, e, kmgmt_info)]"
  obtain r where "boot_subsystems sys_ue sys_gsi = Ret r" "registry_ok r"
    "subsys_slot r = map_of ?slots"
    using subsystems.put_all [OF registry_init_ok, of ?slots] t
      boot_as_fold [OF t(1,4,2,3,5,6)]
    by (auto simp: case_prod_unfold)
  then show thesis using entries by (rule that)
qed

lemma boot_names:
  assumes "registry_ok r"
    and "subsys_slot r = map_of [(0, t0, base_info), (1, e, thread_info), (2, t2, io_info),
      (3, t3, process_info), (4, e, debug_info), (5, e, kmgmt_info)]"
  shows "map (\<lambda>(n, i). (n, si_name i)) (all_subsystems r) =
    [(0, ''base''), (1, ''thread''), (2, ''io''), (3, ''process''), (4, ''debug''), (5, ''kmgmt'')]"
  unfolding all_subsystems_slots [OF assms(1)] assms(2)
  by (simp add: upt_rec [of _ 64] List.map_filter_def base_info_def thread_info_def io_info_def
      process_info_def debug_info_def kmgmt_info_def)

lemma boot_entry:
  assumes "sys_ue < 4096" and "sys_gsi < 4096" and "sys_ue \<noteq> sys_gsi" and "m < 4096"
    and "\<forall>i < 4096. table_entry t0 i = entry_of (base_calls sys_ue sys_gsi) i"
    "\<forall>i < 4096. table_entry t2 i = entry_of [(1, IOWrite)] i"
    "\<forall>i < 4096. table_entry t3 i = entry_of process_calls i"
    "\<forall>i < 4096. table_entry e i = entry_of [] i"
  shows "(case map_of [(0, t0, base_info), (1, e, thread_info), (2, t2, io_info),
      (3, t3, process_info), (4, e, debug_info), (5, e, kmgmt_info)] q of
        None \<Rightarrow> Unsupported | Some (t, _) \<Rightarrow> table_entry t m)
    = entry_of (boot_calls sys_ue sys_gsi) (4096 * q + m)"
proof -
  have "q = 0 \<or> q = 1 \<or> q = 2 \<or> q = 3 \<or> q = 4 \<or> q = 5 \<or> q > 5" by arith
  then show ?thesis
    using assms
    by (elim disjE)
       (simp_all add: entry_of_def boot_calls_def base_calls_def process_calls_def)
qed

text \<open>
  C18. Start-up succeeds and installs exactly the eight implemented system calls: a number
  reaches a handler if and only if it is one of them, every other 64-bit number (including those
  of subsystem 64 and above) is reported unsupported. The registry then lists the six default
  subsystems in order.
\<close>

theorem boot_dispatch:
  assumes "sys_ue < 4096" and "sys_gsi < 4096" and "sys_ue \<noteq> sys_gsi"
  shows "\<exists>r. boot_subsystems sys_ue sys_gsi = Ret r \<and>
    (\<forall>rax. handle_syscall r rax = entry_of (boot_calls sys_ue sys_gsi) (unat rax)) \<and>
    map (\<lambda>(n, i). (n, si_name i)) (all_subsystems r) =
      [(0, ''base''), (1, ''thread''), (2, ''io''), (3, ''process''), (4, ''debug''), (5, ''kmgmt'')]"
proof (rule boot_slots [OF assms])
  fix r t0 t2 t3 e
  assume r: "boot_subsystems sys_ue sys_gsi = Ret r" "registry_ok r"
    "subsys_slot r = map_of [(0, t0, base_info), (1, e, thread_info), (2, t2, io_info),
       (3, t3, process_info), (4, e, debug_info), (5, e, kmgmt_info)]"
    and entries: "\<forall>i < 4096. table_entry t0 i = entry_of (base_calls sys_ue sys_gsi) i"
    "\<forall>i < 4096. table_entry t2 i = entry_of [(1, IOWrite)] i"
    "\<forall>i < 4096. table_entry t3 i = entry_of process_calls i"
    "\<forall>i < 4096. table_entry e i = entry_of [] i"
  have dispatch: "handle_syscall r rax = entry_of (boot_calls sys_ue sys_gsi) (unat rax)" for rax
    using boot_entry [OF assms _ entries, of "unat rax mod 4096" "unat rax div 4096"]
    unfolding handle_syscall_slot [OF r(2)] r(3) by simp
  show ?thesis
    by (rule exI [of _ r], intro conjI allI, rule r(1), rule dispatch, rule boot_names [OF r(2,3)])
qed

theorem boot_dispatch_witness:
  "\<exists>r. boot_subsystems 0x40 0x01 = Ret r \<and>
    (\<forall>rax. handle_syscall r rax = entry_of (boot_calls 0x40 0x01) (unat rax)) \<and>
    map (\<lambda>(n, i). (n, si_name i)) (all_subsystems r) =
      [(0, ''base''), (1, ''thread''), (2, ''io''), (3, ''process''), (4, ''debug''), (5, ''kmgmt'')]"
  by (rule boot_dispatch) simp_all

section \<open>Dynamic subsystem numbers\<close>

abbreviation register_dyn :: "'f option list \<times> subsys_info \<Rightarrow> 'f registry \<Rightarrow> 'f registry run" where
  "register_dyn ti r \<equiv> register_subsys (NOT 0) (fst ti) (snd ti) r"

lemma register_dyn_step:
  assumes "registry_ok r" and "next_dyn_subsys r = word_of_nat n" and "n < 64" and "length t = 4096"
  shows "\<exists>r'. register_dyn (t, info) r = Ret r' \<and> registry_ok r' \<and>
    subsys_slot r' = (subsys_slot r)(n \<mapsto> (t, info)) \<and> next_dyn_subsys r' = word_of_nat (Suc n)"
proof -
  have "unat (word_of_nat n :: usize) = n"
    using assms(3) by (simp add: unat_of_nat take_bit_eq_mod)
  with assms show ?thesis
    by (auto simp: register_subsys_def registry_ok_def subsys_slot_def fun_eq_iff nth_list_update
        Let_def)
qed

lemma register_dyn_all:
  "length tis \<le> 56 \<Longrightarrow> list_all (\<lambda>(t, i). length t = 4096) tis \<Longrightarrow>
   \<exists>r. fold_run register_dyn tis registry_init = Ret r \<and> registry_ok r \<and>
     next_dyn_subsys r = word_of_nat (8 + length tis) \<and>
     (\<forall>j < length tis. subsys_slot r (8 + j) = Some (tis ! j))"
proof (induction tis rule: rev_induct)
  case Nil
  then show ?case by (auto simp: registry_init_ok) (simp add: registry_init_def)
next
  case (snoc ti tis)
  from snoc obtain r where r: "fold_run register_dyn tis registry_init = Ret r" "registry_ok r"
    "next_dyn_subsys r = word_of_nat (8 + length tis)"
    "\<forall>j < length tis. subsys_slot r (8 + j) = Some (tis ! j)" by auto
  obtain t info where ti: "ti = (t, info)" by fastforce
  from register_dyn_step [OF r(2,3), of t info] snoc.prems ti obtain r' where
    "register_dyn ti r = Ret r'" "registry_ok r'"
    "subsys_slot r' = (subsys_slot r)(8 + length tis \<mapsto> (t, info))"
    "next_dyn_subsys r' = word_of_nat (Suc (8 + length tis))" by auto
  with r ti show ?case by (auto simp: fold_run_append nth_append)
qed

text \<open>
  Subsystems registered without a fixed number get the slots 8 to 63 in the order of
  registration, and nothing is lost: each slot holds what was registered. A 57th such
  registration panics and never overwrites a slot.
\<close>

theorem dynamic_subsystems:
  assumes "list_all (\<lambda>(t, i). length t = 4096) tis" and "length tis = 56"
    and "length t = 4096"
  shows "\<exists>r. fold_run register_dyn tis registry_init = Ret r \<and>
      (\<forall>j < 56. subsys_slot r (8 + j) = Some (tis ! j)) \<and>
    fold_run register_dyn (tis @ [(t, info)]) registry_init = Panic"
proof -
  from register_dyn_all [of tis] assms obtain r where r:
    "fold_run register_dyn tis registry_init = Ret r" "registry_ok r"
    "next_dyn_subsys r = word_of_nat 64" "\<forall>j < 56. subsys_slot r (8 + j) = Some (tis ! j)" by auto
  moreover have "register_dyn (t, info) r = Panic"
    using r(2,3) by (simp add: register_subsys_def registry_ok_def run_simps)
  ultimately show ?thesis by (auto simp: fold_run_append)
qed

theorem dynamic_subsystems_witness:
  "\<exists>r. fold_run register_dyn (replicate 56 (empty_table, io_info)) registry_init = Ret r \<and>
      (\<forall>j < 56. subsys_slot r (8 + j) = Some (replicate 56 (empty_table, io_info) ! j)) \<and>
    fold_run register_dyn (replicate 56 (empty_table, io_info) @ [(empty_table, io_info)])
      registry_init = Panic"
  by (rule dynamic_subsystems) (simp_all add: empty_table_def list_all_length)

section \<open>From the trapped instruction to the handler\<close>

text \<open>
  After start-up a \<open>syscall\<close> instruction trapped by \<open>SIGSYS\<close> runs exactly the handler its
  number names, with the arguments in the order of the C calling convention (the fourth taken
  from \<open>r10\<close>), and of the saved registers only \<open>rax\<close> changes: to the handler's result, or to
  the unsupported-function error.
\<close>

theorem trapped_syscall:
  assumes "sys_ue < 4096" and "sys_gsi < 4096" and "sys_ue \<noteq> sys_gsi" and "length gregs = NGREGS"
  shows "\<exists>r out. boot_subsystems sys_ue sys_gsi = Ret r \<and>
    out = invoke_syscall_uctx run unsupported r gregs \<and>
    (\<forall>i < NGREGS. i \<noteq> REG_RAX \<longrightarrow> out ! i = gregs ! i) \<and>
    out ! REG_RAX =
      (case map_of (boot_calls sys_ue sys_gsi) (unat (gregs ! 13)) of
         Some f \<Rightarrow> run f [gregs ! 8, gregs ! 9, gregs ! 12, gregs ! 2, gregs ! 0, gregs ! 1]
       | None \<Rightarrow> unsupported)"
proof (rule boot_slots [OF assms(1-3)])
  fix r t0 t2 t3 e
  assume r: "boot_subsystems sys_ue sys_gsi = Ret r" "registry_ok r"
    "subsys_slot r = map_of [(0, t0, base_info), (1, e, thread_info), (2, t2, io_info),
       (3, t3, process_info), (4, e, debug_info), (5, e, kmgmt_info)]"
    and entries: "\<forall>i < 4096. table_entry t0 i = entry_of (base_calls sys_ue sys_gsi) i"
    "\<forall>i < 4096. table_entry t2 i = entry_of [(1, IOWrite)] i"
    "\<forall>i < 4096. table_entry t3 i = entry_of process_calls i"
    "\<forall>i < 4096. table_entry e i = entry_of [] i"
  have "handle_syscall r (gregs ! 13) = entry_of (boot_calls sys_ue sys_gsi) (unat (gregs ! 13))"
    using boot_entry [OF assms(1-3) _ entries, of "unat (gregs ! 13) mod 4096"
        "unat (gregs ! 13) div 4096"]
    unfolding handle_syscall_slot [OF r(2)] r(3) by simp
  with r(1) assms(4) show ?thesis
    by (auto simp: invoke_syscall_uctx_def reg_defs entry_of_def Let_def split: option.splits)
qed

theorem trapped_syscall_witness:
  "\<exists>r out. boot_subsystems 0x40 0x01 = Ret r \<and>
    out = invoke_syscall_uctx (\<lambda>f args. args ! 3) 7 r (map word_of_nat [0x2000 - 12..<0x2000 + 7]) \<and>
    (\<forall>i < NGREGS. i \<noteq> REG_RAX \<longrightarrow>
       out ! i = map word_of_nat [0x2000 - 12..<0x2000 + 7] ! i) \<and>
    out ! REG_RAX =
      (case map_of (boot_calls 0x40 0x01)
          (unat (map word_of_nat [0x2000 - 12..<0x2000 + 7] ! 13 :: u64)) of
         Some f \<Rightarrow> [map word_of_nat [0x2000 - 12..<0x2000 + 7] ! 8,
           map word_of_nat [0x2000 - 12..<0x2000 + 7] ! 9,
           map word_of_nat [0x2000 - 12..<0x2000 + 7] ! 12,
           map word_of_nat [0x2000 - 12..<0x2000 + 7] ! 2,
           map word_of_nat [0x2000 - 12..<0x2000 + 7] ! 0,
           map word_of_nat [0x2000 - 12..<0x2000 + 7] ! 1] ! 3
       | None \<Rightarrow> 7)"
  by (rule trapped_syscall) (simp_all add: NGREGS_def)

end
