(* ===== verification/WL_Errors.thy ===== *)
theory WL_Errors
  imports WL_Prelude
begin

text \<open>
  Error and signal values that cross component boundaries: the translation of Linux error numbers
  (\<open>wl-impl/src/helpers.rs\<close>), the encoding of results into the return register
  (\<open>wl-impl/src/syscall_helpers.rs\<close>), the exception a signal stands for
  (\<open>wl-impl/src/catch_signals.rs\<close>) and the names of exceptions
  (\<open>wl-impl/src/helpers/strexcept.rs\<close>). Error numbers and signal numbers occur in the code only
  as distinct match patterns, so the named ones are constructors.
\<close>

datatype errno =
    EINTR | EPERM | ENOMEM | EINVAL | EFAULT | ENOSYS | ENOENT | ENODEV | EMFILE | ENFILE
  | EDQUOT | EBADF | EACCES | ENODATA | OtherErrno nat

datatype sys_error =
    Interrupted | Permission | InsufficientMemory | InvalidOperation | InvalidMemory
  | UnsupportedKernelFunction | DoesNotExist | ResourceLimitExhausted | InvalidHandle
  | InvalidOption | InsufficientLength | UnsupportedOperation | InvalidString | UnknownDevice
  | ErrorCode int

fun linux_error_to_lilium :: "errno \<Rightarrow> sys_error" where
  "linux_error_to_lilium EINTR = Interrupted"
| "linux_error_to_lilium EPERM = Permission"
| "linux_error_to_lilium ENOMEM = InsufficientMemory"
| "linux_error_to_lilium EINVAL = InvalidOperation"
| "linux_error_to_lilium EFAULT = InvalidMemory"
| "linux_error_to_lilium ENOSYS = UnsupportedKernelFunction"
| "linux_error_to_lilium ENOENT = DoesNotExist"
| "linux_error_to_lilium ENODEV = DoesNotExist"
| "linux_error_to_lilium EMFILE = ResourceLimitExhausted"
| "linux_error_to_lilium ENFILE = ResourceLimitExhausted"
| "linux_error_to_lilium EDQUOT = ResourceLimitExhausted"
| "linux_error_to_lilium EBADF = InvalidHandle"
| "linux_error_to_lilium _ = ErrorCode (- 0x800)"

section \<open>Return values of system calls\<close>

text \<open>\<open>into_code\<close> is \<open>Error::into_code\<close> of \<open>lilium_sys\<close>; the register is 64 bits wide.\<close>

fun into_sys_unit :: "(sys_error \<Rightarrow> u64) \<Rightarrow> sys_error + unit \<Rightarrow> u64" where
  "into_sys_unit into_code (Inr ()) = 0"
| "into_sys_unit into_code (Inl e) = into_code e"

fun into_sys_usize :: "(sys_error \<Rightarrow> u64) \<Rightarrow> sys_error + usize \<Rightarrow> u64" where
  "into_sys_usize into_code (Inr val) = val"
| "into_sys_usize into_code (Inl e) = into_code e"

section \<open>Signals and exceptions\<close>

type_synonym exception_id = string

datatype signal =
    SIGABRT | SIGBUS | SIGSEGV | SIGILL | SIGFPE | SIGKILL | SIGINT | SIGTRAP | SIGQUIT
  | SIGSYS | SIGCHLD | OtherSignal nat

fun sig_to_except :: "signal \<Rightarrow> exception_id option" where
  "sig_to_except SIGABRT = Some ''466fbae6-be8b-5525-bd04-ee7153b74f55''"
| "sig_to_except SIGBUS = Some ''ef1d81bc-58d9-5779-a4c7-540b9163cdf1''"
| "sig_to_except SIGSEGV = Some ''fcf8d451-89e6-50b5-b2e6-396aec58a74a''"
| "sig_to_except SIGILL = Some ''9dc46cba-85a4-5b94-be24-03717a40c72b''"
| "sig_to_except SIGFPE = Some ''5c91c672-f971-5b6b-a806-d6a6d2c8eb8a''"
| "sig_to_except SIGKILL = Some ''f2520097-7a84-54f6-baf6-380242841fe9''"
| "sig_to_except SIGINT = Some ''255f142a-31da-53d6-8667-a69cd7c2ab12''"
| "sig_to_except SIGTRAP = Some ''df1ddb62-49c5-560f-86ab-1910471570b1''"
| "sig_to_except SIGQUIT = None"
| "sig_to_except _ = Some ''79a90b8e-8f4b-5134-8aa2-ff68877017db''"

datatype str_except = Named string | UnknownExcept exception_id

definition strexcept :: "exception_id \<Rightarrow> str_except" where
  "strexcept u =
     (if u = ''05e3080f-ded6-54a7-acfd-afec3d7e93cb''
        then Named ''Emulation Error (winter-lily Interal Error)''
      else if u = ''4c0c6658-59ae-5675-90c3-ffcc0a7219ad''
        then Named ''Uncaught Runtime Exception''
      else if u = ''466fbae6-be8b-5525-bd04-ee7153b74f55'' then Named ''Aborted''
      else if u = ''fcf8d451-89e6-50b5-b2e6-396aec58a74a'' then Named ''Memory Access Violation''
      else if u = ''ef1d81bc-58d9-5779-a4c7-540b9163cdf1'' then Named ''Memory Access Error''
      else if u = ''f2520097-7a84-54f6-baf6-380242841fe9'' then Named ''Killed (Kernel)''
      else if u = ''79a90b8e-8f4b-5134-8aa2-ff68877017db'' then Named ''Killed (Remote Process)''
      else if u = ''255f142a-31da-53d6-8667-a69cd7c2ab12'' then Named ''User Interrupt''
      else if u = ''df1ddb62-49c5-560f-86ab-1910471570b1'' then Named ''Breakpoint Trap''
      else if u = ''9dc46cba-85a4-5b94-be24-03717a40c72b'' then Named ''Illegal Instruction''
      else if u = ''5c91c672-f971-5b6b-a806-d6a6d2c8eb8a'' then Named ''Floating-point Exception''
      else UnknownExcept u)"

text \<open>
  The end of a thread's run as a handler sees it: it returns, or the process is ended with the
  exception the handler reported (\<open>exit_unrecoverably\<close>, which never returns).
\<close>

datatype 'a outcome = Returned 'a | Killed "exception_id option"

fun outcome_bind :: "'a outcome \<Rightarrow> ('a \<Rightarrow> 'b outcome) \<Rightarrow> 'b outcome" where
  "outcome_bind (Returned a) f = f a"
| "outcome_bind (Killed e) f = Killed e"

lemma outcome_bind_Returned:
  "outcome_bind m f = Returned b \<longleftrightarrow> (\<exists>a. m = Returned a \<and> f a = Returned b)"
  by (cases m) auto

datatype handler_action = HandleSyscall | Ignore | ExitWith "exception_id option"

fun sa_handler_seh_impl :: "signal \<Rightarrow> handler_action" where
  "sa_handler_seh_impl SIGSYS = HandleSyscall"
| "sa_handler_seh_impl SIGCHLD = Ignore"
| "sa_handler_seh_impl s = ExitWith (sig_to_except s)"

lemma strexcept_sig:
  "map_option strexcept (sig_to_except s) =
     (case s of
        SIGABRT \<Rightarrow> Some (Named ''Aborted'')
      | SIGBUS \<Rightarrow> Some (Named ''Memory Access Error'')
      | SIGSEGV \<Rightarrow> Some (Named ''Memory Access Violation'')
      | SIGILL \<Rightarrow> Some (Named ''Illegal Instruction'')
      | SIGFPE \<Rightarrow> Some (Named ''Floating-point Exception'')
      | SIGKILL \<Rightarrow> Some (Named ''Killed (Kernel)'')
      | SIGINT \<Rightarrow> Some (Named ''User Interrupt'')
      | SIGTRAP \<Rightarrow> Some (Named ''Breakpoint Trap'')
      | SIGQUIT \<Rightarrow> None
      | _ \<Rightarrow> Some (Named ''Killed (Remote Process)''))"
  by (cases s) (simp_all add: strexcept_def)

text \<open>
  The process ends without a reported exception only on \<open>SIGQUIT\<close>; every other signal the
  handler does not consume is reported under a name of its own kind, so that signals reported
  under the same name are the same signal or are both reported as a stop by another process.
\<close>

theorem signal_exceptions_named:
  "(sa_handler_seh_impl s = ExitWith None \<longleftrightarrow> s = SIGQUIT) \<and>
   (\<forall>e. sa_handler_seh_impl s = ExitWith (Some e) \<longrightarrow>
      (\<exists>n. strexcept e = Named n \<and>
        (\<forall>t e'. sa_handler_seh_impl t = ExitWith (Some e') \<longrightarrow> strexcept e' = Named n \<longrightarrow>
           t = s \<or> n = ''Killed (Remote Process)'')))"
proof -
  have exit: "\<exists>n. map_option strexcept (sig_to_except s) = Some (Named n) \<and> strexcept e = Named n"
    if "sa_handler_seh_impl s = ExitWith (Some e)" for s e
    using that by (cases s) (simp_all add: strexcept_def)
  have uniq: "t = s \<or> n = ''Killed (Remote Process)''"
    if "map_option strexcept (sig_to_except s) = Some (Named n)"
      "map_option strexcept (sig_to_except t) = Some (Named n)" for s t n
    using that unfolding strexcept_sig by (auto split: signal.splits)
  have "sa_handler_seh_impl s = ExitWith None \<longleftrightarrow> s = SIGQUIT" by (cases s) simp_all
  moreover have "\<exists>n. strexcept e = Named n \<and>
      (\<forall>t e'. sa_handler_seh_impl t = ExitWith (Some e') \<longrightarrow> strexcept e' = Named n \<longrightarrow>
         t = s \<or> n = ''Killed (Remote Process)'')"
    if e: "sa_handler_seh_impl s = ExitWith (Some e)" for e
    using exit [OF e] exit uniq by fastforce
  ultimately show ?thesis by blast
qed

theorem signal_exceptions_named_witness:
  "\<exists>n. strexcept ''fcf8d451-89e6-50b5-b2e6-396aec58a74a'' = Named n \<and>
     (strexcept ''ef1d81bc-58d9-5779-a4c7-540b9163cdf1'' \<noteq> Named n \<or> n = ''Killed (Remote Process)'')"
proof -
  have s: "sa_handler_seh_impl SIGSEGV = ExitWith (Some ''fcf8d451-89e6-50b5-b2e6-396aec58a74a'')"
    "sa_handler_seh_impl SIGBUS = ExitWith (Some ''ef1d81bc-58d9-5779-a4c7-540b9163cdf1'')"
    by (simp_all only: sa_handler_seh_impl.simps sig_to_except.simps)
  with signal_exceptions_named [of SIGSEGV] show ?thesis by (metis signal.distinct)
qed

end
