(* ===== verification/WL_Memory.thy ===== *)
theory WL_Memory
  imports WL_Errors
begin

text \<open>
  Checked access to the memory of the emulated program (\<open>wl-impl/src/helpers.rs\<close>): the copy
  routine \<open>__memcpy_explicit\<close> (\<open>wl-impl/src/libc/libc_defs.rs\<close>), instruction by instruction, the
  recovery from a fault inside it (\<open>wl-impl/c/signal_support/x86_64.c\<close>), the checked copy, read,
  write and probe on top of it, and the filling of a caller's string buffer. Memory is a byte per
  address with the addresses that can be read and written; the machine's stack slots used for
  locals are addresses the caller of each operation supplies.
\<close>

section \<open>Memory and the copy routine\<close>

record mem =
  mbyte :: "u64 \<Rightarrow> u8"
  readable :: "u64 \<Rightarrow> bool"
  writable :: "u64 \<Rightarrow> bool"

text \<open>The addresses \<open>a, \<dots>, a + n - 1\<close>, and the first of them an access may not touch.\<close>

definition span :: "u64 \<Rightarrow> nat \<Rightarrow> u64 list" where
  "span a n = map (\<lambda>i. a + of_nat i) [0..<n]"

definition first_fault :: "(u64 \<Rightarrow> bool) \<Rightarrow> u64 \<Rightarrow> nat \<Rightarrow> u64 option" where
  "first_fault P a n = List.find (\<lambda>x. \<not> P x) (span a n)"

definition bytes_at :: "mem \<Rightarrow> u64 \<Rightarrow> nat \<Rightarrow> bytes" where
  "bytes_at m a n = map (mbyte m) (span a n)"

definition put_bytes :: "mem \<Rightarrow> u64 \<Rightarrow> bytes \<Rightarrow> mem" where
  "put_bytes m a bs =
     m\<lparr>mbyte := \<lambda>x. if unat (x - a) < length bs then bs ! unat (x - a) else mbyte m x\<rparr>"

record cpu =
  rdi :: u64
  rsi :: u64
  rdx :: u64
  cmem :: mem

text \<open>
  One load from \<open>[rsi]\<close>, store to \<open>[rdi]\<close> and advance, \<open>n\<close> bytes wide. A fault carries its
  address and the memory at that moment.
\<close>

definition move_n :: "nat \<Rightarrow> cpu \<Rightarrow> (u64 \<times> mem) + cpu" where
  "move_n n c =
     (case first_fault (readable (cmem c)) (rsi c) n of
        Some f \<Rightarrow> Inl (f, cmem c)
      | None \<Rightarrow>
          (case first_fault (writable (cmem c)) (rdi c) n of
             Some f \<Rightarrow> Inl (f, cmem c)
           | None \<Rightarrow> Inr (c\<lparr>cmem := put_bytes (cmem c) (rdi c) (bytes_at (cmem c) (rsi c) n),
                            rdi := rdi c + of_nat n, rsi := rsi c + of_nat n,
                            rdx := rdx c - of_nat n\<rparr>)))"

lemma move_n_rdx: "move_n n c = Inr c' \<Longrightarrow> rdx c' = rdx c - of_nat n"
  by (auto simp: move_n_def split: option.splits)

text \<open>
  The 16-byte loop between the labels \<open>2\<close> and \<open>3\<close>. It is entered with more than 16 bytes to go,
  so testing before the body visits the same states as the source's test after it.
\<close>

function copy16_loop :: "cpu \<Rightarrow> (u64 \<times> mem) + cpu" where
  "copy16_loop c =
     (if 16 \<le> rdx c
      then (case move_n 16 c of Inl f \<Rightarrow> Inl f | Inr c' \<Rightarrow> copy16_loop c')
      else Inr c)"
  by pat_completeness auto

termination
  by (relation "measure (\<lambda>c. unat (rdx c))")
    (auto dest!: move_n_rdx simp: unat_sub word_le_nat_alt)

declare copy16_loop.simps [simp del]

definition memcpy_explicit :: "cpu \<Rightarrow> (u64 \<times> mem) + cpu" where
  "memcpy_explicit c =
     and_then (if rdx c \<le> 16 then Inr c else copy16_loop c) (\<lambda>c.
     and_then (if rdx c \<le> 8 then Inr c else move_n 8 c) (\<lambda>c.
     and_then (if rdx c < 4 then Inr c else move_n 4 c) (\<lambda>c.
     and_then (if rdx c < 2 then Inr c else move_n 2 c) (\<lambda>c.
       if rdx c < 1 then Inr c else move_n 1 c))))"

section \<open>Recovery from a fault\<close>

datatype trap_result = LongJmp u64 | Seh handler_action

definition sa_handler_impl :: "u64 option \<Rightarrow> signal \<Rightarrow> u64 \<Rightarrow> trap_result" where
  "sa_handler_impl retbuf sig addr =
     (if sig = SIGSEGV \<or> sig = SIGBUS
      then (case retbuf of Some _ \<Rightarrow> LongJmp addr | None \<Rightarrow> Seh (sa_handler_seh_impl sig))
      else Seh (sa_handler_seh_impl sig))"

datatype access_type = Read | Write | Overlap

record access_error =
  err_ptr :: u64
  access_ty :: access_type

text \<open>
  A checked access returns an error or a value together with the memory it leaves, or the process
  ends.
\<close>

type_synonym 'a checked = "((access_error + 'a) \<times> mem) outcome"

fun checked_bind :: "'a checked \<Rightarrow> ('a \<Rightarrow> mem \<Rightarrow> 'b checked) \<Rightarrow> 'b checked" where
  "checked_bind (Returned (Inr a, m)) f = f a m"
| "checked_bind (Returned (Inl e, m)) f = Returned (Inl e, m)"
| "checked_bind (Killed e) f = Killed e"

text \<open>
  The error record is zeroed by the caller and the handler fills in its address only, so its kind
  is \<open>Read\<close> (0). The pointer stored in \<open>CHECKED_ACCESS_RETBUF\<close> before the copy is \<open>NULL\<close>.
  A fault is delivered as \<open>SIGSEGV\<close>, whose handler never takes the last branch.
\<close>

definition checked_memcpy_impl :: "u64 \<Rightarrow> u64 \<Rightarrow> u64 \<Rightarrow> mem \<Rightarrow> unit checked" where
  "checked_memcpy_impl dest src len m =
     (let retbuf = None in
      case memcpy_explicit \<lparr>rdi = dest, rsi = src, rdx = len, cmem = m\<rparr> of
        Inr c \<Rightarrow> Returned (Inr (), cmem c)
      | Inl (f, m') \<Rightarrow>
          (case sa_handler_impl retbuf SIGSEGV f of
             LongJmp a \<Rightarrow> Returned (Inl \<lparr>err_ptr = a, access_ty = Read\<rparr>, m')
           | Seh (ExitWith e) \<Rightarrow> Killed e
           | Seh _ \<Rightarrow> Killed None))"

section \<open>Checked operations\<close>

definition in_range :: "u64 \<Rightarrow> u64 \<Rightarrow> u64 \<Rightarrow> bool" where
  "in_range lo hi a \<longleftrightarrow> lo \<le> a \<and> a < hi"

text \<open>\<open>sz\<close> is \<open>size_of::<T>()\<close>.\<close>

definition copy_nonoverlapping_checked ::
    "u64 \<Rightarrow> u64 \<Rightarrow> u64 \<Rightarrow> u64 \<Rightarrow> mem \<Rightarrow> unit checked" where
  "copy_nonoverlapping_checked sz src dest elems m =
     (if in_range src (src + elems * sz) dest
      then Returned (Inl \<lparr>err_ptr = dest, access_ty = Overlap\<rparr>, m)
      else if in_range dest (dest + elems * sz) src
      then Returned (Inl \<lparr>err_ptr = src, access_ty = Overlap\<rparr>, m)
      else checked_memcpy_impl dest src (elems * sz) m)"

text \<open>\<open>tmp\<close> is the address of the local the value is read into or written from.\<close>

definition read_checked :: "u64 \<Rightarrow> u64 \<Rightarrow> u64 \<Rightarrow> mem \<Rightarrow> bytes checked" where
  "read_checked sz tmp src m =
     checked_bind (copy_nonoverlapping_checked sz src tmp 1 m)
       (\<lambda>_ m'. Returned (Inr (bytes_at m' tmp (unat sz)), m'))"

definition write_checked :: "u64 \<Rightarrow> u64 \<Rightarrow> u64 \<Rightarrow> bytes \<Rightarrow> mem \<Rightarrow> unit checked" where
  "write_checked sz tmp dest val m =
     copy_nonoverlapping_checked sz tmp dest 1 (put_bytes m tmp val)"

definition probe_one :: "bool \<Rightarrow> u64 \<Rightarrow> u64 \<Rightarrow> mem \<Rightarrow> unit checked" where
  "probe_one writeback tmp ptr m =
     checked_bind (read_checked 1 tmp ptr m)
       (\<lambda>b m'. if writeback then write_checked 1 tmp ptr b m' else Returned (Inr (), m'))"

text \<open>The loop \<open>for i in i..n\<close>, with the number of iterations left as its first argument.\<close>

fun probe_loop :: "nat \<Rightarrow> u64 \<Rightarrow> bool \<Rightarrow> u64 \<Rightarrow> u64 \<Rightarrow> mem \<Rightarrow> unit checked" where
  "probe_loop 0 i writeback tmp ptr m = Returned (Inr (), m)"
| "probe_loop (Suc k) i writeback tmp ptr m =
     checked_bind (probe_one writeback tmp ptr m)
       (\<lambda>_ m'. probe_loop k (i + 1) writeback tmp (ptr + i * 4096) m')"

definition probe_checked :: "bool \<Rightarrow> u64 \<Rightarrow> u64 \<Rightarrow> u64 \<Rightarrow> u64 \<Rightarrow> mem \<Rightarrow> unit checked" where
  "probe_checked writeback sz tmp src count m =
     (if count = 0 then Returned (Inr (), m)
      else let size = sz * count in
        checked_bind (probe_loop (unat ((4095 + size) div 4096)) 0 writeback tmp src m)
          (\<lambda>_ m'. probe_one writeback tmp (src + count * sz - sz) m'))"

text \<open>\<open>From<CheckedAccessError> for SysError\<close>, and the filling of a \<open>KStrPtr\<close>.\<close>

definition access_to_sys_error :: "access_error \<Rightarrow> sys_error" where
  "access_to_sys_error e = InvalidMemory"

record kstr_ptr =
  kstr_ptr :: u64
  kstr_len :: usize

definition fill_str ::
    "kstr_ptr \<Rightarrow> u64 \<Rightarrow> usize \<Rightarrow> mem \<Rightarrow> ((sys_error + unit) \<times> kstr_ptr \<times> mem) outcome" where
  "fill_str kstr st_ptr st_len m =
     (let len = min (kstr_len kstr) st_len in
      case copy_nonoverlapping_checked 1 st_ptr (kstr_ptr kstr) len m of
        Killed e \<Rightarrow> Killed e
      | Returned (Inl e, m') \<Rightarrow> Returned (Inl (access_to_sys_error e), kstr, m')
      | Returned (Inr (), m') \<Rightarrow>
          Returned (if kstr_len kstr < st_len then Inl InsufficientLength else Inr (),
                    kstr\<lparr>kstr_len := st_len\<rparr>, m'))"

section \<open>What the copy routine copies\<close>

text \<open>
  \<open>copied m d s k\<close> is \<open>m\<close> with the \<open>k\<close> bytes from \<open>s\<close> on copied to \<open>d\<close>; \<open>apart d s n\<close> says that
  the two ranges of \<open>n\<close> bytes share no address, \<open>accessible m d s n\<close> that the one may be read
  and the other written. \<open>copied_len\<close> is the number of bytes the routine moves.
\<close>

definition copied :: "mem \<Rightarrow> u64 \<Rightarrow> u64 \<Rightarrow> nat \<Rightarrow> mem" where
  "copied m d s k =
     m\<lparr>mbyte := \<lambda>x. if unat (x - d) < k then mbyte m (s + (x - d)) else mbyte m x\<rparr>"

definition apart :: "u64 \<Rightarrow> u64 \<Rightarrow> nat \<Rightarrow> bool" where
  "apart d s n \<longleftrightarrow> set (span d n) \<inter> set (span s n) = {}"

definition accessible :: "mem \<Rightarrow> u64 \<Rightarrow> u64 \<Rightarrow> nat \<Rightarrow> bool" where
  "accessible m d s n \<longleftrightarrow> list_all (readable m) (span s n) \<and> list_all (writable m) (span d n)"

definition copied_len :: "nat \<Rightarrow> nat" where
  "copied_len n = (if n = 16 \<or> n mod 16 = 8 then n - 1 else n)"

lemma set_span: "set (span a n) = {x. \<exists>i < n. x = a + of_nat i}"
  by (auto simp: span_def)

lemma span_add: "span (a + of_nat i) n = map (\<lambda>j. a + of_nat j) [i..<i + n]"
proof -
  have "[i..<i + n] = map (\<lambda>j. j + i) [0..<n]" by (simp add: map_add_upt add.commute)
  then show ?thesis by (simp add: span_def add.assoc add.left_commute comp_def add.commute)
qed

lemma mem_spanI: "i < n \<Longrightarrow> a + of_nat i \<in> set (span a n)"
  by (auto simp: set_span)

lemma first_fault_None: "first_fault P a n = None \<longleftrightarrow> list_all P (span a n)"
  by (auto simp: first_fault_def find_None_iff list_all_iff)

lemma length_bytes_at [simp]: "length (bytes_at m a n) = n"
  by (simp add: bytes_at_def span_def)

lemma nth_bytes_at: "i < n \<Longrightarrow> bytes_at m a n ! i = mbyte m (a + of_nat i)"
  by (simp add: bytes_at_def span_def)

lemma copied_fields [simp]:
  "readable (copied m d s k) = readable m" "writable (copied m d s k) = writable m"
  by (simp_all add: copied_def)

lemma copied_0 [simp]: "copied m d s 0 = m"
  by (simp add: copied_def)

lemma unat_offset:
  assumes "i + n < 2 ^ 64"
  shows "unat (x - (d + of_nat i :: u64)) < n \<longleftrightarrow> i \<le> unat (x - d) \<and> unat (x - d) < i + n"
proof -
  define y where "y = x - d"
  have i: "unat (of_nat i :: u64) = i" using assms by (simp add: unat_of_nat take_bit_eq_mod)
  have x: "x - (d + of_nat i) = y - of_nat i" by (simp add: y_def)
  have "unat (y - of_nat i) < n \<longleftrightarrow> i \<le> unat y \<and> unat y < i + n"
  proof (cases "of_nat i \<le> y")
    case True
    then show ?thesis using i by (auto simp: unat_sub word_le_nat_alt)
  next
    case False
    then have lt: "unat y < i" using i by (simp add: word_le_nat_alt)
    have "unat (y - of_nat i) = unat y + 2 ^ 64 - i"
      using lt i by (simp add: unat_sub_if' )
    then show ?thesis using lt assms by auto
  qed
  then show ?thesis by (simp add: x y_def)
qed

lemma copied_extend:
  assumes "apart d s len" "i + n \<le> len" "len < 2 ^ 64"
  shows "put_bytes (copied m d s i) (d + of_nat i)
           (bytes_at (copied m d s i) (s + of_nat i) n) = copied m d s (i + n)"
proof -
  have far: "\<not> unat (s + of_nat j - d) < i" if "j < len" for j
  proof
    assume l: "unat (s + of_nat j - d) < i"
    have "unat (s + of_nat j - d) < len" using l assms(2) by linarith
    from mem_spanI [OF this, of d] have "s + of_nat j \<in> set (span d len)" by simp
    moreover have "s + of_nat j \<in> set (span s len)" by (rule mem_spanI [OF that])
    ultimately show False using assms(1) unfolding apart_def by blast
  qed
  have byte: "bytes_at (copied m d s i) (s + of_nat i) n ! unat (x - (d + of_nat i)) =
      mbyte m (s + (x - d))" if "unat (x - (d + of_nat i)) < n" for x
  proof -
    have "s + of_nat i + of_nat (unat (x - (d + of_nat i))) = s + of_nat (i + unat (x - (d + of_nat i)))"
      by (simp add: algebra_simps)
    moreover have "s + of_nat (i + unat (x - (d + of_nat i))) = s + (x - d)"
      by (simp add: algebra_simps)
    moreover have "i + unat (x - (d + of_nat i)) < len" using that assms(2) by linarith
    ultimately show ?thesis
      using that far [of "i + unat (x - (d + of_nat i))"] by (simp add: nth_bytes_at copied_def)
  qed
  have "i + n < 2 ^ 64" using assms by linarith
  note off = unat_offset [OF this]
  have "mbyte (put_bytes (copied m d s i) (d + of_nat i)
          (bytes_at (copied m d s i) (s + of_nat i) n)) x = mbyte (copied m d s (i + n)) x" for x
  proof (cases "unat (x - (d + of_nat i)) < n")
    case True
    then have "unat (x - d) < i + n" using off by blast
    then show ?thesis using True byte [OF True] by (simp add: put_bytes_def copied_def)
  next
    case False
    then have "unat (x - d) < i + n \<longleftrightarrow> unat (x - d) < i" using off [of x d] by auto
    then show ?thesis using False by (simp add: put_bytes_def copied_def)
  qed
  then have "mbyte (put_bytes (copied m d s i) (d + of_nat i)
      (bytes_at (copied m d s i) (s + of_nat i) n)) = mbyte (copied m d s (i + n))" by blast
  then show ?thesis by (simp add: put_bytes_def copied_def)
qed

text \<open>The machine state after \<open>i\<close> of \<open>len\<close> bytes.\<close>

definition after :: "mem \<Rightarrow> u64 \<Rightarrow> u64 \<Rightarrow> u64 \<Rightarrow> nat \<Rightarrow> cpu" where
  "after m d s len i =
     \<lparr>rdi = d + of_nat i, rsi = s + of_nat i, rdx = len - of_nat i, cmem = copied m d s i\<rparr>"

lemma span_append: "span a (i + n) = span a i @ span (a + of_nat i) n"
  by (simp only: span_add) (simp add: span_def upt_add_eq_append [of 0 i n, simplified])

lemma accessible_append:
  "accessible m d s (i + n) \<longleftrightarrow> accessible m d s i \<and> accessible m (d + of_nat i) (s + of_nat i) n"
  by (auto simp: accessible_def span_append)

lemma accessible_mono: "accessible m d s n \<Longrightarrow> i \<le> n \<Longrightarrow> accessible m d s i"
  using accessible_append [of m d s i "n - i"] by simp

text \<open>
  \<open>reaches m d s len i r\<close>: the run \<open>r\<close> has moved \<open>i\<close> bytes if those can be accessed, and has
  faulted if they cannot.
\<close>

definition reaches :: "mem \<Rightarrow> u64 \<Rightarrow> u64 \<Rightarrow> u64 \<Rightarrow> nat \<Rightarrow> (u64 \<times> mem) + cpu \<Rightarrow> bool" where
  "reaches m d s len i r \<longleftrightarrow>
     (if accessible m d s i then r = Inr (after m d s len i) else (\<exists>f. r = Inl f))"

lemma unat_rdx_after: "i \<le> unat len \<Longrightarrow> unat (rdx (after m d s len i)) = unat len - i"
  by (simp add: after_def unat_sub word_le_nat_alt le_unat_uoi)

lemma move_n_reaches:
  assumes "apart d s (unat len)" "accessible m d s i" "i + n \<le> unat len"
  shows "reaches m d s len (i + n) (move_n n (after m d s len i))"
proof -
  have "unat len < 2 ^ 64" using unsigned_less [of len] by simp
  from copied_extend [OF assms(1,3) this, of m]
  have "move_n n (after m d s len i) = Inr (after m d s len (i + n))"
    if "accessible m (d + of_nat i) (s + of_nat i) n"
    using that first_fault_None [of "readable m" "s + of_nat i" n]
      first_fault_None [of "writable m" "d + of_nat i" n]
    by (simp add: move_n_def after_def accessible_def algebra_simps)
  moreover have "\<exists>f. move_n n (after m d s len i) = Inl f"
    if "\<not> accessible m (d + of_nat i) (s + of_nat i) n"
    using that first_fault_None [of "readable m" "s + of_nat i" n]
      first_fault_None [of "writable m" "d + of_nat i" n]
    by (auto simp: move_n_def after_def accessible_def split: option.splits)
  ultimately show ?thesis
    unfolding reaches_def accessible_append using assms(2) by auto
qed

lemma copy16_loop_reaches:
  assumes "apart d s (unat len)" "accessible m d s i" "i \<le> unat len"
  shows "reaches m d s len (i + (unat len - i) div 16 * 16) (copy16_loop (after m d s len i))"
  using assms(2,3)
proof (induction "(unat len - i) div 16" arbitrary: i)
  case 0
  then have "unat (rdx (after m d s len i)) < 16"
    by (simp add: unat_rdx_after div_eq_0_iff)
  then have "\<not> 16 \<le> rdx (after m d s len i)" by (simp add: word_le_nat_alt)
  then show ?case using 0 by (simp add: copy16_loop.simps [of "after m d s len i"] reaches_def)
next
  case (Suc k)
  then have ge: "16 \<le> unat len - i" by (metis div_less not_le nat.distinct(1))
  then have "16 \<le> rdx (after m d s len i)"
    using Suc.prems by (simp add: word_le_nat_alt unat_rdx_after)
  then have loop: "copy16_loop (after m d s len i) =
      (case move_n 16 (after m d s len i) of Inl f \<Rightarrow> Inl f | Inr c' \<Rightarrow> copy16_loop c')"
    by (simp add: copy16_loop.simps [of "after m d s len i"])
  have i: "i + 16 \<le> unat len" using ge by simp
  have d: "(unat len - i) div 16 = Suc ((unat len - (i + 16)) div 16)"
    using ge by (simp add: le_div_geq)
  then have e: "i + (unat len - i) div 16 * 16 = i + 16 + (unat len - (i + 16)) div 16 * 16" by simp
  from move_n_reaches [OF assms(1) Suc.prems(1) i]
  have m: "reaches m d s len (i + 16) (move_n 16 (after m d s len i))" .
  show ?case
  proof (cases "accessible m d s (i + 16)")
    case True
    then have "reaches m d s len (i + 16 + (unat len - (i + 16)) div 16 * 16)
        (copy16_loop (after m d s len (i + 16)))"
      using Suc(1) [of "i + 16"] Suc(2) d i by simp
    then show ?thesis using m True by (simp add: loop e reaches_def [of m d s len "i + 16"])
  next
    case False
    then have "\<not> accessible m d s (i + 16 + (unat len - (i + 16)) div 16 * 16)"
      by (meson accessible_mono le_add1)
    then show ?thesis using m False unfolding e loop by (auto simp: reaches_def)
  qed
qed

lemma tail_reaches:
  assumes "apart d s (unat len)" "reaches m d s len i r" "i \<le> unat len"
    and "n \<le> k"
    and skip: "\<And>c. skip c \<longleftrightarrow> unat (rdx c) < k"
  shows "reaches m d s len (if unat len - i < k then i else i + n)
           (and_then r (\<lambda>c. if skip c then Inr c else move_n n c))"
proof (cases "accessible m d s i")
  case True
  then show ?thesis
    using assms move_n_reaches [OF assms(1) True, of n]
    by (auto simp: reaches_def [of m d s len i] skip unat_rdx_after)
next
  case False
  then have "\<not> accessible m d s (i + n)" using accessible_mono le_add1 by blast
  with False show ?thesis using assms(2) by (auto simp: reaches_def)
qed

lemma copied_len_steps:
  fixes L :: nat
  defines "i1 \<equiv> if L \<le> 16 then 0 else L div 16 * 16"
  defines "i2 \<equiv> if L - i1 < 9 then i1 else i1 + 8"
  defines "i3 \<equiv> if L - i2 < 4 then i2 else i2 + 4"
  defines "i4 \<equiv> if L - i3 < 2 then i3 else i3 + 2"
  shows "(if L - i4 < 1 then i4 else i4 + 1) = copied_len L"
    and "i1 \<le> L" and "i2 \<le> L" and "i3 \<le> L" and "i4 \<le> L"
proof -
  define q where "q = L div 16"
  define r where "r = L mod 16"
  have L: "L = q * 16 + r" "r < 16" by (simp_all add: q_def r_def)
  have len: "copied_len L = (if L = 16 \<or> r = 8 then L - 1 else L)"
    by (simp add: copied_len_def r_def)
  show "i1 \<le> L" unfolding i1_def by simp
  then show "i2 \<le> L" unfolding i2_def by auto
  then show "i3 \<le> L" unfolding i3_def by auto
  then show "i4 \<le> L" unfolding i4_def by auto
  define w where "w = L - i1"
  have w: "L = i1 + w" "w = (if L = 16 then 16 else r)"
    unfolding w_def i1_def using L by (auto simp: div_eq_0_iff)
  have "w \<in> {0,1,2,3,4,5,6,7,8,9,10,11,12,13,14,15,16}" using L(2) w(2) by (simp, presburger)
  then have "(if L - i4 < 1 then i4 else i4 + 1) = i1 + (if w = 8 \<or> w = 16 then w - 1 else w)"
    unfolding i4_def i3_def i2_def w(1) by auto
  moreover have "copied_len L = i1 + (if w = 8 \<or> w = 16 then w - 1 else w)"
    unfolding len using w L by auto
  ultimately show "(if L - i4 < 1 then i4 else i4 + 1) = copied_len L" by simp
qed

lemma and_then_assoc: "and_then (and_then m f) g = and_then m (\<lambda>x. and_then (f x) g)"
  by (cases m) auto

lemma memcpy_explicit_reaches:
  assumes "apart d s (unat len)"
  shows "reaches m d s len (copied_len (unat len)) (memcpy_explicit (after m d s len 0))"
proof -
  define L where "L = unat len"
  define i1 where "i1 = (if L \<le> 16 then 0 else L div 16 * 16)"
  define i2 where "i2 = (if L - i1 < 9 then i1 else i1 + 8)"
  define i3 where "i3 = (if L - i2 < 4 then i2 else i2 + 4)"
  define i4 where "i4 = (if L - i3 < 2 then i3 else i3 + 2)"
  note steps = copied_len_steps [of L, folded i1_def, folded i2_def, folded i3_def, folded i4_def]
  note tail = tail_reaches [OF assms, folded L_def]
  have acc: "accessible m d s 0" by (simp add: accessible_def span_def)
  have "reaches m d s len i1 (if rdx (after m d s len 0) \<le> 16 then Inr (after m d s len 0)
       else copy16_loop (after m d s len 0))" (is "reaches m d s len i1 ?r1")
    using copy16_loop_reaches [OF assms acc] unat_rdx_after [of 0 len m d s] acc
    by (auto simp: word_le_nat_alt reaches_def [of m d s len 0] i1_def L_def)
  note r1 = this
  have g: "rdx c \<le> 8 \<longleftrightarrow> unat (rdx c) < 9" "rdx c < 4 \<longleftrightarrow> unat (rdx c) < 4"
    "rdx c < 2 \<longleftrightarrow> unat (rdx c) < 2" "rdx c < 1 \<longleftrightarrow> unat (rdx c) < 1" for c
    by (auto simp: word_le_nat_alt word_less_nat_alt)
  have r2: "reaches m d s len i2 (and_then ?r1 (\<lambda>c. if rdx c \<le> 8 then Inr c else move_n 8 c))"
    by (rule tail [OF r1 steps(2) _ g(1), of 8, folded i2_def]) simp
  have r3: "reaches m d s len i3 (and_then (and_then ?r1
      (\<lambda>c. if rdx c \<le> 8 then Inr c else move_n 8 c)) (\<lambda>c. if rdx c < 4 then Inr c else move_n 4 c))"
    by (rule tail [OF r2 steps(3) _ g(2), of 4, folded i3_def]) simp
  note r4 = tail [OF r3 steps(4) _ g(3), of 2, folded i4_def, OF order_refl]
  from tail [OF r4 steps(5) _ g(4), of 1, unfolded steps(1), OF order_refl]
  show ?thesis unfolding memcpy_explicit_def L_def and_then_assoc .
qed

lemma after_0: "after m d s len 0 = \<lparr>rdi = d, rsi = s, rdx = len, cmem = m\<rparr>"
  by (simp add: after_def)

lemma checked_memcpy_impl_spec:
  assumes "apart d s (unat len)"
  shows "checked_memcpy_impl d s len m =
    (if accessible m d s (copied_len (unat len))
     then Returned (Inr (), copied m d s (copied_len (unat len)))
     else Killed (sig_to_except SIGSEGV))"
  using memcpy_explicit_reaches [OF assms, of m]
  by (auto simp: checked_memcpy_impl_def reaches_def sa_handler_impl_def simp flip: after_0
      simp del: sig_to_except.simps split: if_splits) (simp add: after_def)

lemma checked_memcpy_impl_never_Inl:
  "checked_memcpy_impl d s len m \<noteq> Returned (Inl e, m')"
  by (auto simp: checked_memcpy_impl_def sa_handler_impl_def simp del: sig_to_except.simps
      split: sum.splits)

lemma in_span_iff:
  assumes "unat a + n < 2 ^ 64"
  shows "x \<in> set (span a n) \<longleftrightarrow> in_range a (a + of_nat n) x"
proof -
  have an: "unat (a + of_nat n) = unat a + n"
    using assms by (simp add: unat_word_ariths unat_of_nat take_bit_eq_mod)
  have "x \<in> set (span a n) \<longleftrightarrow> unat (x - a) < n"
  proof
    assume "x \<in> set (span a n)"
    then obtain i where "i < n" "x = a + of_nat i" by (auto simp: set_span)
    then show "unat (x - a) < n" using assms by (simp add: unat_of_nat take_bit_eq_mod)
  next
    assume "unat (x - a) < n"
    from mem_spanI [OF this, of a] show "x \<in> set (span a n)" by simp
  qed
  also have "\<dots> \<longleftrightarrow> in_range a (a + of_nat n) x"
  proof (cases "a \<le> x")
    case True
    then have "unat (x - a) = unat x - unat a" by (rule unat_sub)
    then show ?thesis
      using True an by (auto simp: in_range_def word_less_nat_alt word_le_nat_alt)
  next
    case False
    then have "unat x < unat a" by (simp add: word_le_nat_alt)
    then have "unat (x - a) = unat x + 2 ^ 64 - unat a" by (simp add: unat_sub_if')
    then show ?thesis using False assms by (simp add: in_range_def)
  qed
  finally show ?thesis .
qed

lemma apart_iff_ranges:
  assumes "unat d + n < 2 ^ 64" "unat s + n < 2 ^ 64"
  shows "apart d s n \<longleftrightarrow> \<not> in_range s (s + of_nat n) d \<and> \<not> in_range d (d + of_nat n) s"
proof
  assume a: "apart d s n"
  show "\<not> in_range s (s + of_nat n) d \<and> \<not> in_range d (d + of_nat n) s"
  proof (cases "n = 0")
    case False
    then have "d \<in> set (span d n)" "s \<in> set (span s n)"
      using mem_spanI [of 0 n d] mem_spanI [of 0 n s] by simp_all
    with a show ?thesis
      unfolding in_span_iff [OF assms(1), symmetric] in_span_iff [OF assms(2), symmetric] apart_def
      by blast
  qed (auto simp: in_range_def)
next
  assume r: "\<not> in_range s (s + of_nat n) d \<and> \<not> in_range d (d + of_nat n) s"
  have "unat (d + of_nat n) = unat d + n" "unat (s + of_nat n) = unat s + n"
    using assms by (simp_all add: unat_word_ariths unat_of_nat take_bit_eq_mod)
  with r show "apart d s n"
    unfolding apart_def in_span_iff [OF assms(1)] in_span_iff [OF assms(2)] set_eq_iff Int_iff
    by (auto simp: in_range_def word_less_nat_alt word_le_nat_alt in_span_iff assms)
qed

lemma copy_nonoverlapping_checked_spec:
  assumes "n = unat (elems * sz)" "unat src + n < 2 ^ 64" "unat dest + n < 2 ^ 64"
  shows "copy_nonoverlapping_checked sz src dest elems m =
    (if apart dest src n
     then if accessible m dest src (copied_len n)
          then Returned (Inr (), copied m dest src (copied_len n))
          else Killed (sig_to_except SIGSEGV)
     else Returned (Inl \<lparr>err_ptr = max src dest, access_ty = Overlap\<rparr>, m))"
proof -
  have n: "elems * sz = of_nat n" by (simp add: assms(1))
  have un: "unat (of_nat n :: u64) = n" by (simp add: assms(1))
  have "in_range src (src + of_nat n) dest \<Longrightarrow> max src dest = dest"
    by (simp add: in_range_def max_def)
  moreover have "in_range dest (dest + of_nat n) src \<Longrightarrow> max src dest = src"
    by (auto simp: in_range_def max_def)
  ultimately show ?thesis
    using apart_iff_ranges [OF assms(3,2)] checked_memcpy_impl_spec [of dest src "elems * sz" m]
    unfolding copy_nonoverlapping_checked_def n un by auto
qed

text \<open>
  C8. A checked copy of \<open>n\<close> bytes between two ranges that do not wrap around: it refuses ranges that
  share an address, naming the higher of the two start addresses and leaving memory alone; it ends
  the process with a memory access violation when a byte it touches cannot be accessed; and
  otherwise it changes memory in exactly the bytes copied. It moves \<open>copied_len n\<close> bytes: the last
  byte is left out when \<open>n\<close> is 16 or leaves the remainder 8 modulo 16.
\<close>

theorem checked_copy_behaviour:
  assumes "unat src + unat (elems * sz) < 2 ^ 64" "unat dest + unat (elems * sz) < 2 ^ 64"
  shows "copy_nonoverlapping_checked sz src dest elems m =
    (let n = unat (elems * sz) in
     if set (span dest n) \<inter> set (span src n) \<noteq> {}
     then Returned (Inl \<lparr>err_ptr = max src dest, access_ty = Overlap\<rparr>, m)
     else if (\<exists>i < copied_len n. \<not> readable m (src + of_nat i) \<or> \<not> writable m (dest + of_nat i))
     then Killed (sig_to_except SIGSEGV)
     else Returned (Inr (), m\<lparr>mbyte := \<lambda>x. if unat (x - dest) < copied_len n
                                           then mbyte m (src + (x - dest)) else mbyte m x\<rparr>))"
proof -
  have "(\<exists>i < k. \<not> readable m (src + of_nat i) \<or> \<not> writable m (dest + of_nat i)) \<longleftrightarrow>
      \<not> accessible m dest src k" for k
    by (auto simp: accessible_def list_all_iff set_span)
  then show ?thesis
    unfolding copy_nonoverlapping_checked_spec [OF refl assms] Let_def copied_def apart_def
    by (simp del: sig_to_except.simps)
qed

definition demo_mem :: mem where
  "demo_mem = \<lparr>mbyte = (\<lambda>a. ucast a), readable = (\<lambda>a. a < 0x2000), writable = (\<lambda>a. a < 0x2000)\<rparr>"

theorem checked_copy_behaviour_witness:
  "\<exists>m'. copy_nonoverlapping_checked 1 0x101 0x200 8 demo_mem = Returned (Inr (), m') \<and>
     mbyte m' 0x206 = 0x07 \<and> mbyte m' 0x207 = mbyte demo_mem 0x207"
proof -
  have c: "copied_len 8 = 7" by (simp add: copied_len_def)
  have u: "[0..<8] = [0, 1, 2, 3, 4, 5, 6, 7 :: nat]" by (simp add: upt_rec)
  have d: "set (span 0x200 8) \<inter> set (span 0x101 8) = {}" by (simp add: span_def u)
  have e: "\<not> (\<exists>i < 7. \<not> readable demo_mem (0x101 + of_nat i) \<or>
      \<not> writable demo_mem (0x200 + of_nat i))"
  proof -
    have "[0..<7] = [0, 1, 2, 3, 4, 5, 6 :: nat]" by (simp add: upt_rec)
    then have "list_all (\<lambda>i. readable demo_mem (0x101 + of_nat i) \<and>
        writable demo_mem (0x200 + of_nat i)) [0..<7]" by (simp add: demo_mem_def)
    then show ?thesis unfolding list_all_iff by simp
  qed
  have n: "unat (8 * 1 :: u64) = 8" by simp
  have "unat (0x101 :: u64) + 8 < 2 ^ 64" "unat (0x200 :: u64) + 8 < 2 ^ 64" by simp_all
  from checked_copy_behaviour [of "0x101" 8 1 "0x200" demo_mem, unfolded n Let_def c d, OF this]
  show ?thesis
    by (simp only: e if_False simp_thms)
      (rule exI conjI refl | simp add: demo_mem_def)+
qed

end
