(* ===== verification/WL_Access.thy ===== *)
theory WL_Access
  imports WL_Memory
begin

text \<open>
  Clients of the checked copy (\<open>wl-impl/src/helpers.rs\<close>): what a checked read returns, what a probe
  of a region establishes, the iterator over a caller's slice, and the validation of the common head
  of extended options.
\<close>

section \<open>Iterating a caller's slice\<close>

record slice_iter =
  it_pos :: u64
  it_end :: u64

definition slice_new_unchecked :: "u64 \<Rightarrow> u64 \<Rightarrow> usize \<Rightarrow> slice_iter" where
  "slice_new_unchecked sz base len = \<lparr>it_pos = base, it_end = base + len * sz\<rparr>"

definition slice_len :: "u64 \<Rightarrow> slice_iter \<Rightarrow> usize" where
  "slice_len sz it = (it_end it - it_pos it) div sz"

definition slice_is_empty :: "slice_iter \<Rightarrow> bool" where
  "slice_is_empty it \<longleftrightarrow> it_pos it = it_end it"

text \<open>The probe of one element, its error or its address, and the iterator after it.\<close>

definition probed ::
    "bool \<Rightarrow> u64 \<Rightarrow> u64 \<Rightarrow> u64 \<Rightarrow> slice_iter \<Rightarrow> mem \<Rightarrow>
     ((access_error + u64) option \<times> slice_iter \<times> mem) outcome" where
  "probed writeback sz tmp pos it m =
     (case probe_checked writeback sz tmp pos 1 m of
        Killed e \<Rightarrow> Killed e
      | Returned (r, m') \<Rightarrow> Returned (Some (map_sum id (\<lambda>_. pos) r), it, m'))"

definition slice_next ::
    "bool \<Rightarrow> u64 \<Rightarrow> u64 \<Rightarrow> slice_iter \<Rightarrow> mem \<Rightarrow>
     ((access_error + u64) option \<times> slice_iter \<times> mem) outcome" where
  "slice_next writeback sz tmp it m =
     (if it_pos it = it_end it then Returned (None, it, m)
      else probed writeback sz tmp (it_pos it) (it\<lparr>it_pos := it_pos it + sz\<rparr>) m)"

definition slice_next_back ::
    "bool \<Rightarrow> u64 \<Rightarrow> u64 \<Rightarrow> slice_iter \<Rightarrow> mem \<Rightarrow>
     ((access_error + u64) option \<times> slice_iter \<times> mem) outcome" where
  "slice_next_back writeback sz tmp it m =
     (if it_pos it = it_end it then Returned (None, it, m)
      else probed writeback sz tmp (it_end it - sz) (it\<lparr>it_end := it_end it - sz\<rparr>) m)"

definition slice_advance_by :: "u64 \<Rightarrow> slice_iter \<Rightarrow> usize \<Rightarrow> (usize + unit) \<times> slice_iter" where
  "slice_advance_by sz it n =
     (let len = slice_len sz it in
      if n \<le> len then (Inr (), it\<lparr>it_pos := it_pos it + n * sz\<rparr>) else (Inl (n - len), it))"

text \<open>
  \<open>next_chunk\<close>: a full chunk is the right summand, the elements left over otherwise the left one.
  The full chunk advances by \<open>N * size_of::<usize>()\<close>.
\<close>

definition slice_next_chunk ::
    "bool \<Rightarrow> u64 \<Rightarrow> u64 \<Rightarrow> usize \<Rightarrow> slice_iter \<Rightarrow> mem \<Rightarrow>
     (((access_error + u64) list + (access_error + u64) list) \<times> slice_iter \<times> mem) outcome" where
  "slice_next_chunk writeback sz tmp N it m =
     (let pos = it_pos it; len = slice_len sz it;
          elems = (\<lambda>r k. case r of Inr () \<Rightarrow> map (\<lambda>i. Inr (pos + of_nat i * sz)) [0..<unat k]
                                 | Inl e \<Rightarrow> map (\<lambda>_. Inl e) [0..<unat k])
      in if N \<le> len
         then (case probe_checked writeback sz tmp pos N m of
                 Killed e \<Rightarrow> Killed e
               | Returned (r, m') \<Rightarrow> Returned (Inr (elems r N), it\<lparr>it_pos := pos + N * 8\<rparr>, m'))
         else (case probe_checked writeback sz tmp pos len m of
                 Killed e \<Rightarrow> Killed e
               | Returned (r, m') \<Rightarrow> Returned (Inl (elems r len), it\<lparr>it_pos := it_end it\<rparr>, m')))"

section \<open>Heads of extended options\<close>

text \<open>
  \<open>ExtendedOptionHead\<close> is a type of \<open>lilium_sys\<close>; the code names its fields \<open>ty\<close> and \<open>flags\<close> and
  treats every other byte alike.
\<close>

record option_head =
  head_ty :: bytes
  head_flags :: u32
  head_rest :: bytes

definition STANDARD_OPTION_MASK :: u32 where
  "STANDARD_OPTION_MASK = 0x0001"

definition validate_option_head :: "option_head \<Rightarrow> u16 \<Rightarrow> sys_error + unit" where
  "validate_option_head head tbits =
     (let expected = \<lparr>head_ty = head_ty head, head_flags = head_flags head,
                      head_rest = replicate (length (head_rest head)) 0\<rparr>
      in if head \<noteq> expected then Inl InvalidOption
         else let flags_mask = STANDARD_OPTION_MASK OR push_bit 16 (ucast tbits)
         in if head_flags expected AND NOT flags_mask \<noteq> 0 then Inl InvalidOption
         else Inr ())"

section \<open>Probing\<close>

definition probe_ok :: "bool \<Rightarrow> mem \<Rightarrow> u64 \<Rightarrow> bool" where
  "probe_ok writeback m a \<longleftrightarrow> readable m a \<and> (writeback \<longrightarrow> writable m a)"

definition poke :: "mem \<Rightarrow> u64 \<Rightarrow> u8 \<Rightarrow> mem" where
  "poke m a b = m\<lparr>mbyte := (mbyte m)(a := b)\<rparr>"

lemma poke_simps [simp]:
  "readable (poke m a b) = readable m" "writable (poke m a b) = writable m"
  "mbyte (poke m a b) = (mbyte m)(a := b)" "poke (poke m a b) a c = poke m a c"
  "probe_ok wb (poke m a b) = probe_ok wb m"
  by (auto simp: poke_def probe_ok_def fun_eq_iff)

lemma poke_same: "poke m a (mbyte m a) = m"
  by (simp add: poke_def)

lemma poke_swap: "a \<noteq> c \<Longrightarrow> poke (poke m a b) c d = poke (poke m c d) a b"
  by (simp add: poke_def fun_upd_twist)

lemma span_1: "span a (Suc 0) = [a]"
  by (simp add: span_def)

lemma unat_diff_less_1: "unat (x - d :: u64) < 1 \<longleftrightarrow> x = d"
  by (simp add: unsigned_eq_0_iff)

lemma copied_1: "copied m d s 1 = poke m d (mbyte m s)"
  unfolding copied_def poke_def unat_diff_less_1 by (auto simp: fun_eq_iff)

lemma copy_byte:
  assumes "s \<noteq> d"
  shows "copy_nonoverlapping_checked 1 s d 1 m =
    (if readable m s \<and> writable m d then Returned (Inr (), poke m d (mbyte m s))
     else Killed (sig_to_except SIGSEGV))"
proof -
  have out: "\<not> in_range a (a + 1) b" if "a \<noteq> b" for a b :: u64
    using that inc_le [of a b] by (auto simp: in_range_def order_le_less)
  have "apart d s (unat 1)" using assms by (simp add: apart_def span_1)
  from checked_memcpy_impl_spec [OF this, of m] show ?thesis
    using out [OF assms] out [OF assms [symmetric]]
    by (simp add: copy_nonoverlapping_checked_def copied_len_def copied_1 [simplified] accessible_def
        span_1 del: sig_to_except.simps)
qed

lemma bytes_at_1: "bytes_at m a 1 = [mbyte m a]"
  by (simp add: bytes_at_def span_1)

lemma put_bytes_1: "put_bytes m a [b] = poke m a b"
proof -
  have "length [b] = 1" by simp
  then show ?thesis
    unfolding put_bytes_def poke_def by (simp only: unat_diff_less_1) (auto simp: fun_eq_iff)
qed

lemma probe_one_spec:
  assumes "tmp \<noteq> a" "readable m tmp" "writable m tmp"
  shows "probe_one writeback tmp a m =
    (if probe_ok writeback m a then Returned (Inr (), poke m tmp (mbyte m a))
     else Killed (sig_to_except SIGSEGV))"
proof -
  have "poke (poke m tmp (mbyte m a)) a (mbyte m a) = poke m tmp (mbyte m a)"
    using poke_swap [OF assms(1)] poke_same [of m a] by simp
  then show ?thesis
    using assms copy_byte [OF assms(1), of "poke m tmp (mbyte m a)"] copy_byte [of a tmp m]
    by (simp add: probe_one_def read_checked_def write_checked_def bytes_at_1 [simplified]
        put_bytes_1 probe_ok_def del: sig_to_except.simps)
qed

text \<open>The addresses the loop of \<open>probe_checked\<close> visits when it stands at \<open>ptr\<close> in iteration \<open>i\<close>.\<close>

fun probe_addrs :: "nat \<Rightarrow> u64 \<Rightarrow> u64 \<Rightarrow> u64 list" where
  "probe_addrs 0 i ptr = []"
| "probe_addrs (Suc k) i ptr = ptr # probe_addrs k (i + 1) (ptr + i * 4096)"

lemma probe_loop_spec:
  assumes "readable m tmp" "writable m tmp" "tmp \<notin> set (probe_addrs k i ptr)"
  shows "probe_loop k i writeback tmp ptr m =
    (if list_all (probe_ok writeback m) (probe_addrs k i ptr)
     then Returned (Inr (), if k = 0 then m else poke m tmp (mbyte m (last (probe_addrs k i ptr))))
     else Killed (sig_to_except SIGSEGV))"
  using assms
proof (induction k arbitrary: i ptr m)
  case (Suc k)
  have "probe_addrs k (i + 1) (ptr + i * 4096) \<noteq> []" if "k \<noteq> 0" using that by (cases k) auto
  moreover have "last (probe_addrs k (i + 1) (ptr + i * 4096)) \<noteq> tmp" if "k \<noteq> 0"
    using Suc.prems(3) calculation [OF that] last_in_set by fastforce
  ultimately show ?case
    using Suc probe_one_spec [of tmp ptr m writeback] by (auto simp del: sig_to_except.simps)
qed simp

lemma triangle_Suc: "Suc k * k div 2 = k + k * (k - 1) div 2" for k :: nat
  by (cases k) (auto simp: algebra_simps)

lemma probe_addrs_closed:
  "probe_addrs n (of_nat k) (src + 4096 * of_nat (k * (k - 1) div 2)) =
     map (\<lambda>j. src + 4096 * of_nat (j * (j - 1) div 2)) [k..<k + n]"
proof (induction n arbitrary: k)
  case (Suc n)
  have nxt: "src + 4096 * of_nat (k * (k - 1) div 2) + of_nat k * 4096 =
      src + 4096 * (of_nat (Suc k * (Suc k - 1) div 2) :: u64)"
    using triangle_Suc [of k] by (simp add: algebra_simps)
  have upt: "[k..<k + Suc n] = k # [Suc k..<Suc k + n]" by (subst upt_conv_Cons) simp_all
  have suc: "of_nat k + 1 = (of_nat (Suc k) :: u64)" by simp
  show ?case
    unfolding probe_addrs.simps nxt suc upt list.map Suc [of "Suc k"] ..
qed simp

text \<open>
  C19. A probe of \<open>count\<close> elements succeeds exactly when the addresses it visits can be read (and
  written, for a writing probe), and it ends the process otherwise; it never reports an error to
  its caller. The addresses visited lie at the triangular multiples of the page size from the start,
  followed by the first byte of the last element, so of a region of four pages the third page is
  never visited. Memory changes in the local the probe reads into only.
\<close>

theorem probe_checked_behaviour:
  assumes "count \<noteq> 0" "readable m tmp" "writable m tmp"
    and "addrs = map (\<lambda>k. src + 4096 * of_nat (k * (k - 1) div 2))
                   [0..<unat ((4095 + sz * count) div 4096)] @ [src + count * sz - sz]"
    and "tmp \<notin> set addrs"
  shows "probe_checked writeback sz tmp src count m =
    (if list_all (\<lambda>a. readable m a \<and> (writeback \<longrightarrow> writable m a)) addrs
     then Returned (Inr (), m\<lparr>mbyte := (mbyte m)(tmp := mbyte m (src + count * sz - sz))\<rparr>)
     else Killed (sig_to_except SIGSEGV))"
proof -
  let ?n = "unat ((4095 + sz * count) div 4096)"
  have pa: "addrs = probe_addrs ?n 0 src @ [src + count * sz - sz]"
    using probe_addrs_closed [of ?n 0 src] assms(4) by simp
  have t: "tmp \<noteq> src + count * sz - sz" "tmp \<notin> set (probe_addrs ?n 0 src)"
    using assms(5) pa by auto
  have ok: "(\<lambda>a. readable m a \<and> (writeback \<longrightarrow> writable m a)) = probe_ok writeback m"
    by (simp add: probe_ok_def fun_eq_iff)
  have last: "probe_one writeback tmp (src + count * sz - sz) m' =
      (if probe_ok writeback m (src + count * sz - sz)
       then Returned (Inr (), poke m tmp (mbyte m (src + count * sz - sz)))
       else Killed (sig_to_except SIGSEGV))"
    if "m' = m \<or> m' = poke m tmp b" for m' b
    using that probe_one_spec [OF t(1), of m' writeback] assms(2,3) t(1)
    by (auto simp del: sig_to_except.simps)
  show ?thesis
    using probe_loop_spec [OF assms(2,3) t(2), of writeback] assms(1)
    by (auto simp: probe_checked_def Let_def pa ok last [OF disjI1, OF refl]
        last [OF disjI2, OF refl] simp flip: poke_def simp del: sig_to_except.simps)
qed

definition holey_mem :: mem where
  "holey_mem = \<lparr>mbyte = (\<lambda>a. 0), readable = (\<lambda>a. a < 0x3000 \<or> 0x4000 \<le> a), writable = (\<lambda>a. True)\<rparr>"

theorem probe_checked_behaviour_witness:
  "\<exists>m'. probe_checked False 1 0x9000 0x1000 0x4000 holey_mem = Returned (Inr (), m') \<and>
     \<not> readable holey_mem 0x3000"
proof -
  let ?as = "[0x1000, 0x1000, 0x2000, 0x4000, 0x4fff] :: u64 list"
  have n: "[0..<unat ((4095 + 1 * 0x4000 :: u64) div 4096)] = [0, 1, 2, 3]"
    by (simp add: upt_rec)
  have "?as = map (\<lambda>k. 0x1000 + 4096 * of_nat (k * (k - 1) div 2))
      [0..<unat ((4095 + 1 * 0x4000 :: u64) div 4096)] @ [0x1000 + 0x4000 * 1 - 1]"
    unfolding n by simp
  from probe_checked_behaviour [OF _ _ _ this, of holey_mem "0x9000" False]
  show ?thesis by (simp add: holey_mem_def)
qed

text \<open>
  A checked read of a value of \<open>sz\<close> bytes into a local elsewhere returns the bytes at the
  address read, except that for sizes the copy routine cuts short (8 bytes among them) the last byte
  is whatever the local held before.
\<close>

theorem read_checked_value:
  assumes "unat src + unat sz < 2 ^ 64" "unat tmp + unat sz < 2 ^ 64"
    and "set (span tmp (unat sz)) \<inter> set (span src (unat sz)) = {}"
    and "\<forall>i < unat sz. readable m (src + of_nat i) \<and> writable m (tmp + of_nat i)"
  shows "\<exists>m'. read_checked sz tmp src m =
    Returned (Inr (take (copied_len (unat sz)) (bytes_at m src (unat sz)) @
                   drop (copied_len (unat sz)) (bytes_at m tmp (unat sz))), m')"
proof -
  let ?n = "unat sz" and ?k = "copied_len (unat sz)"
  have k: "?k \<le> ?n" by (auto simp: copied_len_def)
  have n: "?n < 2 ^ 64" using unsigned_less [of sz] by simp
  have "accessible m tmp src ?n" using assms(4) by (auto simp: accessible_def list_all_iff set_span)
  then have acc: "accessible m tmp src ?k" using accessible_mono k by blast
  have "bytes_at (copied m tmp src ?k) tmp ?n =
      take ?k (bytes_at m src ?n) @ drop ?k (bytes_at m tmp ?n)" (is "?l = ?r")
  proof (rule nth_equalityI)
    show "length ?l = length ?r" using k by simp
    fix i assume i: "i < length ?l"
    then have "unat (of_nat i :: u64) = i" using n by (simp add: unat_of_nat take_bit_eq_mod)
    then show "?l ! i = ?r ! i"
      using i k by (auto simp: nth_bytes_at nth_append copied_def min_def)
  qed
  then show ?thesis
    using acc copy_nonoverlapping_checked_spec [of ?n 1 sz src tmp m] assms(1-3)
    by (simp add: read_checked_def apart_def del: sig_to_except.simps)
qed

theorem read_checked_value_witness:
  "\<exists>m'. read_checked 8 0x80 1 demo_mem = Returned (Inr [1, 2, 3, 4, 5, 6, 7, 0x87], m')"
proof -
  have u: "[0..<8] = [0, 1, 2, 3, 4, 5, 6, 7 :: nat]" by (simp add: upt_rec)
  have d: "set (span 0x80 (unat (8 :: u64))) \<inter> set (span 1 (unat (8 :: u64))) = {}"
    by (simp add: span_def u)
  have "list_all (\<lambda>i. readable demo_mem (1 + of_nat i) \<and>
      writable demo_mem (0x80 + of_nat i)) [0..<8]" by (simp add: demo_mem_def u)
  then have "\<forall>i < unat (8 :: u64). readable demo_mem (1 + of_nat i) \<and>
      writable demo_mem (0x80 + of_nat i)" unfolding list_all_iff by simp
  from read_checked_value [OF _ _ d this]
  show ?thesis by (simp add: bytes_at_def span_def u copied_len_def demo_mem_def)
qed

section \<open>The slice iterator as a double-ended list\<close>

definition slice_wf :: "u64 \<Rightarrow> slice_iter \<Rightarrow> bool" where
  "slice_wf sz it \<longleftrightarrow> sz \<noteq> 0 \<and> unat (it_end it - it_pos it) mod unat sz = 0"

definition slice_items :: "u64 \<Rightarrow> slice_iter \<Rightarrow> u64 list" where
  "slice_items sz it =
     map (\<lambda>i. it_pos it + of_nat i * sz) [0..<unat (it_end it - it_pos it) div unat sz]"

lemma slice_wf_end:
  assumes "slice_wf sz it"
  shows "unat (it_end it - it_pos it) = length (slice_items sz it) * unat sz"
    and "it_end it = it_pos it + of_nat (length (slice_items sz it)) * sz"
proof -
  show d: "unat (it_end it - it_pos it) = length (slice_items sz it) * unat sz"
    using assms by (auto simp: slice_wf_def slice_items_def)
  have "it_end it - it_pos it = of_nat (unat (it_end it - it_pos it))" by simp
  also have "\<dots> = of_nat (length (slice_items sz it)) * sz" unfolding d by simp
  finally show "it_end it = it_pos it + of_nat (length (slice_items sz it)) * sz"
    by (simp add: algebra_simps)
qed

lemma slice_len_items: "slice_wf sz it \<Longrightarrow> slice_len sz it = of_nat (length (slice_items sz it))"
  by (simp add: slice_len_def slice_items_def word_div_def of_nat_div unat_div_distrib
      flip: unat_div_distrib)

lemma slice_sz_pos: "slice_wf sz it \<Longrightarrow> 0 < unat sz"
  by (auto simp: slice_wf_def unsigned_eq_0_iff intro: gr0I)

lemma slice_sub:
  assumes "slice_wf sz it" "k \<le> length (slice_items sz it)"
  shows "unat (it_end it - it_pos it - of_nat k * sz) = (length (slice_items sz it) - k) * unat sz"
proof -
  let ?D = "it_end it - it_pos it"
  have le: "k * unat sz \<le> unat ?D" using assms slice_wf_end(1) [OF assms(1)] by simp
  then have lt: "k * unat sz < 2 ^ 64" using unat_lt_64 [of ?D] by simp
  moreover have "k \<le> k * unat sz" using slice_sz_pos [OF assms(1)] by (simp add: Suc_le_eq)
  ultimately have "k < 2 ^ 64" by linarith
  then have u: "unat (of_nat k * sz) = k * unat sz"
    using lt unat_mult_64 [of "of_nat k" sz] by (simp add: unat_of_nat_64)
  then have "of_nat k * sz \<le> ?D" using le by (simp add: word_le_nat_alt)
  then show ?thesis
    using u slice_wf_end(1) [OF assms(1)] by (simp add: unat_sub diff_mult_distrib)
qed

lemma slice_items_upt:
  "slice_items sz it = map (\<lambda>i. it_pos it + of_nat i * sz) [0..<length (slice_items sz it)]"
  by (simp add: slice_items_def)

lemma nth_slice_items:
  "i < length (slice_items sz it) \<Longrightarrow> slice_items sz it ! i = it_pos it + of_nat i * sz"
  by (simp add: slice_items_def)

lemma slice_items_of_len:
  assumes "unat (it_end it - it_pos it) = k * unat sz" "0 < unat sz"
  shows "slice_wf sz it \<and> slice_items sz it = map (\<lambda>i. it_pos it + of_nat i * sz) [0..<k]"
  using assms by (auto simp: slice_wf_def slice_items_def)

lemma slice_drop:
  assumes "slice_wf sz it" "k \<le> length (slice_items sz it)"
  defines "it' \<equiv> it\<lparr>it_pos := it_pos it + of_nat k * sz\<rparr>"
  shows "slice_wf sz it' \<and> slice_items sz it' = drop k (slice_items sz it)"
proof -
  let ?n = "length (slice_items sz it)"
  have d: "unat (it_end it' - it_pos it') = (?n - k) * unat sz"
    using slice_sub [OF assms(1,2)] by (simp add: it'_def diff_diff_add)
  have "drop k [0..<?n] = map (\<lambda>i. i + k) [0..<?n - k]"
    using assms(2) by (simp add: map_add_upt)
  then have "drop k (slice_items sz it) = map (\<lambda>i. it_pos it' + of_nat i * sz) [0..<?n - k]"
    by (subst slice_items_upt) (simp add: drop_map it'_def algebra_simps comp_def)
  then show ?thesis using slice_items_of_len [OF d slice_sz_pos [OF assms(1)]] by simp
qed

lemma slice_take:
  assumes "slice_wf sz it" "k \<le> length (slice_items sz it)"
  defines "it' \<equiv> it\<lparr>it_end := it_end it - of_nat k * sz\<rparr>"
  shows "slice_wf sz it' \<and>
    slice_items sz it' = take (length (slice_items sz it) - k) (slice_items sz it)"
proof -
  let ?n = "length (slice_items sz it)"
  have d: "unat (it_end it' - it_pos it') = (?n - k) * unat sz"
    using slice_sub [OF assms(1,2)] by (simp add: it'_def algebra_simps)
  have "take (?n - k) (slice_items sz it) = map (\<lambda>i. it_pos it' + of_nat i * sz) [0..<?n - k]"
    by (subst (2) slice_items_upt) (simp add: take_map it'_def)
  then show ?thesis using slice_items_of_len [OF d slice_sz_pos [OF assms(1)]] by simp
qed

lemma probe_single:
  assumes "sz \<noteq> 0" "sz \<le> 4096" "tmp \<noteq> p" "readable m tmp" "writable m tmp"
  shows "probe_checked writeback sz tmp p 1 m =
    (if probe_ok writeback m p then Returned (Inr (), poke m tmp (mbyte m p))
     else Killed (sig_to_except SIGSEGV))"
proof -
  have "unat (4095 + sz) = 4095 + unat sz"
    using assms(2) unat_add_64 [of 4095 sz] by (simp add: word_le_nat_alt)
  moreover have "0 < unat sz" "unat sz \<le> 4096"
    using assms(1,2) by (simp_all add: word_le_nat_alt unat_gt_0)
  ultimately have n: "unat ((4095 + sz) div 4096) = Suc 0"
    by (simp add: unat_div_distrib)
  show ?thesis
    using probe_one_spec [OF assms(3-5), of writeback]
      probe_one_spec [of tmp p "poke m tmp (mbyte m p)" writeback] assms
    by (simp add: probe_checked_def n del: sig_to_except.simps)
qed

text \<open>What one probed element gives, for elements of at most a page.\<close>

definition visit :: "bool \<Rightarrow> u64 \<Rightarrow> mem \<Rightarrow> u64 \<Rightarrow> slice_iter \<Rightarrow>
    ((access_error + u64) option \<times> slice_iter \<times> mem) outcome" where
  "visit writeback tmp m p it' =
     (if readable m p \<and> (writeback \<longrightarrow> writable m p)
      then Returned (Some (Inr p), it', m\<lparr>mbyte := (mbyte m)(tmp := mbyte m p)\<rparr>)
      else Killed (sig_to_except SIGSEGV))"

lemma probed_visit:
  assumes "sz \<noteq> 0" "sz \<le> 4096" "tmp \<noteq> p" "readable m tmp" "writable m tmp"
  shows "probed writeback sz tmp p it' m = visit writeback tmp m p it'"
  using probe_single [OF assms, of writeback]
  by (auto simp: probed_def visit_def probe_ok_def poke_def simp del: sig_to_except.simps)

lemma slice_empty_iff: "slice_wf sz it \<Longrightarrow> it_pos it = it_end it \<longleftrightarrow> slice_items sz it = []"
  using slice_wf_end(2) [of sz it] by (auto simp: slice_items_def)

lemma slice_next_spec:
  assumes "slice_wf sz it" "sz \<le> 4096" "tmp \<notin> set (slice_items sz it)" "readable m tmp" "writable m tmp"
  shows "case slice_items sz it of
       [] \<Rightarrow> slice_next wb sz tmp it m = Returned (None, it, m)
     | p # ps \<Rightarrow> \<exists>it'. slice_wf sz it' \<and> slice_items sz it' = ps \<and>
         slice_next wb sz tmp it m = visit wb tmp m p it'"
proof (cases "slice_items sz it")
  case Nil
  then show ?thesis using slice_empty_iff [OF assms(1)] by (simp add: slice_next_def)
next
  case (Cons p ps)
  then have p: "p = it_pos it" using nth_slice_items [of 0 sz it] by simp
  have "sz \<noteq> 0" using assms(1) by (simp add: slice_wf_def)
  then have "slice_next wb sz tmp it m = visit wb tmp m p (it\<lparr>it_pos := it_pos it + sz\<rparr>)"
    using Cons slice_empty_iff [OF assms(1)] assms
    by (simp add: slice_next_def p probed_visit)
  then show ?thesis using Cons slice_drop [OF assms(1), of 1] by auto
qed

lemma slice_next_back_spec:
  assumes "slice_wf sz it" "sz \<le> 4096" "tmp \<notin> set (slice_items sz it)" "readable m tmp" "writable m tmp"
  shows "case rev (slice_items sz it) of
       [] \<Rightarrow> slice_next_back wb sz tmp it m = Returned (None, it, m)
     | p # ps \<Rightarrow> \<exists>it'. slice_wf sz it' \<and> slice_items sz it' = rev ps \<and>
         slice_next_back wb sz tmp it m = visit wb tmp m p it'"
proof (cases "slice_items sz it" rule: rev_cases)
  case Nil
  then show ?thesis using slice_empty_iff [OF assms(1)] by (simp add: slice_next_back_def)
next
  case (snoc ps p)
  let ?n = "length ps"
  from snoc have "p = slice_items sz it ! ?n" by simp
  also have "\<dots> = it_pos it + of_nat ?n * sz" using snoc nth_slice_items [of ?n sz it] by simp
  also have "\<dots> = it_end it - sz"
    using slice_wf_end(2) [OF assms(1)] snoc by (simp add: algebra_simps)
  finally have p: "p = it_end it - sz" .
  have "sz \<noteq> 0" using assms(1) by (simp add: slice_wf_def)
  then have "slice_next_back wb sz tmp it m = visit wb tmp m p (it\<lparr>it_end := it_end it - sz\<rparr>)"
    using snoc slice_empty_iff [OF assms(1)] assms
    by (simp add: slice_next_back_def p probed_visit)
  then show ?thesis using snoc slice_take [OF assms(1), of 1] by auto
qed

lemma slice_length_bound: "length (slice_items sz it) < 2 ^ 64"
  unfolding slice_items_def length_map length_upt diff_zero
  by (rule le_less_trans [OF div_le_dividend unat_lt_64])

lemma slice_advance_by_spec:
  assumes "slice_wf sz it"
  shows "if n \<le> slice_len sz it
     then \<exists>it'. slice_wf sz it' \<and> slice_items sz it' = drop (unat n) (slice_items sz it) \<and>
            slice_advance_by sz it n = (Inr (), it')
     else slice_advance_by sz it n = (Inl (n - slice_len sz it), it)"
proof (cases "n \<le> slice_len sz it")
  case True
  then have "unat n \<le> length (slice_items sz it)"
    using slice_len_items [OF assms] slice_length_bound [of sz it]
    by (simp add: word_le_nat_alt unat_of_nat_64)
  from slice_drop [OF assms this] show ?thesis
    using True by (auto simp: slice_advance_by_def Let_def)
qed (simp add: slice_advance_by_def Let_def)

lemma slice_new_spec:
  assumes "unat base + unat len * unat sz < 2 ^ 64" "sz \<noteq> 0"
  shows "slice_wf sz (slice_new_unchecked sz base len) \<and>
    slice_items sz (slice_new_unchecked sz base len) = map (\<lambda>i. base + of_nat i * sz) [0..<unat len]"
proof -
  have "unat (len * sz) = unat len * unat sz" using assms(1) by (intro unat_mult_64) simp
  moreover have "0 < unat sz" using assms(2) by (auto simp: unsigned_eq_0_iff intro: gr0I)
  ultimately show ?thesis
    using slice_items_of_len [of "slice_new_unchecked sz base len" "unat len" sz]
    by (simp add: slice_new_unchecked_def)
qed

text \<open>
  C20. The iterator over a caller's slice behaves as a double-ended queue of the addresses of its
  elements: a new one holds \<open>base, base + sz, \<dots>\<close> in order; the length is the number of elements
  left; \<open>next\<close> takes the first, \<open>next_back\<close> the last, each after probing it, and \<open>None\<close> comes
  exactly at the end; \<open>advance_by\<close> drops that many, or reports how many are missing.
\<close>

theorem slice_iter_refines:
  assumes "slice_wf sz it" "sz \<le> 4096" "tmp \<notin> set (slice_items sz it)" "readable m tmp" "writable m tmp"
  shows "slice_len sz it = of_nat (length (slice_items sz it)) \<and>
    (case slice_items sz it of
       [] \<Rightarrow> slice_next wb sz tmp it m = Returned (None, it, m)
     | p # ps \<Rightarrow> \<exists>it'. slice_wf sz it' \<and> slice_items sz it' = ps \<and>
         slice_next wb sz tmp it m = visit wb tmp m p it') \<and>
    (case rev (slice_items sz it) of
       [] \<Rightarrow> slice_next_back wb sz tmp it m = Returned (None, it, m)
     | p # ps \<Rightarrow> \<exists>it'. slice_wf sz it' \<and> slice_items sz it' = rev ps \<and>
         slice_next_back wb sz tmp it m = visit wb tmp m p it') \<and>
    (if n \<le> slice_len sz it
     then \<exists>it'. slice_wf sz it' \<and> slice_items sz it' = drop (unat n) (slice_items sz it) \<and>
            slice_advance_by sz it n = (Inr (), it')
     else slice_advance_by sz it n = (Inl (n - slice_len sz it), it)) \<and>
    (unat base + unat len * unat sz < 2 ^ 64 \<longrightarrow>
       slice_wf sz (slice_new_unchecked sz base len) \<and>
       slice_items sz (slice_new_unchecked sz base len) =
         map (\<lambda>i. base + of_nat i * sz) [0..<unat len])"
  using slice_len_items [OF assms(1)] slice_next_spec [OF assms] slice_next_back_spec [OF assms]
    slice_advance_by_spec [OF assms(1)] slice_new_spec [of base len sz] assms(1)
  unfolding slice_wf_def [of sz it] by (intro conjI impI) simp_all

theorem slice_iter_refines_witness:
  "slice_next_back True 8 0x500 \<lparr>it_pos = 0x100, it_end = 0x118\<rparr> demo_mem =
     visit True 0x500 demo_mem 0x110 \<lparr>it_pos = 0x100, it_end = 0x110\<rparr> \<and>
   slice_len 8 \<lparr>it_pos = 0x100, it_end = 0x118\<rparr> = 3"
proof -
  let ?it = "\<lparr>it_pos = 0x100, it_end = 0x118\<rparr>"
  have u: "[0..<3] = [0, 1, 2 :: nat]" by (simp add: upt_rec)
  have wf: "slice_wf 8 ?it" by (simp add: slice_wf_def)
  have items: "slice_items 8 ?it = [0x100, 0x108, 0x110]" by (simp add: slice_items_def u)
  show ?thesis
    using slice_iter_refines [OF wf, of "0x500" demo_mem True 0 0 0]
    by (simp add: items) (auto simp: demo_mem_def slice_next_back_def probed_visit)
qed

section \<open>Validation of option heads\<close>

text \<open>
  The head of an extended option is accepted exactly when every byte besides the type and the
  flags is zero and each flag that is set is the standard flag 0 or one of the upper sixteen the
  caller allows.
\<close>

theorem validate_option_head_iff:
  "validate_option_head h tbits = Inr () \<longleftrightarrow>
     list_all ((=) 0) (head_rest h) \<and>
     (\<forall>i < 32. bit (head_flags h) i \<longrightarrow> i = 0 \<or> (16 \<le> i \<and> bit tbits (i - 16)))"
proof -
  have z: "xs = replicate (length xs) 0 \<longleftrightarrow> list_all ((=) 0) xs" for xs :: bytes
    by (induction xs) auto
  have r: "h = \<lparr>head_ty = head_ty h, head_flags = head_flags h,
              head_rest = replicate (length (head_rest h)) 0\<rparr> \<longleftrightarrow> list_all ((=) 0) (head_rest h)"
    by (cases h) (simp add: z)
  have std: "bit (STANDARD_OPTION_MASK) i \<longleftrightarrow> i = 0" for i
    by (simp add: STANDARD_OPTION_MASK_def bit_1_iff)
  have "head_flags h AND NOT (STANDARD_OPTION_MASK OR push_bit 16 (ucast tbits)) = 0 \<longleftrightarrow>
      (\<forall>i < 32. bit (head_flags h) i \<longrightarrow> i = 0 \<or> (16 \<le> i \<and> bit tbits (i - 16)))"
    by (auto simp: bit_eq_iff std bit_and_iff bit_or_iff bit_not_iff bit_push_bit_iff
        unsigned_ucast_eq bit_ucast_iff)
  with r show ?thesis
    by (auto simp: validate_option_head_def Let_def)
qed

theorem validate_option_head_iff_witness:
  "validate_option_head \<lparr>head_ty = [], head_flags = 0x40001, head_rest = [0, 0]\<rparr> 4 = Inr () \<and>
   bit (4 :: u16) 2"
proof -
  have v: "validate_option_head \<lparr>head_ty = [], head_flags = 0x40001, head_rest = [0, 0]\<rparr> 4 = Inr ()"
    by code_simp
  have b: "bit (0x40001 :: u32) 18" by code_simp
  from iffD1 [OF validate_option_head_iff v, unfolded option_head.select_convs]
  have "\<forall>i < 32. bit (0x40001 :: u32) i \<longrightarrow> i = 0 \<or> (16 \<le> i \<and> bit (4 :: u16) (i - 16))" by blast
  from this [rule_format, OF _ b] v show ?thesis by simp
qed

end
