(* ===== verification/WL_Utf8.thy ===== *)
theory WL_Utf8
  imports WL_Access
begin

text \<open>
  Validation of a caller's string (\<open>check_utf8\<close> in \<open>wl-impl/src/helpers.rs\<close>): the byte automaton,
  the loop that copies the string in pieces of 32 bytes into a local buffer, what the automaton
  accepts, and which bytes of the string the loop looks at.
\<close>

section \<open>The byte automaton\<close>

record utf8_state =
  cur_char_size :: nat
  cur_char_init_size :: nat
  cur_char_val :: u32

definition utf8_init :: utf8_state where
  "utf8_init = \<lparr>cur_char_size = 0, cur_char_init_size = 0, cur_char_val = 0\<rparr>"

datatype check_utf_error = Access access_error | InvalidUtf8

text \<open>\<open>char::from_u32\<close> and \<open>char::len_utf8\<close> of the standard library.\<close>

definition char_from_u32 :: "u32 \<Rightarrow> u32 option" where
  "char_from_u32 v = (if v < 0xD800 \<or> (0xE000 \<le> v \<and> v < 0x110000) then Some v else None)"

definition len_utf8 :: "u32 \<Rightarrow> nat" where
  "len_utf8 c = (if c < 0x80 then 1 else if c < 0x800 then 2 else if c < 0x10000 then 3 else 4)"

definition utf8_step :: "u8 \<Rightarrow> utf8_state \<Rightarrow> check_utf_error + utf8_state" where
  "utf8_step v st =
     (if 0x80 \<le> v \<and> v < 0xC0 then
        if cur_char_size st \<noteq> 0 then
          let val = push_bit 6 (cur_char_val st) OR ucast (v AND 0x3F);
              size = cur_char_size st - 1;
              st' = st\<lparr>cur_char_val := val, cur_char_size := size\<rparr>
          in if size = 0 then
               (case char_from_u32 val of
                  None \<Rightarrow> Inl InvalidUtf8
                | Some c \<Rightarrow> if len_utf8 c \<noteq> cur_char_init_size st then Inl InvalidUtf8 else Inr st')
             else Inr st'
        else Inl InvalidUtf8
      else if cur_char_size st \<noteq> 0 then Inl InvalidUtf8
      else if v < 0x80 then Inr st
      else if 0xC0 \<le> v \<and> v < 0xE0 then
        Inr \<lparr>cur_char_size = 1, cur_char_init_size = 2, cur_char_val = ucast (v AND 0x1F)\<rparr>
      else if 0xE0 \<le> v \<and> v < 0xF0 then
        Inr \<lparr>cur_char_size = 2, cur_char_init_size = 3, cur_char_val = ucast (v AND 0xF)\<rparr>
      else if 0xF0 \<le> v \<and> v < 0xF8 then
        Inr \<lparr>cur_char_size = 3, cur_char_init_size = 4, cur_char_val = ucast (v AND 0x7)\<rparr>
      else Inl InvalidUtf8)"

fun utf8_run :: "bytes \<Rightarrow> utf8_state \<Rightarrow> check_utf_error + utf8_state" where
  "utf8_run [] st = Inr st"
| "utf8_run (v # vs) st = and_then (utf8_step v st) (utf8_run vs)"

section \<open>The loop over the string\<close>

record kstr_cptr =
  str_ptr :: u64
  str_len :: usize

text \<open>\<open>tmp\<close> is the address of the local \<open>buf\<close> of 32 bytes, which each iteration clears.\<close>

function check_utf8_loop ::
    "u64 \<Rightarrow> u64 \<Rightarrow> usize \<Rightarrow> utf8_state \<Rightarrow> mem \<Rightarrow> ((check_utf_error + unit) \<times> mem) outcome" where
  "check_utf8_loop tmp ptr len st m =
     (if len = 0 then Returned (Inr (), m)
      else let tlen = min len 32 in
        case copy_nonoverlapping_checked 1 ptr tmp tlen (put_bytes m tmp (replicate 32 0)) of
          Killed e \<Rightarrow> Killed e
        | Returned (Inl e, m') \<Rightarrow> Returned (Inl (Access e), m')
        | Returned (Inr u, m') \<Rightarrow>
            (case utf8_run (take (unat tlen) (bytes_at m' tmp 32)) st of
               Inl e \<Rightarrow> Returned (Inl e, m')
             | Inr st' \<Rightarrow> check_utf8_loop tmp (ptr + tlen) (len - tlen) st' m'))"
  by pat_completeness auto

termination
  by (relation "measure (\<lambda>(tmp, ptr, len, st, m). unat len)") (auto intro: unat_sub_less)

declare check_utf8_loop.simps [simp del]

definition check_utf8 ::
    "u64 \<Rightarrow> kstr_cptr \<Rightarrow> mem \<Rightarrow> ((check_utf_error + kstr_cptr) \<times> mem) outcome" where
  "check_utf8 tmp kstr m =
     (case check_utf8_loop tmp (str_ptr kstr) (str_len kstr) utf8_init m of
        Killed e \<Rightarrow> Killed e
      | Returned (Inl e, m') \<Rightarrow> Returned (Inl e, m')
      | Returned (Inr u, m') \<Rightarrow> Returned (Inr kstr, m'))"

section \<open>Encoded text\<close>

text \<open>
  The specification: a text is a sequence of Unicode scalar values, each of which encodes to one to
  four bytes.
\<close>

definition scalar :: "nat \<Rightarrow> bool" where
  "scalar c \<longleftrightarrow> c < 0xD800 \<or> (0xE000 \<le> c \<and> c < 0x110000)"

definition utf8_encode :: "nat \<Rightarrow> bytes" where
  "utf8_encode c = map of_nat
     (if c < 0x80 then [c]
      else if c < 0x800 then [0xC0 + c div 64, 0x80 + c mod 64]
      else if c < 0x10000 then [0xE0 + c div 4096, 0x80 + c div 64 mod 64, 0x80 + c mod 64]
      else [0xF0 + c div 262144, 0x80 + c div 4096 mod 64, 0x80 + c div 64 mod 64, 0x80 + c mod 64])"

definition valid_utf8 :: "bytes \<Rightarrow> bool" where
  "valid_utf8 bs \<longleftrightarrow> (\<exists>cs. list_all scalar cs \<and> bs = concat (map utf8_encode cs))"

section \<open>What the automaton accepts\<close>

text \<open>The automaton on byte values as numbers.\<close>

definition cont :: "u8 \<Rightarrow> bool" where
  "cont v \<longleftrightarrow> 0x80 \<le> unat v \<and> unat v < 0xC0"

lemma cont_iff: "0x80 \<le> v \<and> v < 0xC0 \<longleftrightarrow> cont v"
  by (simp add: cont_def word_le_nat_alt word_less_nat_alt)

lemma and_mask_nat:
  "unat (ucast (v AND mask n :: u8) :: u32) = unat v mod 2 ^ n" if "n \<le> 8" for v :: u8
proof -
  have "unat (v AND mask n) = take_bit n (unat v)"
    by (simp only: take_bit_eq_mask [symmetric] unsigned_take_bit_eq)
  then have "unat (v AND mask n) = unat v mod 2 ^ n" by (simp add: take_bit_eq_mod)
  moreover have "unat (ucast (w :: u8) :: u32) = unat w" for w
  proof -
    have "unat w < 2 ^ 32" using unsigned_less [of w] by (rule less_le_trans) simp
    then have "take_bit 32 (unat w) = unat w" by (rule take_bit_nat_eq_self)
    then show ?thesis by (simp add: unsigned_ucast_eq)
  qed
  ultimately show ?thesis by simp
qed

lemma lead_vals:
  fixes v :: u8
  shows "unat (ucast (v AND 0x3F) :: u32) = unat v mod 64"
    and "unat (ucast (v AND 0x1F) :: u32) = unat v mod 32"
    and "unat (ucast (v AND 0xF) :: u32) = unat v mod 16"
    and "unat (ucast (v AND 0x7) :: u32) = unat v mod 8"
  using and_mask_nat [of 6 v] and_mask_nat [of 5 v] and_mask_nat [of 4 v] and_mask_nat [of 3 v]
  by (simp_all add: mask_eq_exp_minus_1)

lemma cont_val:
  fixes c w :: u32
  assumes "unat c < 2 ^ 26" "unat w < 64"
  shows "unat (push_bit 6 c OR w) = unat c * 64 + unat w"
proof -
  have "take_bit 6 w = w"
    using assms(2) by (simp only: word_unat_eq_iff unsigned_take_bit_eq) (simp add: take_bit_nat_eq_self)
  then have hi: "\<not> bit w i" if "6 \<le> i" for i using that by (metis bit_take_bit_iff not_less)
  have "push_bit 6 c AND w = 0"
  proof (rule bit_eqI)
    fix i
    show "bit (push_bit 6 c AND w) i = bit 0 i"
      using hi [of i] by (cases "6 \<le> i") (simp_all add: bit_and_iff bit_push_bit_iff)
  qed
  then have "push_bit 6 c OR w = push_bit 6 c + w"
    by (rule disjunctive_add_eq_or [symmetric])
  moreover have "push_bit 6 c = c * 64" by (simp add: push_bit_eq_mult)
  moreover have "unat (c * 64 + w) = unat c * 64 + unat w"
    using assms by (simp add: unat_word_ariths)
  ultimately show ?thesis by simp
qed

lemma char_from_u32_scalar:
  "char_from_u32 v = (if scalar (unat v) then Some v else None)"
proof -
  have "v < 0xD800 \<longleftrightarrow> unat v < 0xD800" "0xE000 \<le> v \<longleftrightarrow> 0xE000 \<le> unat v"
    "v < 0x110000 \<longleftrightarrow> unat v < 0x110000"
    by (simp_all add: word_less_nat_alt word_le_nat_alt)
  then show ?thesis unfolding char_from_u32_def scalar_def by (simp only:)
qed

definition enc_len :: "nat \<Rightarrow> nat" where
  "enc_len c = (if c < 0x80 then 1 else if c < 0x800 then 2 else if c < 0x10000 then 3 else 4)"

lemma len_utf8_nat: "len_utf8 v = enc_len (unat v)"
proof -
  have "v < 0x80 \<longleftrightarrow> unat v < 0x80" "v < 0x800 \<longleftrightarrow> unat v < 0x800" "v < 0x10000 \<longleftrightarrow> unat v < 0x10000"
    by (simp_all add: word_less_nat_alt)
  then show ?thesis unfolding len_utf8_def enc_len_def by (simp only:)
qed

lemma cont_step:
  assumes "cur_char_size st = Suc k" "cont v" "unat (cur_char_val st) = a" "a < 2 ^ 26"
  shows "\<exists>w. unat w = a * 64 + unat v mod 64 \<and>
    utf8_step v st =
      (if k = 0 \<and> \<not> (scalar (unat w) \<and> enc_len (unat w) = cur_char_init_size st) then Inl InvalidUtf8
       else Inr \<lparr>cur_char_size = k, cur_char_init_size = cur_char_init_size st, cur_char_val = w\<rparr>)"
proof (intro exI conjI)
  let ?w = "push_bit 6 (cur_char_val st) OR ucast (v AND 0x3F)"
  show "unat ?w = a * 64 + unat v mod 64"
    using assms(3,4) cont_val [of "cur_char_val st" "ucast (v AND 0x3F)"] by (simp add: lead_vals)
  have c: "0x80 \<le> v \<and> v < 0xC0"
    using assms(2) by (simp add: cont_def word_le_nat_alt word_less_nat_alt)
  then show "utf8_step v st =
      (if k = 0 \<and> \<not> (scalar (unat ?w) \<and> enc_len (unat ?w) = cur_char_init_size st) then Inl InvalidUtf8
       else Inr \<lparr>cur_char_size = k, cur_char_init_size = cur_char_init_size st, cur_char_val = ?w\<rparr>)"
    using assms(1) by (cases st) (simp add: utf8_step_def char_from_u32_scalar len_utf8_nat Let_def)
qed

lemma noncont_step: "cur_char_size st \<noteq> 0 \<Longrightarrow> \<not> cont v \<Longrightarrow> utf8_step v st = Inl InvalidUtf8"
  unfolding utf8_step_def cont_iff by simp

lemma byte_bounds:
  fixes v :: u8
  shows "v < 0x80 \<longleftrightarrow> unat v < 0x80" "0xC0 \<le> v \<longleftrightarrow> 0xC0 \<le> unat v" "v < 0xE0 \<longleftrightarrow> unat v < 0xE0"
    "0xE0 \<le> v \<longleftrightarrow> 0xE0 \<le> unat v" "v < 0xF0 \<longleftrightarrow> unat v < 0xF0" "0xF0 \<le> v \<longleftrightarrow> 0xF0 \<le> unat v"
    "v < 0xF8 \<longleftrightarrow> unat v < 0xF8"
  by (simp_all add: word_le_nat_alt word_less_nat_alt)

lemma lead_step:
  assumes "cur_char_size st = 0"
  shows "unat v < 0x80 \<Longrightarrow> utf8_step v st = Inr st"
    and "0xC0 \<le> unat v \<Longrightarrow> unat v < 0xE0 \<Longrightarrow>
      utf8_step v st = Inr \<lparr>cur_char_size = 1, cur_char_init_size = 2, cur_char_val = ucast (v AND 0x1F)\<rparr>"
    and "0xE0 \<le> unat v \<Longrightarrow> unat v < 0xF0 \<Longrightarrow>
      utf8_step v st = Inr \<lparr>cur_char_size = 2, cur_char_init_size = 3, cur_char_val = ucast (v AND 0xF)\<rparr>"
    and "0xF0 \<le> unat v \<Longrightarrow> unat v < 0xF8 \<Longrightarrow>
      utf8_step v st = Inr \<lparr>cur_char_size = 3, cur_char_init_size = 4, cur_char_val = ucast (v AND 0x7)\<rparr>"
    and "cont v \<or> 0xF8 \<le> unat v \<Longrightarrow> utf8_step v st = Inl InvalidUtf8"
  using assms unfolding utf8_step_def cont_iff byte_bounds cont_def by auto

text \<open>Acceptance from the middle of a character on consumes a continuation byte.\<close>

lemma pending_split:
  assumes "utf8_run vs st = Inr st'" "cur_char_size st' = 0" "cur_char_size st = Suc k"
    and "unat (cur_char_val st) = a" "a < 2 ^ 26"
  obtains v vs' w where "vs = v # vs'" "cont v" "unat w = a * 64 + unat v mod 64"
    "k = 0 \<longrightarrow> scalar (unat w) \<and> enc_len (unat w) = cur_char_init_size st"
    "utf8_run vs' \<lparr>cur_char_size = k, cur_char_init_size = cur_char_init_size st, cur_char_val = w\<rparr> = Inr st'"
proof (cases vs)
  case Nil
  then show ?thesis using assms by simp
next
  case (Cons v vs')
  have "cont v"
    using assms(1,3) Cons noncont_step [of st v] by (cases "cont v") auto
  moreover obtain w where "unat w = a * 64 + unat v mod 64" "utf8_step v st =
      (if k = 0 \<and> \<not> (scalar (unat w) \<and> enc_len (unat w) = cur_char_init_size st) then Inl InvalidUtf8
       else Inr \<lparr>cur_char_size = k, cur_char_init_size = cur_char_init_size st, cur_char_val = w\<rparr>)"
    using cont_step [OF assms(3) \<open>cont v\<close> assms(4,5)] by blast
  ultimately show ?thesis using that [of v vs' w] assms(1) Cons by (auto split: if_splits)
qed

lemma u8_of_nat: "x < 256 \<Longrightarrow> unat (of_nat x :: u8) = x"
  by (simp add: unat_of_nat take_bit_eq_mod)

lemma u8_eq_of_nat: "x = unat (v :: u8) \<Longrightarrow> of_nat x = v"
  by simp

lemma cont_run:
  assumes "cur_char_size st = Suc k" "unat (cur_char_val st) = a" "a < 2 ^ 26" "x < 64"
    and "k = 0 \<longrightarrow> scalar (a * 64 + x) \<and> enc_len (a * 64 + x) = cur_char_init_size st"
  shows "\<exists>w. unat w = a * 64 + x \<and> utf8_run (of_nat (0x80 + x) # vs) st =
    utf8_run vs \<lparr>cur_char_size = k, cur_char_init_size = cur_char_init_size st, cur_char_val = w\<rparr>"
proof -
  have u: "unat (of_nat (0x80 + x) :: u8) = 0x80 + x" using assms(4) by (intro u8_of_nat) simp
  have c: "cont (of_nat (0x80 + x))" unfolding cont_def u using assms(4) by simp
  have m: "(0x80 + x) mod 64 = x"
    using assms(4) mod_mult_self1 [of x 2 64] by (simp add: add.commute)
  obtain w where w: "unat w = a * 64 + x" and st: "utf8_step (of_nat (0x80 + x)) st =
      (if k = 0 \<and> \<not> (scalar (unat w) \<and> enc_len (unat w) = cur_char_init_size st) then Inl InvalidUtf8
       else Inr \<lparr>cur_char_size = k, cur_char_init_size = cur_char_init_size st, cur_char_val = w\<rparr>)"
    using cont_step [OF assms(1) c assms(2,3)] unfolding u m by blast
  have "\<not> (k = 0 \<and> \<not> (scalar (unat w) \<and> enc_len (unat w) = cur_char_init_size st))"
    using assms(5) unfolding w by blast
  from st [unfolded if_not_P [OF this]] w show ?thesis
    unfolding utf8_run.simps by (intro exI [of _ w] conjI) (simp_all only: and_then.simps)
qed

lemma utf8_run_append:
  "utf8_run (xs @ ys) st = and_then (utf8_run xs st) (utf8_run ys)"
proof (induction xs arbitrary: st)
  case (Cons x xs)
  then show ?case by (cases "utf8_step x st") auto
qed simp

lemma lead_run:
  assumes "utf8_step (of_nat n) st = Inr \<lparr>cur_char_size = k, cur_char_init_size = i, cur_char_val = w\<rparr>"
    and "unat w = x"
  shows "\<exists>w. unat w = x \<and> utf8_run (of_nat n # vs) st =
    utf8_run vs \<lparr>cur_char_size = k, cur_char_init_size = i, cur_char_val = w\<rparr>"
  unfolding utf8_run.simps assms(1) and_then.simps using assms(2) by blast

lemma lead_run2:
  assumes "cur_char_size st = 0" "x < 32"
  shows "\<exists>w. unat w = x \<and> utf8_run (of_nat (0xC0 + x) # vs) st =
    utf8_run vs \<lparr>cur_char_size = 1, cur_char_init_size = 2, cur_char_val = w\<rparr>"
proof (rule lead_run)
  have u: "unat (of_nat (0xC0 + x) :: u8) = 0xC0 + x" using assms(2) by (intro u8_of_nat) simp
  have b: "0xC0 \<le> unat (of_nat (0xC0 + x) :: u8)" "unat (of_nat (0xC0 + x) :: u8) < 0xE0"
    unfolding u using assms(2) by simp_all
  show "utf8_step (of_nat (0xC0 + x)) st = Inr \<lparr>cur_char_size = 1,
      cur_char_init_size = 2, cur_char_val = ucast (of_nat (0xC0 + x) AND 0x1F :: u8)\<rparr>"
    by (rule lead_step(2) [OF assms(1) b])
  show "unat (ucast (of_nat (0xC0 + x) AND 0x1F :: u8) :: u32) = x"
    unfolding lead_vals u using assms(2) mod_mult_self1 [of x 6 32] by (simp add: add.commute)
qed

lemma lead_run3:
  assumes "cur_char_size st = 0" "x < 16"
  shows "\<exists>w. unat w = x \<and> utf8_run (of_nat (0xE0 + x) # vs) st =
    utf8_run vs \<lparr>cur_char_size = 2, cur_char_init_size = 3, cur_char_val = w\<rparr>"
proof (rule lead_run)
  have u: "unat (of_nat (0xE0 + x) :: u8) = 0xE0 + x" using assms(2) by (intro u8_of_nat) simp
  have b: "0xE0 \<le> unat (of_nat (0xE0 + x) :: u8)" "unat (of_nat (0xE0 + x) :: u8) < 0xF0"
    unfolding u using assms(2) by simp_all
  show "utf8_step (of_nat (0xE0 + x)) st = Inr \<lparr>cur_char_size = 2,
      cur_char_init_size = 3, cur_char_val = ucast (of_nat (0xE0 + x) AND 0xF :: u8)\<rparr>"
    by (rule lead_step(3) [OF assms(1) b])
  show "unat (ucast (of_nat (0xE0 + x) AND 0xF :: u8) :: u32) = x"
    unfolding lead_vals u using assms(2) mod_mult_self1 [of x 14 16] by (simp add: add.commute)
qed

lemma lead_run4:
  assumes "cur_char_size st = 0" "x < 8"
  shows "\<exists>w. unat w = x \<and> utf8_run (of_nat (0xF0 + x) # vs) st =
    utf8_run vs \<lparr>cur_char_size = 3, cur_char_init_size = 4, cur_char_val = w\<rparr>"
proof (rule lead_run)
  have u: "unat (of_nat (0xF0 + x) :: u8) = 0xF0 + x" using assms(2) by (intro u8_of_nat) simp
  have b: "0xF0 \<le> unat (of_nat (0xF0 + x) :: u8)" "unat (of_nat (0xF0 + x) :: u8) < 0xF8"
    unfolding u using assms(2) by simp_all
  show "utf8_step (of_nat (0xF0 + x)) st = Inr \<lparr>cur_char_size = 3,
      cur_char_init_size = 4, cur_char_val = ucast (of_nat (0xF0 + x) AND 0x7 :: u8)\<rparr>"
    by (rule lead_step(4) [OF assms(1) b])
  show "unat (ucast (of_nat (0xF0 + x) AND 0x7 :: u8) :: u32) = x"
    unfolding lead_vals u using assms(2) mod_mult_self1 [of x 30 8] by (simp add: add.commute)
qed

text \<open>The digits of a code point to the base 64, as the encoding lays them out.\<close>

lemma digits:
  fixes c :: nat
  shows "c div 4096 * 64 + c div 64 mod 64 = c div 64"
    and "c div 262144 * 64 + c div 4096 mod 64 = c div 4096"
    and "c div 64 * 64 + c mod 64 = c"
  using div_mult_mod_eq [of "c div 64" 64] div_mult_mod_eq [of "c div 4096" 64] div_mult_mod_eq [of c 64]
  by (simp_all add: div_mult2_eq [symmetric])

lemma tail_run:
  assumes "cur_char_size st = length ds" "unat (cur_char_val st) = a" "ds \<noteq> []"
    and "list_all (\<lambda>d. d < 64) ds" "c = foldl (\<lambda>a d. a * 64 + d) a ds"
    and "scalar c" "enc_len c = cur_char_init_size st"
  shows "\<exists>st'. utf8_run (map (\<lambda>d. of_nat (0x80 + d)) ds) st = Inr st' \<and> cur_char_size st' = 0"
  using assms
proof (induction ds arbitrary: st a)
  case (Cons d ds)
  have le: "x * 64 \<le> foldl (\<lambda>a d. a * 64 + d) x (y # ys)" for x y :: nat and ys
  proof (induction ys arbitrary: x y)
    case (Cons z ys)
    have "x * 64 \<le> (x * 64 + y) * 64" by simp
    also have "\<dots> \<le> foldl (\<lambda>a d. a * 64 + d) (x * 64 + y) (z # ys)" by (rule Cons)
    finally show ?case by simp
  qed simp
  have "a * 64 \<le> c" unfolding Cons.prems(5) by (rule le)
  then have a: "a < 2 ^ 26" using Cons.prems(6) by (auto simp: scalar_def)
  have "\<exists>w. unat w = a * 64 + d \<and> utf8_run (of_nat (0x80 + d) # map (\<lambda>d. of_nat (0x80 + d)) ds) st =
      utf8_run (map (\<lambda>d. of_nat (0x80 + d)) ds)
        \<lparr>cur_char_size = length ds, cur_char_init_size = cur_char_init_size st, cur_char_val = w\<rparr>"
    by (rule cont_run [OF _ Cons.prems(2) a]) (use Cons.prems in auto)
  then obtain w where w: "unat w = a * 64 + d"
    "utf8_run (of_nat (0x80 + d) # map (\<lambda>d. of_nat (0x80 + d)) ds) st =
      utf8_run (map (\<lambda>d. of_nat (0x80 + d)) ds)
        \<lparr>cur_char_size = length ds, cur_char_init_size = cur_char_init_size st, cur_char_val = w\<rparr>" by blast
  show ?case
  proof (cases ds)
    case Nil
    then show ?thesis using w(2) by (simp del: of_nat_add)
  next
    case (Cons d' ds')
    with Cons.IH [of "\<lparr>cur_char_size = length ds, cur_char_init_size = cur_char_init_size st,
        cur_char_val = w\<rparr>" "a * 64 + d"] Cons.prems w
    show ?thesis by simp
  qed
qed simp

lemma lead_tail:
  assumes "\<exists>w. unat w = a \<and> utf8_run (l # map (\<lambda>d. of_nat (0x80 + d)) ds) st =
      utf8_run (map (\<lambda>d. of_nat (0x80 + d)) ds)
        \<lparr>cur_char_size = length ds, cur_char_init_size = enc_len c, cur_char_val = w\<rparr>"
    and "ds \<noteq> []" "list_all (\<lambda>d. d < 64) ds" "foldl (\<lambda>a d. a * 64 + d) a ds = c" "scalar c"
    and "utf8_encode c = l # map (\<lambda>d. of_nat (0x80 + d)) ds"
  shows "\<exists>st'. utf8_run (utf8_encode c) st = Inr st' \<and> cur_char_size st' = 0"
proof -
  from assms(1) obtain w where w: "unat w = a" "utf8_run (l # map (\<lambda>d. of_nat (0x80 + d)) ds) st =
      utf8_run (map (\<lambda>d. of_nat (0x80 + d)) ds)
        \<lparr>cur_char_size = length ds, cur_char_init_size = enc_len c, cur_char_val = w\<rparr>" by blast
  show ?thesis
    unfolding assms(6) w(2)
    by (rule tail_run [OF _ _ assms(2,3) assms(4) [symmetric] assms(5)]) (simp_all add: w(1))
qed

lemma encode_accepted:
  assumes "scalar c" "cur_char_size st = 0"
  shows "\<exists>st'. utf8_run (utf8_encode c) st = Inr st' \<and> cur_char_size st' = 0"
proof -
  have c: "c < 0x110000" using assms(1) by (auto simp: scalar_def)
  consider (one) "c < 0x80" | (two) "0x80 \<le> c" "c < 0x800" | (three) "0x800 \<le> c" "c < 0x10000"
    | (four) "0x10000 \<le> c" "c < 0x110000" using c by linarith
  then show ?thesis
  proof cases
    case one
    then have "unat (of_nat c :: u8) < 0x80" by (simp add: u8_of_nat)
    then show ?thesis using one lead_step(1) [OF assms(2)] assms(2) by (simp add: utf8_encode_def)
  next
    case two
    then have "c div 64 < 32" "enc_len c = 2" by (linarith, simp add: enc_len_def)
    with lead_run2 [OF assms(2)] two assms(1) show ?thesis
      by (intro lead_tail [where ds = "[c mod 64]"
          and a = "c div 64" and l = "of_nat (0xC0 + c div 64)"])
        (simp_all add: utf8_encode_def digits del: of_nat_add utf8_run.simps)
  next
    case three
    then have "c div 4096 < 16" "enc_len c = 3" by (linarith, simp add: enc_len_def)
    with lead_run3 [OF assms(2)] three assms(1) show ?thesis
      by (intro lead_tail [where ds = "[c div 64 mod 64, c mod 64]"
          and a = "c div 4096" and l = "of_nat (0xE0 + c div 4096)"])
        (simp_all add: utf8_encode_def digits numeral_2_eq_2 del: of_nat_add utf8_run.simps)
  next
    case four
    then have "c div 262144 < 8" "enc_len c = 4" by (linarith, simp add: enc_len_def)
    with lead_run4 [OF assms(2)] four assms(1) show ?thesis
      by (intro lead_tail [where ds = "[c div 4096 mod 64, c div 64 mod 64, c mod 64]"
          and a = "c div 262144" and l = "of_nat (0xF0 + c div 262144)"])
        (simp_all add: utf8_encode_def digits numeral_3_eq_3 del: of_nat_add utf8_run.simps)
  qed
qed

lemma cont_digit:
  assumes "cont v"
  obtains y where "unat v = 0x80 + y" "y < 64" "unat v mod 64 = y" "v = of_nat (0x80 + y)"
proof -
  define y where "y = unat v - 0x80"
  have y: "unat v = 0x80 + y" "y < 64" using assms by (auto simp: cont_def y_def)
  then have "unat v mod 64 = y" using mod_mult_self1 [of y 2 64] by (simp add: add.commute)
  moreover have "v = of_nat (0x80 + y)" using u8_eq_of_nat [of "0x80 + y" v] y(1) by simp
  ultimately show ?thesis using that y by blast
qed

lemma digit_div: "x < 64 \<Longrightarrow> (a * 64 + x) div 64 = a" "x < 64 \<Longrightarrow> (a * 64 + x) mod 64 = x" for a x :: nat
  by simp_all

lemma tail_inv:
  assumes "utf8_run vs st = Inr st'" "cur_char_size st' = 0" "cur_char_size st = Suc n"
    and "unat (cur_char_val st) = a" "(a + 1) * 64 ^ n \<le> 2 ^ 26"
  shows "\<exists>ds rest w. length ds = Suc n \<and> list_all (\<lambda>d. d < 64) ds \<and>
    vs = map (\<lambda>d. of_nat (0x80 + d)) ds @ rest \<and>
    scalar (foldl (\<lambda>a d. a * 64 + d) a ds) \<and>
    enc_len (foldl (\<lambda>a d. a * 64 + d) a ds) = cur_char_init_size st \<and>
    utf8_run rest \<lparr>cur_char_size = 0, cur_char_init_size = cur_char_init_size st, cur_char_val = w\<rparr> = Inr st'"
  using assms
proof (induction n arbitrary: vs st a)
  case 0
  then have "a < 2 ^ 26" by simp
  obtain v vs' w where p: "vs = v # vs'" "cont v" "unat w = a * 64 + unat v mod 64"
    "0 = (0 :: nat) \<longrightarrow> scalar (unat w) \<and> enc_len (unat w) = cur_char_init_size st"
    "utf8_run vs' \<lparr>cur_char_size = 0, cur_char_init_size = cur_char_init_size st, cur_char_val = w\<rparr> = Inr st'"
    by (rule pending_split [OF 0(1-4) \<open>a < 2 ^ 26\<close>])
  obtain y where y: "y < 64" "unat v mod 64 = y" "v = of_nat (0x80 + y)" using cont_digit [OF p(2)] .
  show ?case
    using p y by (intro exI [of _ "[y]"] exI [of _ vs'] exI [of _ w]) simp
next
  case (Suc n)
  have "1 \<le> (64 :: nat) ^ Suc n" by simp
  then have "a + 1 \<le> (a + 1) * 64 ^ Suc n" by (metis mult.right_neutral mult_le_mono2)
  then have "a < 2 ^ 26" using Suc.prems(5) by linarith
  obtain v vs' w where p: "vs = v # vs'" "cont v" "unat w = a * 64 + unat v mod 64"
    "Suc n = 0 \<longrightarrow> scalar (unat w) \<and> enc_len (unat w) = cur_char_init_size st"
    "utf8_run vs' \<lparr>cur_char_size = Suc n, cur_char_init_size = cur_char_init_size st, cur_char_val = w\<rparr> = Inr st'"
    by (rule pending_split [OF Suc.prems(1-4) \<open>a < 2 ^ 26\<close>])
  obtain y where y: "y < 64" "unat v mod 64 = y" "v = of_nat (0x80 + y)" using cont_digit [OF p(2)] .
  have "(a * 64 + y + 1) * 64 ^ n \<le> (a + 1) * 64 * 64 ^ n" using y(1) by (intro mult_le_mono1) simp
  also have "\<dots> \<le> 2 ^ 26" using Suc.prems(5) by (simp add: algebra_simps)
  finally have b: "(a * 64 + y + 1) * 64 ^ n \<le> 2 ^ 26" .
  from Suc.IH [OF p(5) Suc.prems(2) _ _ b] p(3) y(2) obtain ds rest w'
    where "length ds = Suc n" "list_all (\<lambda>d. d < 64) ds" "vs' = map (\<lambda>d. of_nat (0x80 + d)) ds @ rest"
      "scalar (foldl (\<lambda>a d. a * 64 + d) (a * 64 + y) ds)"
      "enc_len (foldl (\<lambda>a d. a * 64 + d) (a * 64 + y) ds) = cur_char_init_size st"
      "utf8_run rest \<lparr>cur_char_size = 0, cur_char_init_size = cur_char_init_size st, cur_char_val = w'\<rparr> = Inr st'"
    by auto
  then show ?case
    using p(1) y by (intro exI [of _ "y # ds"] exI [of _ rest] exI [of _ w']) simp
qed

lemma lead_digit:
  fixes v :: u8
  assumes "k * m \<le> unat v" "unat v < k * m + m"
  obtains y where "unat v = k * m + y" "y < m" "unat v mod m = y" "v = of_nat (k * m + y)"
proof -
  define y where "y = unat v - k * m"
  have y: "unat v = k * m + y" "y < m" using assms by (auto simp: y_def)
  then have "unat v mod m = y" by simp
  moreover have "v = of_nat (k * m + y)" using u8_eq_of_nat [of "k * m + y" v] y(1) by simp
  ultimately show ?thesis using that y by blast
qed

lemma decode_multi:
  assumes "utf8_run (v # vs) st = Inr st'" "cur_char_size st' = 0"
    and step: "utf8_step v st = Inr \<lparr>cur_char_size = Suc n, cur_char_init_size = i, cur_char_val = w\<rparr>"
    and "unat w = y" "(y + 1) * 64 ^ n \<le> 2 ^ 26"
    and enc: "\<And>ds. length ds = Suc n \<Longrightarrow> list_all (\<lambda>d. d < 64) ds \<Longrightarrow>
      enc_len (foldl (\<lambda>a d. a * 64 + d) y ds) = i \<Longrightarrow>
      utf8_encode (foldl (\<lambda>a d. a * 64 + d) y ds) = v # map (\<lambda>d. of_nat (0x80 + d)) ds"
  shows "\<exists>c rest st1. scalar c \<and> v # vs = utf8_encode c @ rest \<and> cur_char_size st1 = 0 \<and>
    utf8_run rest st1 = Inr st'"
proof -
  let ?s = "\<lparr>cur_char_size = Suc n, cur_char_init_size = i, cur_char_val = w\<rparr>"
  have "utf8_run vs ?s = Inr st'" using assms(1) step by simp
  from tail_inv [OF this assms(2), of n y] assms(4,5) obtain ds rest w'
    where d: "length ds = Suc n" "list_all (\<lambda>d. d < 64) ds" "vs = map (\<lambda>d. of_nat (0x80 + d)) ds @ rest"
      "scalar (foldl (\<lambda>a d. a * 64 + d) y ds)" "enc_len (foldl (\<lambda>a d. a * 64 + d) y ds) = i"
      "utf8_run rest \<lparr>cur_char_size = 0, cur_char_init_size = i, cur_char_val = w'\<rparr> = Inr st'"
    by auto
  from enc [OF d(1,2,5)] d show ?thesis
    by (intro exI [of _ "foldl (\<lambda>a d. a * 64 + d) y ds"] exI [of _ rest]
        exI [of _ "\<lparr>cur_char_size = 0, cur_char_init_size = i, cur_char_val = w'\<rparr>"]) simp
qed

lemma encode_digits2:
  assumes "d1 < 64" "c = y * 64 + d1" "enc_len c = 2"
  shows "utf8_encode c = map of_nat [0xC0 + y, 0x80 + d1]"
proof -
  have "c div 64 = y" "c mod 64 = d1" using digit_div [OF assms(1)] assms(2) by simp_all
  then show ?thesis using assms(3) by (simp add: utf8_encode_def enc_len_def split: if_splits)
qed

lemma encode_digits3:
  assumes "d1 < 64" "d2 < 64" "c = (y * 64 + d1) * 64 + d2" "enc_len c = 3"
  shows "utf8_encode c = map of_nat [0xE0 + y, 0x80 + d1, 0x80 + d2]"
proof -
  have d: "c div 64 = y * 64 + d1" "c mod 64 = d2"
    unfolding assms(3) by (rule digit_div [OF assms(2)])+
  then have "c div 64 div 64 = y" "c div 64 mod 64 = d1" using digit_div [OF assms(1)] by simp_all
  then have "c div 4096 = y" "c div 64 mod 64 = d1" by (simp_all flip: div_mult2_eq)
  then show ?thesis using assms(4) d(2) by (simp add: utf8_encode_def enc_len_def split: if_splits)
qed

lemma encode_digits4:
  assumes "d1 < 64" "d2 < 64" "d3 < 64" "c = ((y * 64 + d1) * 64 + d2) * 64 + d3" "enc_len c = 4"
  shows "utf8_encode c = map of_nat [0xF0 + y, 0x80 + d1, 0x80 + d2, 0x80 + d3]"
proof -
  have d: "c div 64 = (y * 64 + d1) * 64 + d2" "c mod 64 = d3"
    unfolding assms(4) by (rule digit_div [OF assms(3)])+
  then have e: "c div 64 div 64 = y * 64 + d1" "c div 64 mod 64 = d2"
    by (simp_all only: digit_div [OF assms(2)])
  then have "c div 64 div 64 div 64 = y" "c div 64 div 64 mod 64 = d1"
    using digit_div [OF assms(1)] by simp_all
  then have "c div 262144 = y" "c div 4096 mod 64 = d1" by (simp_all flip: div_mult2_eq)
  then show ?thesis using assms(5) d(2) e(2) by (simp add: utf8_encode_def enc_len_def split: if_splits)
qed

lemma decode_first:
  assumes "utf8_run (v # vs) st = Inr st'" "cur_char_size st = 0" "cur_char_size st' = 0"
  shows "\<exists>c rest st1. scalar c \<and> v # vs = utf8_encode c @ rest \<and> cur_char_size st1 = 0 \<and>
    utf8_run rest st1 = Inr st'"
proof -
  consider (one) "unat v < 0x80" | (two) "0xC0 \<le> unat v" "unat v < 0xE0"
    | (three) "0xE0 \<le> unat v" "unat v < 0xF0" | (four) "0xF0 \<le> unat v" "unat v < 0xF8"
    | (bad) "cont v \<or> 0xF8 \<le> unat v" unfolding cont_def by linarith
  then show ?thesis
  proof cases
    case one
    then have "utf8_encode (unat v) = [v]" "scalar (unat v)" by (simp_all add: utf8_encode_def scalar_def)
    then show ?thesis
      using assms lead_step(1) [OF assms(2) one]
      by (intro exI [of _ "unat v"] exI [of _ vs] exI [of _ st]) simp
  next
    case two
    then have "6 * 32 \<le> unat v" "unat v < 6 * 32 + 32" by simp_all
    from lead_digit [OF this] obtain y
      where y: "y < 32" "unat v mod 32 = y" "v = of_nat (6 * 32 + y)" .
    have st: "utf8_step v st = Inr \<lparr>cur_char_size = Suc 0, cur_char_init_size = 2,
        cur_char_val = ucast (v AND 0x1F)\<rparr>"
      using lead_step(2) [OF assms(2) two] by (simp add: numeral_2_eq_2 numeral_3_eq_3)
    have val: "unat (ucast (v AND 0x1F) :: u32) = y" by (simp only: lead_vals y(2))
    show ?thesis
    proof (rule decode_multi [OF assms(1,3) st val])
      fix ds assume "length ds = Suc 0" "list_all (\<lambda>d. d < 64) ds"
        "enc_len (foldl (\<lambda>a d. a * 64 + d) y ds) = 2"
      then show "utf8_encode (foldl (\<lambda>a d. a * 64 + d) y ds) = v # map (\<lambda>d. of_nat (0x80 + d)) ds"
        unfolding y(3) using encode_digits2 [OF _ refl, of d1 y for d1]
        by (auto simp: length_Suc_conv numeral_2_eq_2 simp del: of_nat_add)
    qed (use y(1) in simp)
  next
    case three
    then have "14 * 16 \<le> unat v" "unat v < 14 * 16 + 16" by simp_all
    from lead_digit [OF this] obtain y
      where y: "y < 16" "unat v mod 16 = y" "v = of_nat (14 * 16 + y)" .
    have st: "utf8_step v st = Inr \<lparr>cur_char_size = Suc 1, cur_char_init_size = 3,
        cur_char_val = ucast (v AND 0xF)\<rparr>"
      using lead_step(3) [OF assms(2) three] by (simp add: numeral_2_eq_2 numeral_3_eq_3)
    have val: "unat (ucast (v AND 0xF) :: u32) = y" by (simp only: lead_vals y(2))
    show ?thesis
    proof (rule decode_multi [OF assms(1,3) st val])
      fix ds assume "length ds = Suc 1" "list_all (\<lambda>d. d < 64) ds"
        "enc_len (foldl (\<lambda>a d. a * 64 + d) y ds) = 3"
      then show "utf8_encode (foldl (\<lambda>a d. a * 64 + d) y ds) = v # map (\<lambda>d. of_nat (0x80 + d)) ds"
        unfolding y(3) using encode_digits3 [OF _ _ refl, of d1 d2 y for d1 d2]
        by (auto simp: length_Suc_conv numeral_2_eq_2 simp del: of_nat_add)
    qed (use y(1) in simp)
  next
    case four
    then have "30 * 8 \<le> unat v" "unat v < 30 * 8 + 8" by simp_all
    from lead_digit [OF this] obtain y
      where y: "y < 8" "unat v mod 8 = y" "v = of_nat (30 * 8 + y)" .
    have st: "utf8_step v st = Inr \<lparr>cur_char_size = Suc 2, cur_char_init_size = 4,
        cur_char_val = ucast (v AND 0x7)\<rparr>"
      using lead_step(4) [OF assms(2) four] by (simp add: numeral_2_eq_2 numeral_3_eq_3)
    have val: "unat (ucast (v AND 0x7) :: u32) = y" by (simp only: lead_vals y(2))
    show ?thesis
    proof (rule decode_multi [OF assms(1,3) st val])
      fix ds assume "length ds = Suc 2" "list_all (\<lambda>d. d < 64) ds"
        "enc_len (foldl (\<lambda>a d. a * 64 + d) y ds) = 4"
      then show "utf8_encode (foldl (\<lambda>a d. a * 64 + d) y ds) = v # map (\<lambda>d. of_nat (0x80 + d)) ds"
        unfolding y(3) using encode_digits4 [OF _ _ _ refl, of d1 d2 d3 y for d1 d2 d3]
        by (auto simp: length_Suc_conv numeral_2_eq_2 simp del: of_nat_add)
    qed (use y(1) in simp)
  next
    case bad
    then show ?thesis using assms(1) lead_step(5) [OF assms(2)] by simp
  qed
qed

lemma accepted_valid:
  assumes "utf8_run bs st = Inr st'" "cur_char_size st = 0" "cur_char_size st' = 0"
  shows "valid_utf8 bs"
  using assms
proof (induction "length bs" arbitrary: bs st rule: less_induct)
  case less
  show ?case
  proof (cases bs)
    case Nil
    then show ?thesis by (auto simp: valid_utf8_def intro: exI [of _ "[]"])
  next
    case (Cons v vs)
    from decode_first [OF less.prems(1) [unfolded Cons] less.prems(2,3)] obtain c rest st1
      where c: "scalar c" "bs = utf8_encode c @ rest" "cur_char_size st1 = 0" "utf8_run rest st1 = Inr st'"
      unfolding Cons by blast
    have "utf8_encode c \<noteq> []" by (simp add: utf8_encode_def)
    then have "length rest < length bs" using c(2) by simp
    from less.hyps [OF this c(4,3) less.prems(3)] obtain cs
      where "list_all scalar cs" "rest = concat (map utf8_encode cs)" by (auto simp: valid_utf8_def)
    then show ?thesis using c by (auto simp: valid_utf8_def intro: exI [of _ "c # cs"])
  qed
qed

lemma valid_accepted:
  assumes "list_all scalar cs" "cur_char_size st = 0"
  shows "\<exists>st'. utf8_run (concat (map utf8_encode cs)) st = Inr st' \<and> cur_char_size st' = 0"
  using assms
proof (induction cs arbitrary: st)
  case (Cons c cs)
  then obtain st1 where "utf8_run (utf8_encode c) st = Inr st1" "cur_char_size st1 = 0"
    using encode_accepted [of c st] by auto
  with Cons show ?case by (simp add: utf8_run_append)
qed simp

text \<open>
  The loop asks for nothing at the end of the string, so it also accepts a beginning of a character there: a byte that announces
  more bytes, with fewer continuation bytes than announced. What such a character would be is not looked at.
\<close>

definition lead_len :: "u8 \<Rightarrow> nat" where
  "lead_len v =
     (if 0xC0 \<le> unat v \<and> unat v < 0xE0 then 2
      else if 0xE0 \<le> unat v \<and> unat v < 0xF0 then 3
      else if 0xF0 \<le> unat v \<and> unat v < 0xF8 then 4 else 0)"

fun cut_char :: "bytes \<Rightarrow> bool" where
  "cut_char [] \<longleftrightarrow> True"
| "cut_char (v # vs) \<longleftrightarrow> Suc (length vs) < lead_len v \<and> list_all cont vs"

lemma step_size:
  assumes "utf8_step v st = Inr st'"
  shows "cur_char_size st \<noteq> 0 \<Longrightarrow> cont v \<and> cur_char_size st' = cur_char_size st - 1"
    and "cur_char_size st = 0 \<Longrightarrow>
      \<not> cont v \<and> cur_char_size st' = (if unat v < 0x80 then 0 else lead_len v - 1) \<and> (unat v < 0x80 \<or> 2 \<le> lead_len v)"
proof -
  show "cont v \<and> cur_char_size st' = cur_char_size st - 1" if "cur_char_size st \<noteq> 0"
    using assms that noncont_step [OF that, of v]
    by (cases "cont v") (auto simp: utf8_step_def cont_iff Let_def split: if_splits option.splits)
  show "\<not> cont v \<and> cur_char_size st' = (if unat v < 0x80 then 0 else lead_len v - 1) \<and> (unat v < 0x80 \<or> 2 \<le> lead_len v)"
    if z: "cur_char_size st = 0"
  proof -
    consider "unat v < 0x80" | "0xC0 \<le> unat v" "unat v < 0xE0" | "0xE0 \<le> unat v" "unat v < 0xF0"
      | "0xF0 \<le> unat v" "unat v < 0xF8" | "cont v \<or> 0xF8 \<le> unat v" unfolding cont_def by linarith
    then show ?thesis using assms lead_step [OF z, of v] z by cases (auto simp: lead_len_def cont_def)
  qed
qed

lemma accepted_split:
  assumes "utf8_run bs st = Inr st'" "cur_char_size st = 0"
  shows "\<exists>pre t st1. bs = pre @ t \<and> utf8_run pre st = Inr st1 \<and> cur_char_size st1 = 0 \<and>
    cut_char t \<and> cur_char_size st' = (if t = [] then 0 else lead_len (hd t) - length t)"
  using assms
proof (induction bs arbitrary: st' rule: rev_induct)
  case Nil
  then show ?case by (intro exI [of _ "[]"] exI [of _ st]) simp
next
  case (snoc v bs)
  from snoc.prems(1) obtain st2 where st2: "utf8_run bs st = Inr st2" "utf8_step v st2 = Inr st'"
    unfolding utf8_run_append by (cases "utf8_run bs st"; cases "utf8_step v (projr (utf8_run bs st))") auto
  from snoc.IH [OF st2(1) snoc.prems(2)] obtain pre t st1
    where i: "bs = pre @ t" "utf8_run pre st = Inr st1" "cur_char_size st1 = 0" "cut_char t"
      "cur_char_size st2 = (if t = [] then 0 else lead_len (hd t) - length t)" by blast
  have run: "utf8_run (bs @ [v]) st = Inr st'" using snoc.prems(1) .
  show ?case
  proof (cases t)
    case Nil
    note z = step_size(2) [OF st2(2)]
    show ?thesis
    proof (cases "unat v < 0x80")
      case True
      then show ?thesis using z i Nil run by (intro exI [of _ "bs @ [v]"] exI [of _ "[]"] exI [of _ st']) simp
    next
      case False
      then show ?thesis using z i Nil st2(1) by (intro exI [of _ bs] exI [of _ "[v]"] exI [of _ st2]) auto
    qed
  next
    case (Cons u vs)
    then have lt: "Suc (length vs) < lead_len u" "list_all cont vs" "cur_char_size st2 = lead_len u - Suc (length vs)"
      using i(4,5) by simp_all
    then have "cont v" "cur_char_size st' = lead_len u - Suc (length vs) - 1" using step_size(1) [OF st2(2)] by simp_all
    then show ?thesis
      using lt i Cons run
      by (cases "cur_char_size st' = 0")
        (force intro: exI [of _ "bs @ [v]"] exI [of _ "[]"] exI [of _ st'],
         intro exI [of _ pre] exI [of _ "t @ [v]"] exI [of _ st1], simp)
  qed
qed

lemma conts_accepted:
  "list_all cont vs \<Longrightarrow> length vs < cur_char_size st \<Longrightarrow> \<exists>st'. utf8_run vs st = Inr st'"
proof (induction vs arbitrary: st)
  case (Cons v vs)
  then have c: "0x80 \<le> v \<and> v < 0xC0" "cur_char_size st \<noteq> 0" "cur_char_size st - 1 \<noteq> 0" by (simp_all add: cont_iff)
  then obtain st1 where "utf8_step v st = Inr st1" "cur_char_size st1 = cur_char_size st - 1"
    by (simp add: utf8_step_def Let_def)
  then show ?case using Cons.IH [of st1] Cons.prems by auto
qed simp

lemma cut_char_accepted:
  assumes "cut_char t" "cur_char_size st = 0"
  shows "\<exists>st'. utf8_run t st = Inr st'"
proof (cases t)
  case (Cons v vs)
  then have c: "Suc (length vs) < lead_len v" "list_all cont vs" using assms(1) by simp_all
  then obtain st1 where "utf8_step v st = Inr st1" "cur_char_size st1 = lead_len v - 1"
    using lead_step(2-4) [OF assms(2), of v] by (auto simp: lead_len_def split: if_splits)
  then show ?thesis using conts_accepted [OF c(2), of st1] c(1) Cons by auto
qed simp

lemma utf8_run_accepts:
  assumes "cur_char_size st = 0"
  shows "(\<exists>st'. utf8_run bs st = Inr st') \<longleftrightarrow>
    (\<exists>cs t. list_all scalar cs \<and> cut_char t \<and> bs = concat (map utf8_encode cs) @ t)"
proof
  assume "\<exists>st'. utf8_run bs st = Inr st'"
  then obtain pre t st1 where p: "bs = pre @ t" "utf8_run pre st = Inr st1" "cur_char_size st1 = 0" "cut_char t"
    using accepted_split [OF _ assms] by blast
  then show "\<exists>cs t. list_all scalar cs \<and> cut_char t \<and> bs = concat (map utf8_encode cs) @ t"
    using accepted_valid [OF p(2) assms p(3)] by (auto simp: valid_utf8_def)
next
  assume "\<exists>cs t. list_all scalar cs \<and> cut_char t \<and> bs = concat (map utf8_encode cs) @ t"
  then obtain cs t st1 where c: "cut_char t" "bs = concat (map utf8_encode cs) @ t"
    "utf8_run (concat (map utf8_encode cs)) st = Inr st1" "cur_char_size st1 = 0"
    using valid_accepted [OF _ assms] by blast
  then show "\<exists>st'. utf8_run bs st = Inr st'" using cut_char_accepted [OF c(1,4)] by (simp add: utf8_run_append)
qed

section \<open>Which bytes of the string are looked at\<close>

text \<open>The string with the last byte cleared when the copy of the last piece leaves it out.\<close>

definition seen_bytes :: "bytes \<Rightarrow> bytes" where
  "seen_bytes bs = (if length bs mod 32 \<in> {8, 16, 24} then butlast bs @ [0] else bs)"

lemma seen_bytes_long: "32 < length bs \<Longrightarrow> seen_bytes bs = take 32 bs @ seen_bytes (drop 32 bs)"
proof -
  assume l: "32 < length bs"
  have "(length bs - 32) mod 32 = length bs mod 32" using l by (simp add: le_mod_geq)
  moreover have "butlast bs = take 32 bs @ butlast (drop 32 bs)"
    using l butlast_append [of "take 32 bs" "drop 32 bs"] by simp
  ultimately show ?thesis by (auto simp: seen_bytes_def)
qed

lemma seen_bytes_short:
  assumes "bs \<noteq> []" "length bs \<le> 32"
  shows "seen_bytes bs = take (copied_len (length bs)) bs @ replicate (length bs - copied_len (length bs)) 0"
proof -
  have iff: "(n = 16 \<or> n mod 16 = 8) \<longleftrightarrow> n mod 32 \<in> {8, 16, 24}" if "n \<noteq> 0" "n \<le> 32" for n :: nat
  proof (cases "n = 32")
    case False
    then have n: "n < 32" using that by simp
    then have "n mod 32 = n" by simp
    moreover have "n mod 16 = (if n < 16 then n else n - 16)" using n by (auto simp: mod_if)
    ultimately show ?thesis using n by auto
  qed simp
  show ?thesis
  proof (cases "length bs mod 32 \<in> {8, 16, 24}")
    case True
    then have "copied_len (length bs) = length bs - 1"
      using iff [of "length bs"] assms by (simp add: copied_len_def)
    then show ?thesis using True assms by (simp add: seen_bytes_def butlast_conv_take Suc_le_eq)
  next
    case False
    then have "copied_len (length bs) = length bs"
      using iff [of "length bs"] assms by (auto simp: copied_len_def)
    then show ?thesis using False by (simp add: seen_bytes_def)
  qed
qed

lemma outside_span: "x \<notin> set (span a n) \<Longrightarrow> \<not> unat (x - a) < n"
  using mem_spanI [of "unat (x - a)" n a] by auto

lemma span_mono: "i \<le> n \<Longrightarrow> set (span a i) \<subseteq> set (span a n)"
  using span_append [of a i "n - i"] by simp

lemma chunk_bytes:
  assumes "n \<le> 32" "k \<le> n" "set (span tmp 32) \<inter> set (span ptr n) = {}"
  shows "take n (bytes_at (copied (put_bytes m tmp (replicate 32 0)) tmp ptr k) tmp 32) =
    take k (bytes_at m ptr n) @ replicate (n - k) 0" (is "?l = ?r")
proof (rule nth_equalityI)
  show "length ?l = length ?r" using assms by simp
  fix i assume "i < length ?l"
  then have i: "i < n" "i < 32" using assms by simp_all
  then have u: "unat (of_nat i :: u64) = i" by (intro unat_of_nat_64) simp
  have "ptr + of_nat i \<notin> set (span tmp 32)" using assms(3) mem_spanI [OF i(1), of ptr] by blast
  from outside_span [OF this] have "\<not> unat (ptr + of_nat i - tmp) < 32" .
  then show "?l ! i = ?r ! i"
    using i u assms(1,2) by (auto simp: nth_bytes_at nth_append copied_def put_bytes_def min_def)
qed

lemma chunk_frame:
  assumes "k \<le> 32" "set (span tmp 32) \<inter> set (span p j) = {}"
  shows "bytes_at (copied (put_bytes m tmp (replicate 32 0)) tmp ptr k) p j = bytes_at m p j"
proof -
  have "mbyte (copied (put_bytes m tmp (replicate 32 0)) tmp ptr k) x = mbyte m x"
    if "x \<in> set (span p j)" for x
  proof -
    have "\<not> unat (x - tmp) < 32" using outside_span that assms(2) by blast
    then show ?thesis using assms(1) by (simp add: copied_def put_bytes_def)
  qed
  then show ?thesis by (simp add: bytes_at_def)
qed

lemma bytes_at_split: "i \<le> n \<Longrightarrow> bytes_at m a n = bytes_at m a i @ bytes_at m (a + of_nat i) (n - i)"
  using span_append [of a i "n - i"] by (simp add: bytes_at_def)

text \<open>The situation in which the loop runs: a readable string apart from the buffer.\<close>

definition loop_ready :: "u64 \<Rightarrow> u64 \<Rightarrow> usize \<Rightarrow> mem \<Rightarrow> bool" where
  "loop_ready tmp ptr len m \<longleftrightarrow>
     unat ptr + unat len < 2 ^ 64 \<and> unat tmp + 32 < 2 ^ 64 \<and>
     set (span tmp 32) \<inter> set (span ptr (unat len)) = {} \<and>
     list_all (readable m) (span ptr (unat len)) \<and> list_all (writable m) (span tmp 32)"

lemma copy_chunk:
  assumes "loop_ready tmp ptr len m" "n \<le> unat len" "n \<le> 32"
  shows "copy_nonoverlapping_checked 1 ptr tmp (of_nat n) (put_bytes m tmp (replicate 32 0)) =
    Returned (Inr (), copied (put_bytes m tmp (replicate 32 0)) tmp ptr (copied_len n))"
proof -
  have sub: "set (span tmp n) \<subseteq> set (span tmp 32)" "set (span ptr n) \<subseteq> set (span ptr (unat len))"
    using assms(2,3) by (simp_all add: span_mono)
  have k: "copied_len n \<le> n" by (auto simp: copied_len_def)
  have un: "unat (of_nat n :: u64) = n" using assms(3) by (intro unat_of_nat_64) simp
  have "apart tmp ptr n" using assms(1) sub by (auto simp: apart_def loop_ready_def)
  moreover have "list_all (readable m) (span ptr n)" "list_all (writable m) (span tmp n)"
    using assms(1) sub unfolding loop_ready_def list_all_iff by blast+
  then have "accessible (put_bytes m tmp (replicate 32 0)) tmp ptr n"
    by (simp add: accessible_def put_bytes_def)
  then have "accessible (put_bytes m tmp (replicate 32 0)) tmp ptr (copied_len n)"
    by (rule accessible_mono [OF _ k])
  ultimately show ?thesis
    using copy_nonoverlapping_checked_spec [of n "of_nat n" 1 ptr tmp "put_bytes m tmp (replicate 32 0)"]
      assms by (simp add: un loop_ready_def)
qed

lemma check_utf8_step:
  assumes "loop_ready tmp ptr len m" "len \<noteq> 0" "n = min (unat len) 32"
  shows "\<exists>m1. check_utf8_loop tmp ptr len st m =
      (case utf8_run (take n (bytes_at m1 tmp 32)) st of
         Inl e \<Rightarrow> Returned (Inl e, m1)
       | Inr st' \<Rightarrow> check_utf8_loop tmp (ptr + of_nat n) (len - of_nat n) st' m1) \<and>
    seen_bytes (bytes_at m ptr (unat len)) =
      take n (bytes_at m1 tmp 32) @ seen_bytes (bytes_at m1 (ptr + of_nat n) (unat len - n)) \<and>
    loop_ready tmp (ptr + of_nat n) (len - of_nat n) m1"
proof -
  define m1 where "m1 = copied (put_bytes m tmp (replicate 32 0)) tmp ptr (copied_len n)"
  let ?bs = "bytes_at m ptr (unat len)" and ?p = "ptr + of_nat n"
  have k: "copied_len n \<le> n" by (auto simp: copied_len_def)
  have nl: "n \<le> unat len" "n \<le> 32" "n \<noteq> 0" using assms(2,3) unat_pos_64 [of len] by simp_all
  have un: "unat (of_nat n :: u64) = n" using nl(2) by (intro unat_of_nat_64) simp
  have tl: "min len 32 = of_nat n"
    unfolding word_unat_eq_iff un assms(3) by (simp add: min_def word_le_nat_alt)
  have split: "span ptr (unat len) = span ptr n @ span ?p (unat len - n)"
    using span_append [of ptr n "unat len - n"] nl(1) by simp
  have disj: "set (span tmp 32) \<inter> set (span ptr n) = {}" "set (span tmp 32) \<inter> set (span ?p (unat len - n)) = {}"
    using assms(1) unfolding split loop_ready_def by auto
  have chunk: "take n (bytes_at m1 tmp 32) = take (copied_len n) (bytes_at m ptr n) @ replicate (n - copied_len n) 0"
    unfolding m1_def by (rule chunk_bytes [OF nl(2) k disj(1)])
  have rest: "bytes_at m1 ?p (unat len - n) = bytes_at m ?p (unat len - n)"
    unfolding m1_def using k nl by (intro chunk_frame [OF _ disj(2)]) simp
  have "seen_bytes ?bs = take n (bytes_at m1 tmp 32) @ seen_bytes (bytes_at m1 ?p (unat len - n))"
  proof (cases "unat len \<le> 32")
    case True
    have "?bs \<noteq> []" using nl unfolding length_0_conv [symmetric] length_bytes_at by linarith
    then show ?thesis using True seen_bytes_short [of ?bs] chunk rest nl assms(3)
      by (simp add: seen_bytes_def [of "[]"] bytes_at_def [of _ _ 0] span_def)
  next
    case gt: False
    then have n32: "n = 32" using assms(3) by simp
    have "seen_bytes ?bs = take 32 ?bs @ seen_bytes (drop 32 ?bs)" using gt by (intro seen_bytes_long) simp
    then show ?thesis
      unfolding rest chunk unfolding bytes_at_split [OF nl(1), of m ptr] n32 by (simp add: copied_len_def)
  qed
  moreover have "unat (len - of_nat n) = unat len - n" "unat ?p = unat ptr + n"
    using nl un assms(1) by (simp_all add: unat_sub word_le_nat_alt unat_add_64 loop_ready_def)
  then have "loop_ready tmp ?p (len - of_nat n) m1"
    using assms(1) disj(2) nl(1) split
    by (auto simp: loop_ready_def m1_def copied_def put_bytes_def)
  moreover have "check_utf8_loop tmp ptr len st m =
      (case utf8_run (take n (bytes_at m1 tmp 32)) st of
         Inl e \<Rightarrow> Returned (Inl e, m1)
       | Inr st' \<Rightarrow> check_utf8_loop tmp ?p (len - of_nat n) st' m1)"
    using assms(2) copy_chunk [OF assms(1) nl(1,2), folded m1_def]
    by (subst check_utf8_loop.simps) (simp add: tl un Let_def)
  ultimately show ?thesis by (intro exI [of _ m1] conjI)
qed

lemma check_utf8_loop_spec:
  assumes "loop_ready tmp ptr len m"
  shows "\<exists>m'. check_utf8_loop tmp ptr len st m =
    Returned (map_sum id (\<lambda>_. ()) (utf8_run (seen_bytes (bytes_at m ptr (unat len))) st), m')"
  using assms
proof (induction "unat len" arbitrary: ptr len st m rule: less_induct)
  case less
  show ?case
  proof (cases "len = 0")
    case True
    then show ?thesis
      by (subst check_utf8_loop.simps) (simp add: seen_bytes_def bytes_at_def span_def)
  next
    case False
    define n where "n = min (unat len) 32"
    from check_utf8_step [OF less.prems False n_def, of st] obtain m1
      where m1: "check_utf8_loop tmp ptr len st m =
        (case utf8_run (take n (bytes_at m1 tmp 32)) st of
           Inl e \<Rightarrow> Returned (Inl e, m1)
         | Inr st' \<Rightarrow> check_utf8_loop tmp (ptr + of_nat n) (len - of_nat n) st' m1)"
      "seen_bytes (bytes_at m ptr (unat len)) =
        take n (bytes_at m1 tmp 32) @ seen_bytes (bytes_at m1 (ptr + of_nat n) (unat len - n))"
      "loop_ready tmp (ptr + of_nat n) (len - of_nat n) m1" by blast
    have n: "n \<noteq> 0" "n \<le> unat len" "n < 2 ^ 64" using unat_pos_64 [OF False] by (simp_all add: n_def min_def)
    then have len': "unat (len - of_nat n) = unat len - n"
      by (simp add: unat_sub word_le_nat_alt unat_of_nat_64)
    have "unat (len - of_nat n) < unat len" using n len' by simp
    from less.hyps [OF this m1(3)] show ?thesis
      unfolding m1(1,2) utf8_run_append len'
      by (cases "utf8_run (take n (bytes_at m1 tmp 32)) st") auto
  qed
qed

text \<open>
  C22. Which strings \<open>check_utf8\<close> accepts. A readable string held apart from the local buffer is accepted exactly when
  the bytes that are looked at encode a sequence of Unicode scalar values, possibly followed by the beginning of one more
  character: overlong forms, surrogates and values beyond the last plane are refused, but a string may end inside a
  character, because the state is not tested after the last byte. The bytes looked at are those of the string, with
  the last one as zero when the length modulo 32 is 8, 16 or 24.
\<close>

theorem check_utf8_accepts:
  assumes "unat ptr + unat len < 2 ^ 64" "unat tmp + 32 < 2 ^ 64"
    and "set (span tmp 32) \<inter> set (span ptr (unat len)) = {}"
    and "list_all (readable m) (span ptr (unat len))" "list_all (writable m) (span tmp 32)"
  shows "(\<exists>m'. check_utf8 tmp \<lparr>str_ptr = ptr, str_len = len\<rparr> m = Returned (Inr \<lparr>str_ptr = ptr, str_len = len\<rparr>, m')) \<longleftrightarrow>
    (\<exists>cs t. list_all scalar cs \<and> cut_char t \<and>
      seen_bytes (bytes_at m ptr (unat len)) = concat (map utf8_encode cs) @ t)"
proof -
  let ?bs = "seen_bytes (bytes_at m ptr (unat len))"
  have "loop_ready tmp ptr len m" using assms by (simp add: loop_ready_def)
  from check_utf8_loop_spec [OF this, of utf8_init]
  have "(\<exists>m'. check_utf8 tmp \<lparr>str_ptr = ptr, str_len = len\<rparr> m = Returned (Inr \<lparr>str_ptr = ptr, str_len = len\<rparr>, m')) \<longleftrightarrow>
      (\<exists>st'. utf8_run ?bs utf8_init = Inr st')"
    by (cases "utf8_run ?bs utf8_init") (auto simp: check_utf8_def)
  then show ?thesis by (simp add: utf8_run_accepts utf8_init_def)
qed

text \<open>
  C23. Checking a readable string held apart from the local buffer never fails on access: it
  accepts or refuses according to what the automaton says of the bytes it sees, and these are the
  bytes of the string, except that the last byte is seen as zero when the length modulo 32 is 8, 16
  or 24. A string of such a length whose last character takes several bytes is therefore refused,
  and a string that stops inside a character is accepted.
\<close>

theorem check_utf8_behaviour:
  assumes "unat ptr + unat len < 2 ^ 64" "unat tmp + 32 < 2 ^ 64"
    and "set (span tmp 32) \<inter> set (span ptr (unat len)) = {}"
    and "list_all (readable m) (span ptr (unat len))" "list_all (writable m) (span tmp 32)"
  shows "\<exists>m'. check_utf8 tmp \<lparr>str_ptr = ptr, str_len = len\<rparr> m =
    Returned (case utf8_run (let bs = bytes_at m ptr (unat len) in
                             if length bs mod 32 \<in> {8, 16, 24} then butlast bs @ [0] else bs) utf8_init of
                Inl e \<Rightarrow> Inl e
              | Inr st \<Rightarrow> Inr \<lparr>str_ptr = ptr, str_len = len\<rparr>, m')"
proof -
  have "loop_ready tmp ptr len m" using assms by (simp add: loop_ready_def)
  from check_utf8_loop_spec [OF this, of utf8_init] show ?thesis
    unfolding Let_def seen_bytes_def [symmetric]
    by (cases "utf8_run (seen_bytes (bytes_at m ptr (unat len))) utf8_init") (auto simp: check_utf8_def)
qed

definition cafe_mem :: mem where
  "cafe_mem = \<lparr>mbyte = (\<lambda>a. if a = 0x106 then 0xC3 else if a = 0x107 then 0xA9 else 0x61),
     readable = (\<lambda>a. True), writable = (\<lambda>a. True)\<rparr>"

theorem check_utf8_behaviour_witness:
  "\<exists>m'. check_utf8 0x200 \<lparr>str_ptr = 0x100, str_len = 8\<rparr> cafe_mem = Returned (Inl InvalidUtf8, m') \<and>
     bytes_at cafe_mem 0x100 8 = concat (map utf8_encode [0x61, 0x61, 0x61, 0x61, 0x61, 0x61, 0xE9])"
proof -
  have u: "[0..<8] = [0, 1, 2, 3, 4, 5, 6, 7 :: nat]" by (simp add: upt_rec)
  have bs: "bytes_at cafe_mem 0x100 8 = [0x61, 0x61, 0x61, 0x61, 0x61, 0x61, 0xC3, 0xA9]"
    by (simp add: bytes_at_def span_def u cafe_mem_def)
  have "in_range 0x200 (0x200 + of_nat 32) x \<Longrightarrow> in_range 0x100 (0x100 + of_nat 8) x \<Longrightarrow> False" for x
    by (simp add: in_range_def word_le_nat_alt word_less_nat_alt)
  then have d: "set (span 0x200 32) \<inter> set (span 0x100 (unat (8 :: u64))) = {}"
    using in_span_iff [of "0x200" 32] in_span_iff [of "0x100" 8] by auto
  have r: "utf8_run [0x61, 0x61, 0x61, 0x61, 0x61, 0x61, 0xC3, 0] utf8_init = Inl InvalidUtf8"
    by (simp add: utf8_step_def utf8_init_def)
  have "list_all (readable cafe_mem) (span 0x100 (unat (8 :: u64)))" "list_all (writable cafe_mem) (span 0x200 32)"
    by (simp_all add: cafe_mem_def list_all_iff)
  from check_utf8_behaviour [OF _ _ d this] show ?thesis
    by (simp add: bs r utf8_encode_def del: utf8_run.simps)
qed

definition cut_mem :: mem where
  "cut_mem = \<lparr>mbyte = (\<lambda>a. if a = 0x101 then 0xC3 else 0x61), readable = (\<lambda>a. True), writable = (\<lambda>a. True)\<rparr>"

theorem check_utf8_accepts_witness:
  "\<exists>m'. check_utf8 0x200 \<lparr>str_ptr = 0x100, str_len = 2\<rparr> cut_mem = Returned (Inr \<lparr>str_ptr = 0x100, str_len = 2\<rparr>, m') \<and>
     bytes_at cut_mem 0x100 2 = utf8_encode 0x61 @ [0xC3]"
proof -
  have u: "[0..<2] = [0, 1 :: nat]" by (simp add: upt_rec)
  have bs: "bytes_at cut_mem 0x100 2 = [0x61, 0xC3]" by (simp add: bytes_at_def span_def u cut_mem_def)
  have "in_range 0x200 (0x200 + of_nat 32) x \<Longrightarrow> in_range 0x100 (0x100 + of_nat 2) x \<Longrightarrow> False" for x
    by (simp add: in_range_def word_le_nat_alt word_less_nat_alt)
  then have d: "set (span 0x200 32) \<inter> set (span 0x100 (unat (2 :: u64))) = {}"
    using in_span_iff [of "0x200" 32] in_span_iff [of "0x100" 2] by auto
  have "list_all (readable cut_mem) (span 0x100 (unat (2 :: u64)))" "list_all (writable cut_mem) (span 0x200 32)"
    by (simp_all add: cut_mem_def list_all_iff)
  note accepts = check_utf8_accepts [OF _ _ d this]
  have "list_all scalar [0x61] \<and> cut_char [0xC3] \<and>
      seen_bytes (bytes_at cut_mem 0x100 (unat (2 :: u64))) = concat (map utf8_encode [0x61]) @ [0xC3]"
    by (simp add: bs seen_bytes_def scalar_def lead_len_def utf8_encode_def)
  then have "\<exists>cs t. list_all scalar cs \<and> cut_char t \<and>
      seen_bytes (bytes_at cut_mem 0x100 (unat (2 :: u64))) = concat (map utf8_encode cs) @ t" by blast
  from accepts [THEN iffD2, OF _ _ this] have
    "\<exists>m'. check_utf8 0x200 \<lparr>str_ptr = 0x100, str_len = 2\<rparr> cut_mem = Returned (Inr \<lparr>str_ptr = 0x100, str_len = 2\<rparr>, m')"
    by simp
  then show ?thesis by (simp add: bs utf8_encode_def)
qed

end
