(* ===== verification/WL_Cpu_Features.thy ===== *)
theory WL_Cpu_Features
  imports WL_Prelude
begin

text \<open>
  Processor features: the array of feature words the loader fills from \<open>cpuid\<close>
  (\<open>wl-ld-lilium/src/detect/x86.rs\<close>), the table of feature names and the detection macros
  (\<open>wl-helpers/src/detect/x86.rs\<close>), and the architecture level the system information reports
  (\<open>ARCH_TYPE_VERSION\<close> in \<open>wl-usi-base/src/info.rs\<close>). The \<open>cpuid\<close> instruction is a parameter
  from leaf and subleaf to the four registers, and so is the set of features the crate was compiled
  with. The target is x86-64.
\<close>

section \<open>The feature array\<close>

record cpuid_result =
  eax :: u32
  ebx :: u32
  ecx :: u32
  edx :: u32

definition no_cpuid :: cpuid_result where
  "no_cpuid = \<lparr>eax = 0, ebx = 0, ecx = 0, edx = 0\<rparr>"

definition init_cpuid_features :: "(u32 \<Rightarrow> u32 \<Rightarrow> cpuid_result) \<Rightarrow> u32 list" where
  "init_cpuid_features cpuid =
     (let eax1 = cpuid 1 0;
          eax7_ecx0 = cpuid 7 0;
          eax7_ecx1 = cpuid 7 1;
          eax7_ecx2 = cpuid 7 2;
          eax80000001 = cpuid 0x80000001 0;
          eax80000001_ecx_val = ecx eax80000001 AND NOT 0x1BF5FF;
          eax24_ecx0 = (if edx eax7_ecx1 AND push_bit 19 1 \<noteq> 0 then cpuid 0x24 0 else no_cpuid);
          eax0d_0 = (if ecx eax1 AND push_bit 26 1 \<noteq> 0 then cpuid 0x0D 0 else no_cpuid);
          eax0d_1 = (if ecx eax1 AND push_bit 26 1 \<noteq> 0 then cpuid 0x0D 1 else no_cpuid)
      in [ecx eax1, edx eax1, ecx eax7_ecx0, edx eax7_ecx1, ebx eax7_ecx0, eax eax7_ecx1,
          ecx eax7_ecx1, edx eax7_ecx1, ebx eax7_ecx1, eax eax7_ecx2, ecx eax7_ecx2, edx eax7_ecx2,
          0, 0, eax80000001_ecx_val, edx eax80000001, eax eax24_ecx0,
          0, 0, 0, 0, 0, 0, 0, 0, 0, 0, 0, 0, 0, 0, 0,
          eax eax0d_0, edx eax0d_0, ecx eax0d_0, eax eax0d_1,
          0, 0, 0, 0, 0, 0, 0, 0, 0, 0, 0, 0])"

section \<open>Feature names\<close>

definition feature_bits_basic :: "(string \<times> nat \<times> nat) list" where
  "feature_bits_basic =
     [(''x87'', 1, 0), (''cmpxchg8b'', 1, 8), (''cmpxchg16b'', 0, 16), (''rdrand'', 0, 30),
      (''rdseed'', 2, 18), (''tsc'', 1, 4), (''msr'', 1, 5), (''apic'', 1, 9), (''sep'', 1, 11),
      (''mtrr'', 1, 12), (''pge'', 1, 13), (''cmov'', 1, 15), (''pat'', 1, 16),
      (''mmx'', 1, 23), (''fxsr'', 1, 24), (''sse'', 1, 25), (''sse2'', 1, 26),
      (''sse3'', 0, 0), (''pclmulqdq'', 0, 1), (''monitor'', 0, 3), (''vmx'', 0, 5),
      (''smx'', 0, 6), (''ssse3'', 0, 9), (''fma'', 0, 12), (''pcid'', 0, 17),
      (''sse4.1'', 0, 19), (''sse4.2'', 0, 20), (''movbe'', 0, 22), (''popcnt'', 0, 23),
      (''aes'', 0, 25), (''xsave'', 0, 26), (''avx'', 0, 28), (''f16c'', 0, 29)]"

definition feature_bits_leaf7 :: "(string \<times> nat \<times> nat) list" where
  "feature_bits_leaf7 =
     [(''pretetchwt1'', 2, 0), (''avx512-vbmi'', 2, 1), (''umip'', 2, 2), (''pku'', 2, 3),
      (''waitpkg'', 2, 5), (''avx512-vbmi2'', 2, 6), (''shstk'', 2, 7), (''gfni'', 2, 8),
      (''vaes'', 2, 9), (''avx512-vnni'', 2, 11), (''avx512-bitalg'', 2, 12),
      (''tme_en'', 2, 13), (''avx512-vpopcntdq'', 2, 14), (''la57'', 2, 16), (''rdpid'', 2, 22),
      (''kl'', 2, 23), (''movdiri'', 2, 27), (''movdir64b'', 2, 28), (''enqcmd'', 2, 29),
      (''sgx-lc'', 2, 30), (''pks'', 2, 31), (''sgx-keys'', 3, 1), (''avx512-4vnniw'', 3, 2),
      (''avx512-4fmaps'', 3, 3), (''fsrm'', 3, 4), (''uintr'', 3, 5),
      (''avx512-vp2intersect'', 3, 8), (''serialize'', 3, 14), (''pconfig'', 3, 18),
      (''cet-ibt'', 3, 20), (''amx-bf16'', 3, 22), (''avx512-fp16'', 3, 23),
      (''amx-tile'', 3, 24), (''amx-int8'', 3, 25)]"

definition feature_bits_leaf7_ebx :: "(string \<times> nat \<times> nat) list" where
  "feature_bits_leaf7_ebx =
     [(''fsgsbase'', 4, 0), (''sgx'', 4, 2), (''bmi1'', 4, 3), (''hle'', 4, 4),
      (''avx2'', 4, 5), (''smep'', 4, 7), (''bmi2'', 4, 8), (''erms'', 4, 9),
      (''invpcid'', 4, 10), (''rtm'', 4, 11), (''mpx'', 4, 14), (''avx512f'', 4, 16),
      (''avx512dq'', 4, 17), (''adx'', 4, 19), (''smap'', 4, 20), (''avx512-ifma'', 4, 21),
      (''clflushopt'', 4, 23), (''clwb'', 4, 24), (''avx512pf'', 4, 26), (''avx512er'', 4, 27),
      (''avx512cd'', 4, 28), (''sha'', 4, 29), (''avx512bw'', 4, 30), (''avx512vl'', 4, 31)]"

definition feature_bits_leaf7_1 :: "(string \<times> nat \<times> nat) list" where
  "feature_bits_leaf7_1 =
     [(''sha512'', 5, 0), (''sm3'', 5, 1), (''sm4'', 5, 2), (''rao-int'', 5, 3),
      (''avx-vnni'', 5, 4), (''avx512-bf16'', 5, 5), (''lass'', 5, 6), (''cmpccxadd'', 5, 7),
      (''fzrm'', 5, 11), (''rsrcs'', 5, 12), (''fred'', 5, 17), (''lkgs'', 5, 18),
      (''wrmsrns'', 5, 19), (''nmi_src'', 5, 20), (''amx-fp16'', 5, 21), (''hreset'', 5, 22),
      (''avx-ifma'', 5, 23), (''lam'', 5, 26), (''msrlist'', 5, 27),
      (''legacy_reduced_isa'', 6, 2), (''sipi64'', 6, 4), (''avx-vnni-int8'', 7, 4),
      (''avx-ne-convert'', 7, 5), (''amx-complex'', 7, 8), (''avx-vnni-int16'', 7, 10),
      (''utmr'', 7, 13), (''prefetchi'', 7, 14), (''user_msr'', 7, 15), (''cet-sss'', 7, 18),
      (''avx10'', 7, 19), (''apx'', 7, 21), (''mwait'', 7, 23), (''pbndkb'', 8, 1)]"

definition feature_bits_extended :: "(string \<times> nat \<times> nat) list" where
  "feature_bits_extended =
     [(''lahf_lm'', 14, 0), (''svm'', 14, 2), (''cr8_legacy'', 14, 4), (''abm'', 14, 5),
      (''sse4a'', 14, 6), (''3dnowprefetch'', 14, 8), (''xop'', 14, 11), (''skinit'', 14, 12),
      (''fma4'', 14, 16), (''tbm'', 14, 21), (''monitorx'', 14, 29), (''syscall'', 15, 11),
      (''nx'', 15, 20), (''mmxext'', 15, 22), (''fxsr_opt'', 15, 25), (''pdpe1gb'', 15, 26),
      (''rdtscp'', 15, 27), (''lm'', 15, 29), (''3dnowext'', 15, 30), (''3dnow'', 15, 31),
      (''avx10-128'', 16, 16), (''avx10-256'', 16, 17), (''avx10-512'', 16, 18),
      (''xsaveopt'', 35, 0), (''xsavec'', 35, 1), (''xgetbv_ecx1'', 35, 2), (''xss'', 35, 3),
      (''xfd'', 35, 4), (''osxsave'', 0, 27)]"

definition feature_bits :: "(string \<times> nat \<times> nat) list" where
  "feature_bits = feature_bits_basic @ feature_bits_leaf7 @ feature_bits_leaf7_ebx @
     feature_bits_leaf7_1 @ feature_bits_extended"

text \<open>\<open>__x86_feature_to_bit!\<close>; a name without an entry does not compile.\<close>

definition x86_feature_to_bit :: "string \<Rightarrow> (nat \<times> nat) option" where
  "x86_feature_to_bit name = map_of feature_bits name"

definition is_x86_feature_enabled :: "(string \<Rightarrow> bool) \<Rightarrow> string \<Rightarrow> bool" where
  "is_x86_feature_enabled compiled name \<longleftrightarrow> compiled name"

definition feature_bit_set :: "u32 list \<Rightarrow> string \<Rightarrow> bool" where
  "feature_bit_set arr name =
     (case x86_feature_to_bit name of
        Some (idx, b) \<Rightarrow> arr ! idx AND push_bit b 1 \<noteq> 0
      | None \<Rightarrow> False)"

definition is_x86_feature_detected :: "(string \<Rightarrow> bool) \<Rightarrow> u32 list \<Rightarrow> string \<Rightarrow> bool" where
  "is_x86_feature_detected compiled arr name \<longleftrightarrow>
     is_x86_feature_enabled compiled name \<or> feature_bit_set arr name"

definition test_x86_features :: "(string \<Rightarrow> bool) \<Rightarrow> u32 list \<Rightarrow> string list \<Rightarrow> bool" where
  "test_x86_features compiled arr names \<longleftrightarrow>
     list_all (is_x86_feature_enabled compiled) names \<or>
     list_all (\<lambda>name. is_x86_feature_enabled compiled name \<or> feature_bit_set arr name) names"

section \<open>The architecture level\<close>

definition march_ver :: "(string \<Rightarrow> bool) \<Rightarrow> u32 list \<Rightarrow> u32" where
  "march_ver compiled arr =
     (if test_x86_features compiled arr
           [''cmpxchg16b'', ''lahf_lm'', ''popcnt'', ''sse3'', ''sse4.1'', ''sse4.2'', ''ssse3'']
      then if test_x86_features compiled arr
             [''avx'', ''avx2'', ''bmi1'', ''bmi2'', ''f16c'', ''fma'', ''abm'', ''movbe'', ''osxsave'']
        then if test_x86_features compiled arr
               [''avx512f'', ''avx512bw'', ''avx512cd'', ''avx512dq'', ''avx512vl'']
          then 4 else 3
        else 2
      else 1)"

section \<open>What the array holds\<close>

text \<open>The layout documented above \<open>CPU_FEATURE_INFO\<close>, as register of leaf and subleaf.\<close>

definition documented_word :: "(u32 \<Rightarrow> u32 \<Rightarrow> cpuid_result) \<Rightarrow> nat \<Rightarrow> u32" where
  "documented_word cpuid i =
     (if i = 0 then ecx (cpuid 1 0) else if i = 1 then edx (cpuid 1 0)
      else if i = 2 then ecx (cpuid 7 0) else if i = 3 then edx (cpuid 7 0)
      else if i = 4 then ebx (cpuid 7 0) else if i = 5 then eax (cpuid 7 1)
      else if i = 6 then ecx (cpuid 7 1) else if i = 7 then edx (cpuid 7 1)
      else if i = 8 then ebx (cpuid 7 1) else if i = 9 then eax (cpuid 7 2)
      else if i = 10 then ecx (cpuid 7 2) else if i = 11 then edx (cpuid 7 2)
      else if i = 15 then edx (cpuid 0x80000001 0) else if i = 16 then ebx (cpuid 0x24 0)
      else if i = 32 then eax (cpuid 0x0D 0) else if i = 33 then edx (cpuid 0x0D 0)
      else if i = 34 then ecx (cpuid 0x0D 0) else if i = 35 then eax (cpuid 0x0D 1) else 0)"

lemma length_init_cpuid_features [simp]: "length (init_cpuid_features cpuid) = 48"
  by (simp add: init_cpuid_features_def Let_def)

lemma test_x86_features_all:
  "test_x86_features compiled arr names \<longleftrightarrow>
     list_all (is_x86_feature_detected compiled arr) names"
  by (auto simp: test_x86_features_def is_x86_feature_detected_def list_all_iff)

lemma bit_test: "(w :: u32) AND push_bit b 1 \<noteq> 0 \<longleftrightarrow> bit w b"
  by (simp only: bit_iff_and_push_bit_not_eq_0)

lemma feature_bits_simps:
  "x86_feature_to_bit ''lahf_lm'' = Some (14, 0)"
  "x86_feature_to_bit ''abm'' = Some (14, 5)"
  by code_simp+

lemmas feature_bits_defs = feature_bits_def feature_bits_basic_def feature_bits_leaf7_def
  feature_bits_leaf7_ebx_def feature_bits_leaf7_1_def feature_bits_extended_def

lemma feature_names_distinct: "distinct (map fst feature_bits)"
  by (simp add: feature_bits_defs)

lemma feature_positions_distinct: "distinct (map snd feature_bits)"
  by (simp add: feature_bits_defs)

lemma feature_positions_bounded: "list_all (\<lambda>(name, idx, b). idx < 48 \<and> b < 32) feature_bits"
  by (simp add: feature_bits_defs)

text \<open>
  The feature names are a well-formed index into the array: the names are distinct, no two of
  them share a bit, and each names a bit of a word that is there, so the detection macros never
  index out of bounds.
\<close>

theorem feature_table_ok:
  "distinct (map fst feature_bits) \<and> distinct (map snd feature_bits) \<and>
   list_all (\<lambda>(name, idx, b). idx < length (init_cpuid_features cpuid) \<and> b < 32) feature_bits"
  unfolding length_init_cpuid_features
  by (intro conjI feature_names_distinct feature_positions_distinct feature_positions_bounded)

lemma nth_features:
  assumes "i < 48" "i \<notin> {3, 14, 16}" "i \<in> {32, 33, 34, 35} \<Longrightarrow> bit (ecx (cpuid 1 0)) 26"
  shows "init_cpuid_features cpuid ! i = documented_word cpuid i"
proof -
  have "i \<in> set [0..<48]" using assms(1) by simp
  then have "i \<in> {0, 1, 2, 3, 4, 5, 6, 7, 8, 9, 10, 11, 12, 13, 14, 15, 16, 17, 18, 19, 20, 21, 22, 23,
      24, 25, 26, 27, 28, 29, 30, 31, 32, 33, 34, 35, 36, 37, 38, 39, 40, 41, 42, 43, 44, 45, 46, 47}"
    by (simp add: upt_rec numeral_eq_Suc)
  then show ?thesis
    using assms(2,3) unfolding init_cpuid_features_def Let_def bit_test documented_word_def
    by (elim insertE emptyE) simp_all
qed

definition cleared_extended :: "nat list" where
  "cleared_extended = [0, 1, 2, 3, 4, 5, 6, 7, 8, 10, 12, 13, 14, 15, 16, 17, 19, 20]"

lemma extended_mask: "bit (NOT (0x1BF5FF :: u32)) b \<longleftrightarrow> b < 32 \<and> b \<notin> set cleared_extended"
proof (cases "b < 32")
  case True
  have "list_all (\<lambda>b. bit (NOT (0x1BF5FF :: u32)) b \<longleftrightarrow> b \<notin> set cleared_extended) [0..<32]"
    by code_simp
  then show ?thesis using True by (simp add: list_all_iff)
qed (auto dest: bit_imp_le_length)

text \<open>
  The feature array has 48 words, and every word but three holds the register its
  documentation names (the words 32 to 35 when the processor has \<open>xsave\<close>). Word 3 repeats word 7
  instead of holding the \<open>edx\<close> of leaf 7, subleaf 0; word 16 holds \<open>eax\<close>, not \<open>ebx\<close>, of leaf
  \<open>0x24\<close>; and word 14 has the bits in \<open>cleared_extended\<close> removed.
\<close>

theorem feature_array_layout:
  assumes "i < 48" "i \<notin> {3, 14, 16}" "i \<in> {32, 33, 34, 35} \<longrightarrow> bit (ecx (cpuid 1 0)) 26"
  shows "length (init_cpuid_features cpuid) = 48 \<and>
    init_cpuid_features cpuid ! i = documented_word cpuid i \<and>
    init_cpuid_features cpuid ! 3 = documented_word cpuid 7 \<and>
    init_cpuid_features cpuid ! 16 =
      (if bit (edx (cpuid 7 1)) 19 then eax (cpuid 0x24 0) else 0) \<and>
    (\<forall>b. bit (init_cpuid_features cpuid ! 14) b \<longleftrightarrow>
       bit (ecx (cpuid 0x80000001 0)) b \<and> b \<notin> set cleared_extended)"
proof -
  have w: "init_cpuid_features cpuid ! 3 = edx (cpuid 7 1)"
    "init_cpuid_features cpuid ! 14 = ecx (cpuid 0x80000001 0) AND NOT 0x1BF5FF"
    "init_cpuid_features cpuid ! 16 = (if bit (edx (cpuid 7 1)) 19 then eax (cpuid 0x24 0) else 0)"
    unfolding init_cpuid_features_def Let_def bit_test by (simp_all add: no_cpuid_def)
  have "bit (ecx (cpuid 0x80000001 0) AND NOT 0x1BF5FF) b \<longleftrightarrow>
      bit (ecx (cpuid 0x80000001 0)) b \<and> b \<notin> set cleared_extended" for b
    unfolding bit_and_iff extended_mask using bit_imp_le_length [of "ecx (cpuid 0x80000001 0)" b] by auto
  then show ?thesis
    using nth_features [OF assms(1,2), of cpuid] assms(3) unfolding w by (simp add: documented_word_def)
qed

definition plain_cpuid :: "u32 \<Rightarrow> u32 \<Rightarrow> cpuid_result" where
  "plain_cpuid leaf sub =
     (if leaf = 7 \<and> sub = 0 then \<lparr>eax = 0, ebx = 0x20, ecx = 0, edx = 0x10\<rparr>
      else if leaf = 0x80000001 then \<lparr>eax = 0, ebx = 0, ecx = 0x21, edx = 0\<rparr> else no_cpuid)"

theorem feature_array_layout_witness:
  "init_cpuid_features plain_cpuid ! 4 = 0x20 \<and> init_cpuid_features plain_cpuid ! 3 = 0 \<and>
   \<not> bit (init_cpuid_features plain_cpuid ! 14) 0"
  using feature_array_layout [of 4 plain_cpuid]
  by (simp add: plain_cpuid_def no_cpuid_def documented_word_def cleared_extended_def)

lemma lahf_lm_never_set: "\<not> feature_bit_set (init_cpuid_features cpuid) ''lahf_lm''"
  "\<not> feature_bit_set (init_cpuid_features cpuid) ''abm''"
proof -
  have "init_cpuid_features cpuid ! 14 = ecx (cpuid 0x80000001 0) AND NOT 0x1BF5FF"
    unfolding init_cpuid_features_def Let_def by simp
  then show "\<not> feature_bit_set (init_cpuid_features cpuid) ''lahf_lm''"
    "\<not> feature_bit_set (init_cpuid_features cpuid) ''abm''"
    unfolding feature_bit_set_def feature_bits_simps option.case prod.case bit_test
    by (simp_all add: bit_and_iff extended_mask cleared_extended_def)
qed

text \<open>
  The architecture level is 1 on every processor unless \<open>lahf_lm\<close> was a feature the crate was
  compiled with, and never above 2 unless \<open>abm\<close> was, because detection clears both bits.
\<close>

theorem march_ver_limited:
  "(\<not> compiled ''lahf_lm'' \<longrightarrow> march_ver compiled (init_cpuid_features cpuid) = 1) \<and>
   (\<not> compiled ''abm'' \<longrightarrow> march_ver compiled (init_cpuid_features cpuid) \<in> {1, 2})"
  using lahf_lm_never_set [of cpuid]
  by (auto simp: march_ver_def test_x86_features_def is_x86_feature_enabled_def)

theorem march_ver_limited_witness:
  "march_ver (\<lambda>_. False) (init_cpuid_features (\<lambda>_ _. \<lparr>eax = -1, ebx = -1, ecx = -1, edx = -1\<rparr>)) = 1"
  using march_ver_limited [of "\<lambda>_. False"] by simp

section \<open>Detection against the processor manuals\<close>

text \<open>
  Where a processor reports each feature, after the tables of \<open>cpuid\<close> in the manuals of Intel (Software Developer's Manual,
  volume 2A) and AMD (Architecture Programmer's Manual, volume 3): leaf, subleaf, register and bit.
\<close>

datatype cpuid_reg = Eax | Ebx | Ecx | Edx

fun reg_of :: "cpuid_reg \<Rightarrow> cpuid_result \<Rightarrow> u32" where
  "reg_of Eax = eax"
| "reg_of Ebx = ebx"
| "reg_of Ecx = ecx"
| "reg_of Edx = edx"

definition cpuid_manual :: "(string \<times> u32 \<times> u32 \<times> cpuid_reg \<times> nat) list" where
  "cpuid_manual =
     [(''x87'', 1, 0, Edx, 0), (''cmpxchg8b'', 1, 0, Edx, 8), (''cmpxchg16b'', 1, 0, Ecx, 13), (''rdrand'', 1, 0, Ecx, 30),
      (''rdseed'', 7, 0, Ebx, 18), (''tsc'', 1, 0, Edx, 4), (''msr'', 1, 0, Edx, 5), (''apic'', 1, 0, Edx, 9),
      (''sep'', 1, 0, Edx, 11), (''mtrr'', 1, 0, Edx, 12), (''pge'', 1, 0, Edx, 13), (''cmov'', 1, 0, Edx, 15),
      (''pat'', 1, 0, Edx, 16), (''mmx'', 1, 0, Edx, 23), (''fxsr'', 1, 0, Edx, 24), (''sse'', 1, 0, Edx, 25),
      (''sse2'', 1, 0, Edx, 26), (''sse3'', 1, 0, Ecx, 0), (''pclmulqdq'', 1, 0, Ecx, 1), (''monitor'', 1, 0, Ecx, 3),
      (''vmx'', 1, 0, Ecx, 5), (''smx'', 1, 0, Ecx, 6), (''ssse3'', 1, 0, Ecx, 9), (''fma'', 1, 0, Ecx, 12),
      (''pcid'', 1, 0, Ecx, 17), (''sse4.1'', 1, 0, Ecx, 19), (''sse4.2'', 1, 0, Ecx, 20), (''movbe'', 1, 0, Ecx, 22),
      (''popcnt'', 1, 0, Ecx, 23), (''aes'', 1, 0, Ecx, 25), (''xsave'', 1, 0, Ecx, 26), (''avx'', 1, 0, Ecx, 28),
      (''f16c'', 1, 0, Ecx, 29), (''pretetchwt1'', 7, 0, Ecx, 0), (''avx512-vbmi'', 7, 0, Ecx, 1), (''umip'', 7, 0, Ecx, 2),
      (''pku'', 7, 0, Ecx, 3), (''waitpkg'', 7, 0, Ecx, 5), (''avx512-vbmi2'', 7, 0, Ecx, 6), (''shstk'', 7, 0, Ecx, 7),
      (''gfni'', 7, 0, Ecx, 8), (''vaes'', 7, 0, Ecx, 9), (''avx512-vnni'', 7, 0, Ecx, 11), (''avx512-bitalg'', 7, 0, Ecx, 12),
      (''tme_en'', 7, 0, Ecx, 13), (''avx512-vpopcntdq'', 7, 0, Ecx, 14), (''la57'', 7, 0, Ecx, 16), (''rdpid'', 7, 0, Ecx, 22),
      (''kl'', 7, 0, Ecx, 23), (''movdiri'', 7, 0, Ecx, 27), (''movdir64b'', 7, 0, Ecx, 28), (''enqcmd'', 7, 0, Ecx, 29),
      (''sgx-lc'', 7, 0, Ecx, 30), (''pks'', 7, 0, Ecx, 31), (''sgx-keys'', 7, 0, Edx, 1), (''avx512-4vnniw'', 7, 0, Edx, 2),
      (''avx512-4fmaps'', 7, 0, Edx, 3), (''fsrm'', 7, 0, Edx, 4), (''uintr'', 7, 0, Edx, 5),
      (''avx512-vp2intersect'', 7, 0, Edx, 8), (''serialize'', 7, 0, Edx, 14), (''pconfig'', 7, 0, Edx, 18),
      (''cet-ibt'', 7, 0, Edx, 20), (''amx-bf16'', 7, 0, Edx, 22), (''avx512-fp16'', 7, 0, Edx, 23),
      (''amx-tile'', 7, 0, Edx, 24), (''amx-int8'', 7, 0, Edx, 25), (''fsgsbase'', 7, 0, Ebx, 0), (''sgx'', 7, 0, Ebx, 2),
      (''bmi1'', 7, 0, Ebx, 3), (''hle'', 7, 0, Ebx, 4), (''avx2'', 7, 0, Ebx, 5), (''smep'', 7, 0, Ebx, 7),
      (''bmi2'', 7, 0, Ebx, 8), (''erms'', 7, 0, Ebx, 9), (''invpcid'', 7, 0, Ebx, 10), (''rtm'', 7, 0, Ebx, 11),
      (''mpx'', 7, 0, Ebx, 14), (''avx512f'', 7, 0, Ebx, 16), (''avx512dq'', 7, 0, Ebx, 17), (''adx'', 7, 0, Ebx, 19),
      (''smap'', 7, 0, Ebx, 20), (''avx512-ifma'', 7, 0, Ebx, 21), (''clflushopt'', 7, 0, Ebx, 23), (''clwb'', 7, 0, Ebx, 24),
      (''avx512pf'', 7, 0, Ebx, 26), (''avx512er'', 7, 0, Ebx, 27), (''avx512cd'', 7, 0, Ebx, 28), (''sha'', 7, 0, Ebx, 29),
      (''avx512bw'', 7, 0, Ebx, 30), (''avx512vl'', 7, 0, Ebx, 31), (''sha512'', 7, 1, Eax, 0), (''sm3'', 7, 1, Eax, 1),
      (''sm4'', 7, 1, Eax, 2), (''rao-int'', 7, 1, Eax, 3), (''avx-vnni'', 7, 1, Eax, 4), (''avx512-bf16'', 7, 1, Eax, 5),
      (''lass'', 7, 1, Eax, 6), (''cmpccxadd'', 7, 1, Eax, 7), (''fzrm'', 7, 1, Eax, 10), (''rsrcs'', 7, 1, Eax, 12),
      (''fred'', 7, 1, Eax, 17), (''lkgs'', 7, 1, Eax, 18), (''wrmsrns'', 7, 1, Eax, 19), (''nmi_src'', 7, 1, Eax, 20),
      (''amx-fp16'', 7, 1, Eax, 21), (''hreset'', 7, 1, Eax, 22), (''avx-ifma'', 7, 1, Eax, 23), (''lam'', 7, 1, Eax, 26),
      (''msrlist'', 7, 1, Eax, 27), (''legacy_reduced_isa'', 7, 1, Ecx, 2), (''sipi64'', 7, 1, Ecx, 4),
      (''avx-vnni-int8'', 7, 1, Edx, 4), (''avx-ne-convert'', 7, 1, Edx, 5), (''amx-complex'', 7, 1, Edx, 8),
      (''avx-vnni-int16'', 7, 1, Edx, 10), (''utmr'', 7, 1, Edx, 13), (''prefetchi'', 7, 1, Edx, 14),
      (''user_msr'', 7, 1, Edx, 15), (''cet-sss'', 7, 1, Edx, 18), (''avx10'', 7, 1, Edx, 19), (''apx'', 7, 1, Edx, 21),
      (''mwait'', 7, 1, Edx, 23), (''pbndkb'', 7, 1, Ebx, 1), (''lahf_lm'', 0x80000001, 0, Ecx, 0),
      (''svm'', 0x80000001, 0, Ecx, 2), (''cr8_legacy'', 0x80000001, 0, Ecx, 4), (''abm'', 0x80000001, 0, Ecx, 5),
      (''sse4a'', 0x80000001, 0, Ecx, 6), (''3dnowprefetch'', 0x80000001, 0, Ecx, 8), (''xop'', 0x80000001, 0, Ecx, 11),
      (''skinit'', 0x80000001, 0, Ecx, 12), (''fma4'', 0x80000001, 0, Ecx, 16), (''tbm'', 0x80000001, 0, Ecx, 21),
      (''monitorx'', 0x80000001, 0, Ecx, 29), (''syscall'', 0x80000001, 0, Edx, 11), (''nx'', 0x80000001, 0, Edx, 20),
      (''mmxext'', 0x80000001, 0, Edx, 22), (''fxsr_opt'', 0x80000001, 0, Edx, 25), (''pdpe1gb'', 0x80000001, 0, Edx, 26),
      (''rdtscp'', 0x80000001, 0, Edx, 27), (''lm'', 0x80000001, 0, Edx, 29), (''3dnowext'', 0x80000001, 0, Edx, 30),
      (''3dnow'', 0x80000001, 0, Edx, 31), (''avx10-128'', 0x24, 0, Ebx, 16), (''avx10-256'', 0x24, 0, Ebx, 17),
      (''avx10-512'', 0x24, 0, Ebx, 18), (''xsaveopt'', 0x0D, 1, Eax, 0), (''xsavec'', 0x0D, 1, Eax, 1),
      (''xgetbv_ecx1'', 0x0D, 1, Eax, 2), (''xss'', 0x0D, 1, Eax, 3), (''xfd'', 0x0D, 1, Eax, 4), (''osxsave'', 1, 0, Ecx, 27)]"

text \<open>
  The features whose detection does not look there: three with a wrong bit or word in the table, those of word 3 and word 16, which hold
  another register, and those whose bit the array has cleared.
\<close>

definition misdetected :: "string list" where
  "misdetected =
     [''cmpxchg16b'', ''rdseed'', ''sgx-keys'', ''avx512-4vnniw'', ''avx512-4fmaps'', ''fsrm'', ''uintr'',
      ''avx512-vp2intersect'', ''serialize'', ''pconfig'', ''cet-ibt'', ''amx-bf16'', ''avx512-fp16'', ''amx-tile'',
      ''amx-int8'', ''fzrm'', ''lahf_lm'', ''svm'', ''cr8_legacy'', ''abm'', ''sse4a'', ''3dnowprefetch'', ''skinit'', ''fma4'',
      ''avx10-128'', ''avx10-256'', ''avx10-512'']"

text \<open>The register each word of the array is taken from.\<close>

fun word_source :: "nat \<Rightarrow> (u32 \<times> u32 \<times> cpuid_reg) option" where
  "word_source i =
     (if i = 0 then Some (1, 0, Ecx) else if i = 1 then Some (1, 0, Edx)
      else if i = 2 then Some (7, 0, Ecx) else if i = 4 then Some (7, 0, Ebx)
      else if i = 5 then Some (7, 1, Eax) else if i = 6 then Some (7, 1, Ecx)
      else if i = 7 then Some (7, 1, Edx) else if i = 8 then Some (7, 1, Ebx)
      else if i = 14 then Some (0x80000001, 0, Ecx) else if i = 15 then Some (0x80000001, 0, Edx)
      else if i = 35 then Some (0x0D, 1, Eax) else None)"

declare word_source.simps [simp del]

text \<open>A processor that reports one feature only.\<close>

definition only :: "u32 \<Rightarrow> u32 \<Rightarrow> cpuid_reg \<Rightarrow> nat \<Rightarrow> u32 \<Rightarrow> u32 \<Rightarrow> cpuid_result" where
  "only leaf sub r b l s' =
     (let w = (\<lambda>r'. if l = leaf \<and> s' = sub \<and> r' = r then push_bit b 1 else 0)
      in \<lparr>eax = w Eax, ebx = w Ebx, ecx = w Ecx, edx = w Edx\<rparr>)"

definition entry_matches :: "string \<times> nat \<times> nat \<Rightarrow> string \<times> u32 \<times> u32 \<times> cpuid_reg \<times> nat \<Rightarrow> bool" where
  "entry_matches = (\<lambda>(name, idx, b) (name', leaf, sub, r, b').
     name = name' \<and> b' < 32 \<and>
     (if name \<in> set misdetected then \<not> bit (init_cpuid_features (only leaf sub r b') ! idx) b
      else b = b' \<and> word_source idx = Some (leaf, sub, r) \<and> (idx = 14 \<longrightarrow> b \<notin> set cleared_extended)))"

lemma table_matches: "list_all2 entry_matches feature_bits cpuid_manual"
  by code_simp

lemma word_source_bit:
  assumes "word_source idx = Some (leaf, sub, r)" "idx = 14 \<longrightarrow> b \<notin> set cleared_extended"
    and "leaf = 0x0D \<longrightarrow> bit (ecx (cpuid 1 0)) 26"
  shows "bit (init_cpuid_features cpuid ! idx) b \<longleftrightarrow> bit (reg_of r (cpuid leaf sub)) b"
proof (cases "idx = 14")
  case True
  have w: "init_cpuid_features cpuid ! 14 = ecx (cpuid 0x80000001 0) AND NOT 0x1BF5FF"
    unfolding init_cpuid_features_def Let_def by simp
  have "bit (init_cpuid_features cpuid ! 14) b \<longleftrightarrow> bit (ecx (cpuid 0x80000001 0)) b"
    unfolding w bit_and_iff extended_mask using assms(2) True bit_imp_le_length [of "ecx (cpuid 0x80000001 0)" b] by auto
  then show ?thesis using assms(1) True by (simp add: word_source.simps)
next
  case False
  then have i: "idx \<in> {0, 1, 2, 4, 5, 6, 7, 8, 15, 35}" using assms(1) by (auto simp: word_source.simps split: if_splits)
  have "init_cpuid_features cpuid ! idx = documented_word cpuid idx"
    using i assms(1,3) by (intro nth_features) (auto simp: word_source.simps)
  then show ?thesis using i assms(1) by (auto simp: word_source.simps documented_word_def)
qed

lemma only_bit: "b < 32 \<Longrightarrow> bit (reg_of r (only leaf sub r b leaf sub)) b"
  by (cases r) (simp_all add: only_def bit_exp_iff)

lemma matching_names: "list_all2 entry_matches xs ys \<Longrightarrow> map fst xs = map fst ys"
  by (induction rule: list_all2_induct) (auto simp: entry_matches_def)

lemma table_lookup:
  assumes "map_of cpuid_manual name = Some (leaf, sub, r, b)"
  shows "\<exists>idx b'. x86_feature_to_bit name = Some (idx, b') \<and> entry_matches (name, idx, b') (name, leaf, sub, r, b)"
proof -
  from map_of_SomeD [OF assms] obtain i where i: "i < length cpuid_manual" "cpuid_manual ! i = (name, leaf, sub, r, b)"
    by (auto simp: in_set_conv_nth)
  then have e: "i < length feature_bits" "entry_matches (feature_bits ! i) (name, leaf, sub, r, b)"
    using table_matches by (auto simp: list_all2_conv_all_nth)
  obtain n idx b' where f: "feature_bits ! i = (n, idx, b')" by (cases "feature_bits ! i")
  then have "n = name" using e(2) by (simp add: entry_matches_def)
  then have "map_of feature_bits name = Some (idx, b')"
    using e(1) f feature_names_distinct nth_mem by (intro map_of_is_SomeI) fastforce+
  then show ?thesis using e(2) f \<open>n = name\<close> by (auto simp: x86_feature_to_bit_def)
qed

text \<open>
  C24. Detection against the processor manuals. The table has an entry for exactly the features listed there. For all
  of them but the 27 in \<open>misdetected\<close>, a feature is detected exactly when the crate was compiled with it or the processor
  reports it in the register and bit the manuals give (for the features of leaf \<open>0x0D\<close> on a processor with \<open>xsave\<close>). Each of the
  features in \<open>misdetected\<close> goes unnoticed on a processor that has it: \<open>cmpxchg16b\<close>, \<open>rdseed\<close> and \<open>fzrm\<close> have a wrong place in
  the table, the words 3 and 16 hold another register, and the array clears the bits of the others.
\<close>

theorem feature_detection_exact:
  assumes "map_of cpuid_manual name = Some (leaf, sub, r, b)" "leaf = 0x0D \<longrightarrow> bit (ecx (cpuid 1 0)) 26"
  shows "map fst feature_bits = map fst cpuid_manual \<and>
    (name \<notin> set misdetected \<longrightarrow>
       (is_x86_feature_detected compiled (init_cpuid_features cpuid) name \<longleftrightarrow>
          compiled name \<or> bit (reg_of r (cpuid leaf sub)) b)) \<and>
    (name \<in> set misdetected \<longrightarrow>
       (\<exists>cpu. bit (reg_of r (cpu leaf sub)) b \<and>
          \<not> is_x86_feature_detected (\<lambda>_. False) (init_cpuid_features cpu) name))"
proof -
  obtain idx b' where t: "x86_feature_to_bit name = Some (idx, b')" "entry_matches (name, idx, b') (name, leaf, sub, r, b)"
    using table_lookup [OF assms(1)] by blast
  have "map fst feature_bits = map fst cpuid_manual"
    by (rule matching_names [OF table_matches])
  moreover have det: "is_x86_feature_detected cm (init_cpuid_features cpu) name \<longleftrightarrow>
      cm name \<or> bit (init_cpuid_features cpu ! idx) b'" for cm cpu
    unfolding is_x86_feature_detected_def is_x86_feature_enabled_def feature_bit_set_def t(1) option.case prod.case bit_test ..
  moreover have "is_x86_feature_detected compiled (init_cpuid_features cpuid) name \<longleftrightarrow>
      compiled name \<or> bit (reg_of r (cpuid leaf sub)) b" if "name \<notin> set misdetected"
    unfolding det using t(2) that word_source_bit [of idx leaf sub r b cpuid] assms(2) by (auto simp: entry_matches_def)
  moreover have "bit (reg_of r (only leaf sub r b leaf sub)) b \<and>
      \<not> is_x86_feature_detected (\<lambda>_. False) (init_cpuid_features (only leaf sub r b)) name" if "name \<in> set misdetected"
    unfolding det using t(2) that only_bit by (simp add: entry_matches_def)
  ultimately show ?thesis by blast
qed

theorem feature_detection_exact_witness:
  "is_x86_feature_detected (\<lambda>_. False) (init_cpuid_features plain_cpuid) ''avx2'' \<and>
   (\<exists>cpu. bit (ebx (cpu 7 0)) 18 \<and> \<not> is_x86_feature_detected (\<lambda>_. False) (init_cpuid_features cpu) ''rdseed'')"
proof -
  have m: "map_of cpuid_manual ''avx2'' = Some (7, 0, Ebx, 5)" "map_of cpuid_manual ''rdseed'' = Some (7, 0, Ebx, 18)"
    "''avx2'' \<notin> set misdetected" "''rdseed'' \<in> set misdetected" by code_simp+
  have "bit (ebx (plain_cpuid 7 0)) 5" by code_simp
  then show ?thesis
    using feature_detection_exact [OF m(1), of plain_cpuid "\<lambda>_. False"] feature_detection_exact [OF m(2), of plain_cpuid "\<lambda>_. False"] m(3,4)
    by simp
qed

end
