(* ===== verification/WL_Once_Lock.thy ===== *)
theory WL_Once_Lock
  imports WL_Prelude
begin

text \<open>
  The one-time cell \<open>OnceLock\<close> and the lazily initialised \<open>LazyLock\<close>
  (\<open>wl-helpers/src/lib.rs\<close>). The operations that take \<open>&mut self\<close>, and every operation as seen by
  a thread that runs alone, are functions on the cell. The shared \<open>try_get_or_init\<close> is also modelled
  step by step, one atomic access at a time, for any number of threads in any interleaving.
\<close>

section \<open>The cell and its exclusive operations\<close>

definition LOCK :: usize where "LOCK = 0x0001"
definition INIT :: usize where "INIT = 0x0002"
definition POISONED :: usize where "POISONED = push_bit 63 1"

record 'a once =
  lock :: usize
  val :: "'a option"

definition is_init :: "'a once \<Rightarrow> bool" where
  "is_init c \<longleftrightarrow> lock c AND INIT \<noteq> 0"

definition check_poison :: "'a once \<Rightarrow> unit run" where
  "check_poison c = (if lock c AND POISONED \<noteq> 0 then Panic else Ret ())"

definition once_new :: "'a once" where
  "once_new = \<lparr>lock = 0, val = None\<rparr>"

definition once_new_init :: "'a \<Rightarrow> 'a once" where
  "once_new_init v = \<lparr>lock = INIT, val = Some v\<rparr>"

definition once_take :: "'a once \<Rightarrow> 'a option \<times> 'a once" where
  "once_take c = (if is_init c then (val c, c\<lparr>lock := 0, val := None\<rparr>) else (None, c))"

definition once_into_inner :: "'a once \<Rightarrow> 'a option" where
  "once_into_inner c = fst (once_take c)"

definition force_unlock :: "'a once \<Rightarrow> 'a once" where
  "force_unlock c = c\<lparr>lock := lock c AND NOT LOCK\<rparr>"

text \<open>
  The initialiser is given by what it returns: \<open>Inr v\<close> for the output, \<open>Inl r\<close> for the residual of
  the \<open>?\<close> protocol, or a panic. The result is the value behind the returned reference, or the residual.
\<close>

definition try_get_or_init_mut ::
    "'a once \<Rightarrow> ('r + 'a) run \<Rightarrow> (('r + 'a) \<times> 'a once) run" where
  "try_get_or_init_mut c f =
     run_bind (check_poison c) (\<lambda>_.
       if lock c AND INIT \<noteq> 0
       then (case val c of Some v \<Rightarrow> Ret (Inr v, c) | None \<Rightarrow> Panic)
       else if lock c AND LOCK \<noteq> 0 then Panic
       else (case f of
               Ret (Inr v) \<Rightarrow> Ret (Inr v, \<lparr>lock = INIT, val = Some v\<rparr>)
             | Ret (Inl r) \<Rightarrow> Ret (Inl r, c\<lparr>lock := 0\<rparr>)
             | Panic \<Rightarrow> Panic))"

text \<open>
  The shared operation run by one thread alone: \<open>None\<close> is the loop that spins on the lock bit for
  ever. The guard that poisons the cell is not disarmed in the branch where the initialiser gives a
  residual, so its destructor overwrites the word after it was reset.
\<close>

definition try_get_or_init ::
    "'a once \<Rightarrow> ('r + 'a) run \<Rightarrow> (('r + 'a) \<times> 'a once) run option" where
  "try_get_or_init c f =
     (if is_init c then Some (case val c of Some v \<Rightarrow> Ret (Inr v, c) | None \<Rightarrow> Panic)
      else if lock c AND POISONED \<noteq> 0 then Some Panic
      else let m = lock c; c1 = c\<lparr>lock := lock c OR LOCK\<rparr> in
        if m AND LOCK \<noteq> 0 then None
        else if lock c1 AND POISONED \<noteq> 0 then Some Panic
        else if m AND INIT \<noteq> 0
        then Some (case val c of Some v \<Rightarrow> Ret (Inr v, c1) | None \<Rightarrow> Panic)
        else (case f of
                Ret (Inr v) \<Rightarrow> Some (Ret (Inr v, c1\<lparr>val := Some v, lock := INIT\<rparr>))
              | Ret (Inl r) \<Rightarrow> Some (Ret (Inl r, c1\<lparr>lock := 0\<rparr>\<lparr>lock := POISONED\<rparr>))
              | Panic \<Rightarrow> Some Panic))"

definition get_or_init :: "'a once \<Rightarrow> 'a \<Rightarrow> (('r + 'a) \<times> 'a once) run option" where
  "get_or_init c v = try_get_or_init c (Ret (Inr v))"

definition get_or_try_init :: "'a once \<Rightarrow> 'r + 'a \<Rightarrow> (('r + 'a) \<times> 'a once) run option" where
  "get_or_try_init c f = try_get_or_init c (Ret f)"

definition get_or_try_init_mut :: "'a once \<Rightarrow> 'r + 'a \<Rightarrow> (('r + 'a) \<times> 'a once) run" where
  "get_or_try_init_mut c f = try_get_or_init_mut c (Ret f)"

definition get_or_init_mut :: "'a once \<Rightarrow> 'a \<Rightarrow> (('r + 'a) \<times> 'a once) run" where
  "get_or_init_mut c v = try_get_or_init_mut c (Ret (Inr v))"

definition once_get :: "'a once \<Rightarrow> ((unit + 'a) \<times> 'a once) run option" where
  "once_get c = try_get_or_init c (Ret (Inl ()))"

definition once_get_mut :: "'a once \<Rightarrow> ((unit + 'a) \<times> 'a once) run" where
  "once_get_mut c = try_get_or_init_mut c (Ret (Inl ()))"

text \<open>
  \<open>set\<close>: the closure hands the value over, so it is given back exactly when the closure did not run.
\<close>

definition once_set :: "'a once \<Rightarrow> 'a \<Rightarrow> (('a + unit) \<times> 'a once) run option" where
  "once_set c v =
     map_option (\<lambda>r. run_bind r (\<lambda>(_, c'). Ret (if is_init c then Inl v else Inr (), c')))
       (try_get_or_init c (Ret (Inr v)) :: ((unit + 'a) \<times> 'a once) run option)"

section \<open>The lazy cell\<close>

record 'a lazy =
  once_lock :: "'a once"
  init_fn :: "'a option"

definition lazy_new :: "'a \<Rightarrow> 'a lazy" where
  "lazy_new f = \<lparr>once_lock = once_new, init_fn = Some f\<rparr>"

definition lazy_new_init :: "'a \<Rightarrow> 'a lazy" where
  "lazy_new_init v = \<lparr>once_lock = once_new_init v, init_fn = None\<rparr>"

text \<open>
  \<open>init_fn\<close> is the initialiser by what calling it gives. The closure of \<open>force\<close> takes it out of its
  cell, and panics when it is gone; the closure runs exactly when an uninitialised cell is locked.
\<close>

definition lazy_closure :: "'a lazy \<Rightarrow> (unit + 'a) run" where
  "lazy_closure l = (case init_fn l of None \<Rightarrow> Panic | Some v \<Rightarrow> Ret (Inr v))"

definition lazy_result :: "'a lazy \<Rightarrow> ((unit + 'a) \<times> 'a once) run \<Rightarrow> ('a \<times> 'a lazy) run" where
  "lazy_result l r =
     (case r of
        Ret (Inr v, c) \<Rightarrow>
          Ret (v, \<lparr>once_lock = c, init_fn = if is_init (once_lock l) then init_fn l else None\<rparr>)
      | _ \<Rightarrow> Panic)"

definition lazy_force :: "'a lazy \<Rightarrow> ('a \<times> 'a lazy) run option" where
  "lazy_force l = map_option (lazy_result l) (try_get_or_init (once_lock l) (lazy_closure l))"

definition lazy_force_mut :: "'a lazy \<Rightarrow> ('a \<times> 'a lazy) run" where
  "lazy_force_mut l = lazy_result l (try_get_or_init_mut (once_lock l) (lazy_closure l))"

definition lazy_get :: "'a lazy \<Rightarrow> ((unit + 'a) \<times> 'a lazy) run option" where
  "lazy_get l =
     map_option (\<lambda>r. run_bind r (\<lambda>(v, c). Ret (v, l\<lparr>once_lock := c\<rparr>))) (once_get (once_lock l))"

section \<open>Threads sharing a cell\<close>

text \<open>
  The program counter of a thread inside \<open>try_get_or_init\<close>, by the line it is about to execute;
  \<open>L147\<close>, \<open>L151\<close> and \<open>L152\<close> carry the local \<open>m\<close>.
\<close>

datatype 'v pc =
    L139 | L143 | L145 | L147 usize | L151 usize | L152 usize | L159 | L163 'v | L165 | L169 | L172
  | Done 'v | Broke | Panicked

record 'v once_sys =
  word :: usize
  cell :: "'v option"
  pcs :: "nat \<Rightarrow> 'v pc"

definition goto :: "nat \<Rightarrow> 'v pc \<Rightarrow> 'v once_sys \<Rightarrow> 'v once_sys" where
  "goto t p s = s\<lparr>pcs := (pcs s)(t := p)\<rparr>"

text \<open>
  The next atomic access of thread \<open>t\<close>, whose initialiser returns \<open>f t\<close> (\<open>None\<close> for a residual).
  A thread that has returned has no step; reading the value needs it to be there.
\<close>

definition once_exec :: "(nat \<Rightarrow> 'v option) \<Rightarrow> nat \<Rightarrow> 'v once_sys \<Rightarrow> 'v once_sys option" where
  "once_exec f t s =
     (case pcs s t of
        L139 \<Rightarrow> if word s AND INIT \<noteq> 0 then map_option (\<lambda>v. goto t (Done v) s) (cell s)
                else Some (goto t L143 s)
      | L143 \<Rightarrow> Some (goto t (if word s AND POISONED \<noteq> 0 then Panicked else L145) s)
      | L145 \<Rightarrow> Some (goto t (L147 (word s)) (s\<lparr>word := word s OR LOCK\<rparr>))
      | L147 m \<Rightarrow> if m AND LOCK \<noteq> 0 then Some (goto t (L147 (word s)) (s\<lparr>word := word s OR LOCK\<rparr>))
                  else Some (goto t (L151 m) s)
      | L151 m \<Rightarrow> Some (goto t (if word s AND POISONED \<noteq> 0 then Panicked else L152 m) s)
      | L152 m \<Rightarrow> if m AND INIT \<noteq> 0 then map_option (\<lambda>v. goto t (Done v) s) (cell s)
                  else Some (goto t L159 s)
      | L159 \<Rightarrow> Some (goto t (case f t of Some v \<Rightarrow> L163 v | None \<Rightarrow> L169) s)
      | L163 v \<Rightarrow> Some (goto t L165 (s\<lparr>cell := Some v\<rparr>))
      | L165 \<Rightarrow> map_option (\<lambda>v. goto t (Done v) (s\<lparr>word := INIT\<rparr>)) (cell s)
      | L169 \<Rightarrow> Some (goto t L172 (s\<lparr>word := 0\<rparr>))
      | L172 \<Rightarrow> Some (goto t Broke (s\<lparr>word := POISONED\<rparr>))
      | Done v \<Rightarrow> None
      | Broke \<Rightarrow> None
      | Panicked \<Rightarrow> None)"

definition once_start :: "'v once_sys \<Rightarrow> bool" where
  "once_start s \<longleftrightarrow> word s = 0 \<and> cell s = None \<and> pcs s = (\<lambda>_. L139)"

inductive once_step :: "(nat \<Rightarrow> 'v option) \<Rightarrow> 'v once_sys \<Rightarrow> 'v once_sys \<Rightarrow> bool" for f where
  thread: "once_exec f t s = Some s' \<Longrightarrow> once_step f s s'"

inductive_cases once_stepE: "once_step f s s'"

text \<open>A schedule names the thread that makes each step.\<close>

fun once_run :: "(nat \<Rightarrow> 'v option) \<Rightarrow> nat list \<Rightarrow> 'v once_sys \<Rightarrow> 'v once_sys option" where
  "once_run f [] s = Some s"
| "once_run f (t # ts) s = Option.bind (once_exec f t s) (once_run f ts)"

lemma once_run_reachable: "once_run f ts s = Some s' \<Longrightarrow> (once_step f)\<^sup>*\<^sup>* s s'"
proof (induction ts arbitrary: s)
  case (Cons t ts)
  then obtain s1 where "once_exec f t s = Some s1" "once_run f ts s1 = Some s'"
    by (auto simp: bind_eq_Some_conv)
  then show ?case using Cons.IH by (meson converse_rtranclp_into_rtranclp thread)
qed simp

section \<open>A cell without failing initialisers\<close>

text \<open>
  The invariant: either no thread is initialising, and the word is untouched, initialised, or
  initialised with the lock bit left set; or exactly one thread is, and the word is the lock bit.
\<close>

fun owning :: "'v option \<Rightarrow> 'v pc \<Rightarrow> bool" where
  "owning c (L147 m) \<longleftrightarrow> m = 0 \<and> c = None"
| "owning c (L151 m) \<longleftrightarrow> m = 0 \<and> c = None"
| "owning c (L152 m) \<longleftrightarrow> m = 0 \<and> c = None"
| "owning c L159 \<longleftrightarrow> c = None"
| "owning c (L163 v) \<longleftrightarrow> c = None"
| "owning c L165 \<longleftrightarrow> c \<noteq> None"
| "owning c _ \<longleftrightarrow> False"

fun waiting :: "'v option \<Rightarrow> 'v pc \<Rightarrow> bool" where
  "waiting c L139 \<longleftrightarrow> True"
| "waiting c L143 \<longleftrightarrow> True"
| "waiting c L145 \<longleftrightarrow> True"
| "waiting c (L147 m) \<longleftrightarrow> m = 1 \<or> m = 3 \<or> m = 2 \<and> c \<noteq> None"
| "waiting c (L151 m) \<longleftrightarrow> m = 2 \<and> c \<noteq> None"
| "waiting c (L152 m) \<longleftrightarrow> m = 2 \<and> c \<noteq> None"
| "waiting c (Done v) \<longleftrightarrow> c = Some v"
| "waiting c _ \<longleftrightarrow> False"

definition rest_waiting :: "nat \<Rightarrow> 'v option \<Rightarrow> (nat \<Rightarrow> 'v pc) \<Rightarrow> bool" where
  "rest_waiting t c ps \<longleftrightarrow> (\<forall>u. u \<noteq> t \<longrightarrow> waiting c (ps u))"

definition once_quiet :: "'v once_sys \<Rightarrow> bool" where
  "once_quiet s \<longleftrightarrow> (word s = 0 \<and> cell s = None \<or> (word s = 2 \<or> word s = 3) \<and> cell s \<noteq> None) \<and>
     (\<forall>t. waiting (cell s) (pcs s t))"

definition once_busy :: "nat \<Rightarrow> 'v once_sys \<Rightarrow> bool" where
  "once_busy o' s \<longleftrightarrow> word s = 1 \<and> owning (cell s) (pcs s o') \<and> rest_waiting o' None (pcs s)"

definition once_inv :: "'v once_sys \<Rightarrow> bool" where
  "once_inv s \<longleftrightarrow> once_quiet s \<or> (\<exists>o'. once_busy o' s)"

lemmas once_words = LOCK_def INIT_def POISONED_def

lemma once_bits:
  "(0 :: usize) AND LOCK = 0" "(1 :: usize) AND LOCK \<noteq> 0" "(2 :: usize) AND LOCK = 0" "(3 :: usize) AND LOCK \<noteq> 0"
  "(0 :: usize) AND INIT = 0" "(1 :: usize) AND INIT = 0" "(2 :: usize) AND INIT \<noteq> 0" "(3 :: usize) AND INIT \<noteq> 0"
  "(0 :: usize) AND POISONED = 0" "(1 :: usize) AND POISONED = 0" "(2 :: usize) AND POISONED = 0"
  "(3 :: usize) AND POISONED = 0"
  "(0 :: usize) OR LOCK = 1" "(1 :: usize) OR LOCK = 1" "(2 :: usize) OR LOCK = 3" "(3 :: usize) OR LOCK = 3"
  by (simp_all add: once_words)

lemma goto_simps [simp]:
  "word (goto t p s) = word s" "cell (goto t p s) = cell s" "pcs (goto t p s) = (pcs s)(t := p)"
  by (simp_all add: goto_def)

lemma waiting_None: "waiting None p \<Longrightarrow> waiting c p"
  by (cases p) auto

lemma rest_waiting_upd [simp]: "rest_waiting t c (ps(t := p)) = rest_waiting t c ps"
  by (auto simp: rest_waiting_def)

lemma rest_waiting_other: "rest_waiting o' c ps \<Longrightarrow> waiting c p \<Longrightarrow> rest_waiting o' c (ps(t := p))"
  by (auto simp: rest_waiting_def)

lemma rest_waiting_any: "rest_waiting t None ps \<Longrightarrow> rest_waiting t c ps"
  by (auto simp: rest_waiting_def intro: waiting_None)

lemma once_quiet_goto:
  "once_quiet (goto t p s) \<longleftrightarrow>
     (word s = 0 \<and> cell s = None \<or> (word s = 2 \<or> word s = 3) \<and> cell s \<noteq> None) \<and>
     waiting (cell s) p \<and> rest_waiting t (cell s) (pcs s)"
  by (auto simp: once_quiet_def rest_waiting_def)

lemma once_busy_goto:
  "once_busy t (goto t p s) \<longleftrightarrow> word s = 1 \<and> owning (cell s) p \<and> rest_waiting t None (pcs s)"
  by (simp add: once_busy_def)

lemma quiet_step:
  assumes "once_quiet s" "once_exec f t s = Some s'"
  shows "once_quiet s' \<or> once_busy t s'"
proof -
  have w: "waiting (cell s) (pcs s t)" "rest_waiting t (cell s) (pcs s)"
    using assms(1) by (simp_all add: once_quiet_def rest_waiting_def)
  note defs = once_exec_def once_quiet_goto once_busy_goto once_words
  from assms(1) consider "word s = 0" "cell s = None" | v where "word s = 2" "cell s = Some v"
    | v where "word s = 3" "cell s = Some v"
    by (auto simp: once_quiet_def)
  then show ?thesis
  proof cases
    case 1
    then show ?thesis using assms(2) w by (cases "pcs s t") (auto simp: defs split: if_splits)
  next
    case 2
    then show ?thesis using assms(2) w by (cases "pcs s t") (auto simp: defs split: if_splits)
  next
    case 3
    then show ?thesis using assms(2) w by (cases "pcs s t") (auto simp: defs split: if_splits)
  qed
qed

lemma busy_step:
  assumes "once_busy t' s" "once_exec f t s = Some s'" "f t = Some v"
  shows "once_quiet s' \<or> once_busy t' s'"
proof -
  note defs = once_exec_def once_quiet_goto once_busy_goto once_words
  have o: "owning (cell s) (pcs s t')" "word s = 1" "rest_waiting t' None (pcs s)"
    using assms(1) by (simp_all add: once_busy_def)
  show ?thesis
  proof (cases "t = t'")
    case True
    then show ?thesis
      using assms(2,3) o rest_waiting_any [OF o(3)]
      by (cases "pcs s t'") (auto simp: defs split: if_splits)
  next
    case False
    then have w: "waiting None (pcs s t)" using o(3) by (simp add: rest_waiting_def)
    then have "word s' = 1 \<and> cell s' = cell s \<and> pcs s' = (pcs s)(t := pcs s' t) \<and> waiting None (pcs s' t)"
      using assms(2) o(2) by (cases "pcs s t") (auto simp: once_exec_def once_words)
    then obtain p where p: "word s' = 1" "cell s' = cell s" "pcs s' = (pcs s)(t := p)" "waiting None p"
      by blast
    then show ?thesis using o False rest_waiting_other [OF o(3) p(4)] by (simp add: once_busy_def)
  qed
qed

definition once_step_total :: "(nat \<Rightarrow> 'v) \<Rightarrow> 'v once_sys \<Rightarrow> 'v once_sys \<Rightarrow> bool" where
  "once_step_total g = once_step (\<lambda>t. Some (g t))"

interpretation once_cell: invariant_system once_start "once_step_total g" once_inv for g
proof
  show "once_start s \<Longrightarrow> once_inv s" for s
    by (simp add: once_start_def once_inv_def once_quiet_def)
  show "once_step_total g s s' \<Longrightarrow> once_inv s \<Longrightarrow> once_inv s'" for s s'
    unfolding once_step_total_def once_inv_def
    by (elim once_stepE disjE exE) (auto dest: quiet_step busy_step)
qed

text \<open>A thread that runs the initialiser or stores its result.\<close>

fun initialising :: "'v pc \<Rightarrow> bool" where
  "initialising L159 \<longleftrightarrow> True"
| "initialising (L163 v) \<longleftrightarrow> True"
| "initialising L165 \<longleftrightarrow> True"
| "initialising _ \<longleftrightarrow> False"

lemma waiting_pc: "waiting c p \<Longrightarrow> \<not> initialising p \<and> p \<noteq> Panicked \<and> (\<forall>v. p = Done v \<longrightarrow> c = Some v)"
  by (cases p) auto

lemma owning_pc: "owning c p \<Longrightarrow> p \<noteq> Panicked \<and> (\<forall>v. p \<noteq> Done v)"
  by (cases p) auto

text \<open>
  C5. However many threads call \<open>get_or_init\<close> on one cell and however their accesses interleave,
  at most one of them runs an initialiser at a time, none panics, nobody has returned while an
  initialiser runs, and every thread that has returned got the one value that is stored.
\<close>

theorem once_cell_safe:
  assumes "once_start s0" "(once_step (\<lambda>t. Some (g t)))\<^sup>*\<^sup>* s0 s"
  shows "(\<forall>t v. pcs s t = Done v \<longrightarrow> cell s = Some v) \<and> (\<forall>t. pcs s t \<noteq> Panicked) \<and>
    (\<forall>t u. initialising (pcs s t) \<longrightarrow> initialising (pcs s u) \<longrightarrow> t = u) \<and>
    (\<forall>t u v. initialising (pcs s t) \<longrightarrow> pcs s u \<noteq> Done v)"
proof -
  have "once_inv s"
    using once_cell.reachable_inv [OF assms(1), of g s] assms(2) by (simp add: once_step_total_def)
  then show ?thesis
    unfolding once_inv_def
  proof (elim disjE exE)
    assume "once_quiet s"
    then have "waiting (cell s) (pcs s t)" for t by (simp add: once_quiet_def)
    then show ?thesis using waiting_pc by metis
  next
    fix o' assume b: "once_busy o' s"
    then have "waiting None (pcs s t)" if "t \<noteq> o'" for t
      using that by (simp add: once_busy_def rest_waiting_def)
    then have "\<not> initialising (pcs s t) \<and> pcs s t \<noteq> Panicked \<and> (\<forall>v. pcs s t \<noteq> Done v)" if "t \<noteq> o'" for t
      using waiting_pc [of None "pcs s t"] that by auto
    moreover have "pcs s o' \<noteq> Panicked \<and> (\<forall>v. pcs s o' \<noteq> Done v)"
      using b owning_pc by (auto simp: once_busy_def)
    ultimately show ?thesis by metis
  qed
qed

definition once_fresh :: "'v once_sys" where
  "once_fresh = \<lparr>word = 0, cell = None, pcs = (\<lambda>_. L139)\<rparr>"

lemma once_fresh_start: "once_start once_fresh"
  by (simp add: once_start_def once_fresh_def)

definition late_schedule :: "nat list" where
  "late_schedule = [0, 0, 0, 0, 0, 0, 0, 0, 1, 1, 2, 2, 2, 0, 1]"

lemma late_run:
  "\<exists>s. once_run (\<lambda>t. Some t) late_schedule once_fresh = Some s \<and>
     word s = 3 \<and> pcs s 0 = Done 0 \<and> pcs s 1 = L147 2 \<and> pcs s 2 = L147 1 \<and> cell s = Some 0"
  by (simp add: late_schedule_def once_exec_def once_words once_fresh_def goto_def)

theorem once_cell_safe_witness:
  "\<exists>s. (once_step (\<lambda>t. Some t))\<^sup>*\<^sup>* once_fresh s \<and> pcs s 0 = Done 0 \<and> cell s = Some 0"
proof -
  from late_run obtain s where s: "once_run (\<lambda>t. Some t) late_schedule once_fresh = Some s" "pcs s 0 = Done 0"
    by blast
  from once_run_reachable [OF s(1)] have r: "(once_step (\<lambda>t. Some t))\<^sup>*\<^sup>* once_fresh s" .
  from once_cell_safe [OF once_fresh_start, of "\<lambda>t. t" s] r s(2) show ?thesis by auto
qed

lemma stuck_step:
  assumes "once_inv s \<and> word s = 3 \<and> (pcs s t = L147 1 \<or> pcs s t = L147 3)" "once_step (\<lambda>t. Some (g t)) s s'"
  shows "once_inv s' \<and> word s' = 3 \<and> (pcs s' t = L147 1 \<or> pcs s' t = L147 3)"
proof -
  from assms(2) obtain u where u: "once_exec (\<lambda>t. Some (g t)) u s = Some s'" by (elim once_stepE)
  have "once_inv s'"
    using assms once_cell.step_inv [of g s s'] by (simp add: once_step_total_def)
  moreover from assms(1) have q: "once_quiet s" by (auto simp: once_inv_def once_busy_def)
  then have "waiting (cell s) (pcs s u)" by (simp add: once_quiet_def)
  then have "word s' = 3 \<and> (pcs s' t = L147 1 \<or> pcs s' t = L147 3)"
    using u assms(1) by (cases "pcs s u") (auto simp: once_exec_def once_words split: if_splits)
  ultimately show ?thesis by blast
qed

text \<open>
  C25. A thread that is still in the spin loop when a late arrival has set the lock bit of an
  initialised cell never leaves the loop: whatever the other threads do from then on, it goes on
  spinning although the value is there.
\<close>

theorem late_spinner_stuck:
  assumes "once_start s0" "(once_step (\<lambda>t. Some (g t)))\<^sup>*\<^sup>* s0 s"
    and "word s = INIT OR LOCK" "pcs s t = L147 m" "m AND LOCK \<noteq> 0"
    and "(once_step (\<lambda>t. Some (g t)))\<^sup>*\<^sup>* s s'"
  shows "\<exists>m'. pcs s' t = L147 m' \<and> m' AND LOCK \<noteq> 0 \<and> word s' AND INIT \<noteq> 0"
proof -
  have inv: "once_inv s"
    using once_cell.reachable_inv [OF assms(1), of g s] assms(2) by (simp add: once_step_total_def)
  have w: "word s = 3" using assms(3) by (simp add: once_words)
  then have "once_quiet s" using inv by (auto simp: once_inv_def once_busy_def)
  then have "waiting (cell s) (L147 m)" using assms(4) by (simp add: once_quiet_def flip: assms(4))
  then have m: "m = 1 \<or> m = 3" using assms(5) by (auto simp: once_words)
  from assms(6) have "once_inv s' \<and> word s' = 3 \<and> (pcs s' t = L147 1 \<or> pcs s' t = L147 3)"
  proof (induction rule: rtranclp_induct)
    case base
    then show ?case using inv w m assms(4) by blast
  next
    case (step y z)
    then show ?case using stuck_step by blast
  qed
  then show ?thesis by (auto simp: once_words)
qed

theorem late_spinner_stuck_witness:
  "\<exists>s s' m. once_run (\<lambda>t. Some t) late_schedule once_fresh = Some s \<and>
     once_run (\<lambda>t. Some t) [2, 1, 1, 1, 2] s = Some s' \<and> pcs s' 1 = Done 0 \<and>
     pcs s' 2 = L147 m \<and> m AND LOCK \<noteq> 0"
proof -
  from late_run obtain s where s: "once_run (\<lambda>t. Some t) late_schedule once_fresh = Some s"
    "word s = 3" "pcs s 1 = L147 2" "pcs s 2 = L147 1" "cell s = Some 0" by blast
  obtain s' where s': "once_run (\<lambda>t. Some t) [2, 1, 1, 1, 2] s = Some s'" "pcs s' 1 = Done 0"
    using s(2-) by (simp add: once_exec_def once_words goto_def)
  from late_spinner_stuck [OF once_fresh_start once_run_reachable [OF s(1)], of 2 1 s']
    once_run_reachable [OF s'(1)] s s' show ?thesis by (auto simp: once_words)
qed

section \<open>A failing initialiser\<close>

text \<open>Whatever the initialisers do, values come from an initialiser only.\<close>

definition values_made :: "(nat \<Rightarrow> 'v option) \<Rightarrow> 'v once_sys \<Rightarrow> bool" where
  "values_made f s \<longleftrightarrow>
     (\<forall>v. cell s = Some v \<longrightarrow> (\<exists>u. f u = Some v)) \<and>
     (\<forall>t v. pcs s t = Done v \<or> pcs s t = L163 v \<longrightarrow> (\<exists>u. f u = Some v))"

interpretation once_values: invariant_system once_start "once_step f" "values_made f" for f
proof
  show "once_start s \<Longrightarrow> values_made f s" for s
    by (simp add: once_start_def values_made_def)
  show "once_step f s s' \<Longrightarrow> values_made f s \<Longrightarrow> values_made f s'" for s s'
  proof (elim once_stepE)
    fix t assume t: "once_exec f t s = Some s'" "values_made f s"
    then show "values_made f s'"
      by (cases "pcs s t") (auto simp: once_exec_def values_made_def split: if_splits option.splits)
  qed
qed

text \<open>
  C26. What is left of the cell's promise when an initialiser can give up, as \<open>get\<close> on an empty cell does. In every reachable
  state each value that is stored or was returned is one that some thread's initialiser gave. But it need not be the same one for all:
  a thread that gives up resets the word before its guard poisons it, so another thread can be initialising by then. From any
  state in which that is so while a third thread spins, the poison is taken for an unlocked word: both other threads
  store their values, each returns its own, and the cell ends as initialised with the second, behind the back of the thread
  that has returned the first; the poison itself is lost.
\<close>

theorem failed_init_race:
  assumes "once_start s0" "(once_step f)\<^sup>*\<^sup>* s0 s"
    and "pcs s t = L172" "pcs s u = L163 a" "pcs s w = L147 m" "m AND LOCK \<noteq> 0" "f w = Some b"
  shows "values_made f s \<and>
    (\<exists>s'. once_run f [t, w, w, u, u, w, w, w, w, w] s = Some s' \<and>
       pcs s' t = Broke \<and> pcs s' u = Done a \<and> pcs s' w = Done b \<and> cell s' = Some b \<and> word s' = INIT)"
proof -
  have ne: "t \<noteq> u" "t \<noteq> w" "u \<noteq> w" using assms(3-5) by auto
  note bits = once_words
  have "POISONED AND LOCK = 0" "POISONED AND INIT = 0" "INIT AND POISONED = 0" by (simp_all add: bits)
  then have "\<exists>s'. once_run f [t, w, w, u, u, w, w, w, w, w] s = Some s' \<and>
       pcs s' t = Broke \<and> pcs s' u = Done a \<and> pcs s' w = Done b \<and> cell s' = Some b \<and> word s' = INIT"
    using assms(3-7) ne by (simp add: once_exec_def)
  then show ?thesis using once_values.reachable_inv [OF assms(1,2)] by blast
qed

definition race_schedule :: "nat list" where
  "race_schedule = [0, 0, 0, 0, 0, 0, 0, 0, 1, 1, 1, 1, 1, 1, 1, 2, 2, 2]"

theorem failed_init_race_witness:
  "\<exists>s s'. once_run (\<lambda>t. if t = 0 then None else Some t) race_schedule once_fresh = Some s \<and>
     once_run (\<lambda>t. if t = 0 then None else Some t) [0, 2, 2, 1, 1, 2, 2, 2, 2, 2] s = Some s' \<and>
     pcs s' 1 = Done 1 \<and> cell s' = Some 2"
proof -
  let ?f = "\<lambda>t. if t = 0 then None else Some t"
  obtain s where s: "once_run ?f race_schedule once_fresh = Some s" "pcs s 0 = L172" "pcs s 1 = L163 1" "pcs s 2 = L147 1"
    by (simp add: race_schedule_def once_exec_def once_words once_fresh_def goto_def)
  from failed_init_race [OF once_fresh_start once_run_reachable [OF s(1)] s(2-4), of 2] s(1) show ?thesis
    by (auto simp: once_words)
qed

section \<open>One thread alone\<close>

text \<open>The cell as its user sees it.\<close>

datatype 'a once_abs = Fresh | Ready 'a | Poisoned

fun once_rep :: "'a once_abs \<Rightarrow> 'a once" where
  "once_rep Fresh = \<lparr>lock = 0, val = None\<rparr>"
| "once_rep (Ready v) = \<lparr>lock = INIT, val = Some v\<rparr>"
| "once_rep Poisoned = \<lparr>lock = POISONED, val = None\<rparr>"

text \<open>
  C27. For one thread the cell is a three-state machine: empty, holding a value, or poisoned. Every
  shared operation on a poisoned cell panics; an initialiser that fails poisons an empty cell when
  the operation is shared and leaves it empty when it is exclusive; \<open>set\<close> gives the value back
  exactly when there was one. \<open>take\<close> empties a cell that holds a value, but leaves a poisoned cell poisoned, where its
  documentation says that the cell is reset as if it was replaced by a new one.
\<close>

theorem once_sequential:
  "get_or_try_init (once_rep a) f =
     (case a of
        Ready v \<Rightarrow> Some (Ret (Inr v, once_rep a))
      | Poisoned \<Rightarrow> Some Panic
      | Fresh \<Rightarrow> Some (Ret (f, once_rep (case f of Inr v \<Rightarrow> Ready v | Inl r \<Rightarrow> Poisoned)))) \<and>
   get_or_try_init_mut (once_rep a) f =
     (case a of
        Ready v \<Rightarrow> Ret (Inr v, once_rep a)
      | Poisoned \<Rightarrow> Panic
      | Fresh \<Rightarrow> Ret (f, once_rep (case f of Inr v \<Rightarrow> Ready v | Inl r \<Rightarrow> Fresh))) \<and>
   once_set (once_rep a) x =
     (case a of
        Ready v \<Rightarrow> Some (Ret (Inl x, once_rep a))
      | Poisoned \<Rightarrow> Some Panic
      | Fresh \<Rightarrow> Some (Ret (Inr (), once_rep (Ready x)))) \<and>
   once_get (once_rep a) =
     (case a of
        Ready v \<Rightarrow> Some (Ret (Inr v, once_rep a))
      | Poisoned \<Rightarrow> Some Panic
      | Fresh \<Rightarrow> Some (Ret (Inl (), once_rep Poisoned))) \<and>
   once_take (once_rep a) =
     (case a of Ready v \<Rightarrow> (Some v, once_rep Fresh) | Fresh \<Rightarrow> (None, once_rep a) | Poisoned \<Rightarrow> (None, once_rep a)) \<and>
   force_unlock (once_rep a) = once_rep a"
  by (cases a; cases f)
    (simp_all add: get_or_try_init_def get_or_try_init_mut_def try_get_or_init_def try_get_or_init_mut_def
      once_set_def once_get_def once_take_def force_unlock_def is_init_def check_poison_def once_words Let_def)

text \<open>
  Forcing a new lazy cell runs its initialiser, returns its value and leaves a cell that gives
  the same value ever after; but asking a cell that was not forced yet for its value with \<open>get\<close>
  makes every later use panic.
\<close>

theorem lazy_force_behaviour:
  "\<exists>l l'. lazy_force (lazy_new v) = Some (Ret (v, l)) \<and> lazy_force l = Some (Ret (v, l)) \<and>
     lazy_force_mut (lazy_new v) = Ret (v, l) \<and> lazy_force_mut l = Ret (v, l) \<and>
     lazy_force (lazy_new_init v) = Some (Ret (v, lazy_new_init v)) \<and>
     lazy_get (lazy_new v) = Some (Ret (Inl (), l')) \<and> lazy_force l' = Some Panic \<and> lazy_force_mut l' = Panic"
  by (simp add: lazy_force_def lazy_force_mut_def lazy_get_def lazy_new_def lazy_new_init_def once_new_def
      once_new_init_def once_get_def try_get_or_init_def try_get_or_init_mut_def lazy_closure_def
      lazy_result_def is_init_def check_poison_def once_words Let_def)

end
