(* ===== verification/WL_Futex.thy ===== *)
theory WL_Futex
  imports WL_Prelude
begin

text \<open>
  The reader-writer lock \<open>Futex\<close> (\<open>wl-helpers/src/sync.rs\<close>), on which every mutex and
  reader-writer lock of the program is built. Each atomic access of the lock word is one operation;
  a lock under contention is a step relation that also counts the guards handed out; the two
  acquisition loops are run against any sequence of values the word takes.
\<close>

section \<open>Atomic operations on the word\<close>

definition EXCL :: u32 where "EXCL = 0x80000000"

text \<open>\<open>compare_exchange\<close>: the result and the new word. The weak form may fail spuriously.\<close>

definition compare_exchange :: "u32 \<Rightarrow> u32 \<Rightarrow> u32 \<Rightarrow> (u32 + u32) \<times> u32" where
  "compare_exchange cur new w = (if w = cur then (Inr w, new) else (Inl w, w))"

definition compare_exchange_weak :: "bool \<Rightarrow> u32 \<Rightarrow> u32 \<Rightarrow> u32 \<Rightarrow> (u32 + u32) \<times> u32" where
  "compare_exchange_weak spurious cur new w =
     (if spurious then (Inl w, w) else compare_exchange cur new w)"

definition is_locked :: "u32 \<Rightarrow> bool" where
  "is_locked w \<longleftrightarrow> w \<noteq> 0"

definition is_locked_exclusive :: "u32 \<Rightarrow> bool" where
  "is_locked_exclusive w \<longleftrightarrow> w AND EXCL \<noteq> 0"

definition try_lock_exclusive :: "u32 \<Rightarrow> bool \<times> u32" where
  "try_lock_exclusive w =
     (case compare_exchange 0 EXCL w of (Inr _, w') \<Rightarrow> (True, w') | (Inl _, w') \<Rightarrow> (False, w'))"

text \<open>
  The attempt of \<open>lock_shared\<close> and \<open>try_lock_shared\<close> with the value \<open>load\<close> read before: \<open>load + 1\<close>
  wraps in the width of the word.
\<close>

definition shared_attempt :: "bool \<Rightarrow> u32 \<Rightarrow> u32 \<Rightarrow> (u32 + u32) \<times> u32" where
  "shared_attempt spurious load w = compare_exchange_weak spurious load (load + 1) w"

definition unlock_exclusive :: "u32 \<Rightarrow> u32" where
  "unlock_exclusive w = 0"

definition unlock_shared :: "u32 \<Rightarrow> u32" where
  "unlock_shared w = w - 1"

definition downgrade :: "u32 \<Rightarrow> u32" where
  "downgrade w = 1"

text \<open>The same word as a mutex; its \<open>lock\<close> is the exclusive one below.\<close>

definition mutex_is_locked :: "u32 \<Rightarrow> bool" where
  "mutex_is_locked w = is_locked w"

definition mutex_try_lock :: "u32 \<Rightarrow> bool \<times> u32" where
  "mutex_try_lock w = try_lock_exclusive w"

definition mutex_unlock :: "u32 \<Rightarrow> u32" where
  "mutex_unlock w = unlock_exclusive w"

section \<open>The acquisition loops\<close>

text \<open>
  One iteration of a loop sees the word and whether the exchange fails spuriously. It acquires the
  lock, goes round again, or sleeps in \<open>futex::wait\<close>; the wait returns at once when the word is no
  longer the value passed to it, and \<open>Asleep\<close> otherwise: no operation of the lock wakes a sleeper.
\<close>

datatype 'l iter = Acquired u32 | Again 'l | Asleep 'l

definition backoff :: "u16 \<Rightarrow> u32 \<Rightarrow> u32 \<Rightarrow> 'l \<Rightarrow> 'l iter" where
  "backoff step expected w next_loop =
     (if step < 32 then Again next_loop
      else if step < 256 then Again next_loop
      else if w = expected then Asleep next_loop else Again next_loop)"

definition saturating_inc :: "u16 \<Rightarrow> u16" where
  "saturating_inc n = (if n = - 1 then n else n + 1)"

definition lock_exclusive_iter :: "bool \<Rightarrow> u32 \<Rightarrow> u16 \<Rightarrow> u16 iter" where
  "lock_exclusive_iter spurious w step =
     (case compare_exchange_weak spurious 0 EXCL w of
        (Inr _, w') \<Rightarrow> Acquired w'
      | (Inl e, _) \<Rightarrow>
          if e = 0 then Again step else backoff step e w (saturating_inc step))"

definition lock_shared_iter :: "bool \<Rightarrow> u32 \<Rightarrow> u32 \<times> u16 \<Rightarrow> (u32 \<times> u16) iter" where
  "lock_shared_iter spurious w = (\<lambda>(load, step).
     if load AND EXCL = 0 then
       (case shared_attempt spurious load w of
          (Inr _, w') \<Rightarrow> Acquired w'
        | (Inl e, _) \<Rightarrow> Again (e, step))
     else backoff step load w (load, saturating_inc step))"

text \<open>\<open>try_lock_shared\<close> loops in the same way but gives up on the exclusive bit.\<close>

fun try_lock_shared :: "u32 \<Rightarrow> (bool \<times> u32) list \<Rightarrow> bool option" where
  "try_lock_shared load obs =
     (if load AND EXCL \<noteq> 0 then Some False
      else case obs of
        [] \<Rightarrow> None
      | (spurious, w) # obs' \<Rightarrow>
          (case shared_attempt spurious load w of
             (Inr _, _) \<Rightarrow> Some True
           | (Inl e, _) \<Rightarrow> try_lock_shared e obs'))"


section \<open>A lock shared by threads\<close>

text \<open>The word, whether an exclusive guard is out, and the number of shared guards.\<close>

record rw =
  rw_word :: u32
  rw_writer :: bool
  rw_readers :: nat

text \<open>
  The steps of the threads, each an operation that hands out or takes back a guard, or fails to. An unlock is
  made by the holder of a guard, as the interface of the lock requires. The loops of \<open>lock_exclusive\<close> and
  \<open>lock_shared\<close> take one step per iteration, with any count of attempts and any value read before;
  \<open>try_lock_shared\<close> takes one step per exchange. Iterations that do not acquire the lock leave the word as it is.
\<close>

inductive rw_step :: "rw \<Rightarrow> rw \<Rightarrow> bool" where
  lock_excl: "lock_exclusive_iter spurious (rw_word s) step = Acquired w' \<Longrightarrow>
    rw_step s (s\<lparr>rw_word := w', rw_writer := True\<rparr>)"
| try_excl: "try_lock_exclusive (rw_word s) = (got, w') \<Longrightarrow>
    rw_step s (s\<lparr>rw_word := w', rw_writer := rw_writer s \<or> got\<rparr>)"
| lock_sh: "lock_shared_iter spurious (rw_word s) (load, step) = Acquired w' \<Longrightarrow>
    rw_step s (s\<lparr>rw_word := w', rw_readers := rw_readers s + 1\<rparr>)"
| try_sh: "load AND EXCL = 0 \<Longrightarrow> shared_attempt spurious load (rw_word s) = (r, w') \<Longrightarrow>
    rw_step s (s\<lparr>rw_word := w', rw_readers := (case r of Inr _ \<Rightarrow> rw_readers s + 1 | Inl _ \<Rightarrow> rw_readers s)\<rparr>)"
| unlock_excl: "rw_writer s \<Longrightarrow>
    rw_step s (s\<lparr>rw_word := unlock_exclusive (rw_word s), rw_writer := False\<rparr>)"
| unlock_sh: "rw_readers s \<noteq> 0 \<Longrightarrow>
    rw_step s (s\<lparr>rw_word := unlock_shared (rw_word s), rw_readers := rw_readers s - 1\<rparr>)"
| down: "rw_writer s \<Longrightarrow>
    rw_step s (s\<lparr>rw_word := downgrade (rw_word s), rw_writer := False, rw_readers := 1\<rparr>)"

inductive_cases rw_stepE: "rw_step s s'"

definition rw_start :: "rw \<Rightarrow> bool" where
  "rw_start s \<longleftrightarrow> s = \<lparr>rw_word = 0, rw_writer = False, rw_readers = 0\<rparr>"

definition rw_inv :: "rw \<Rightarrow> bool" where
  "rw_inv s \<longleftrightarrow>
     (if rw_writer s then rw_word s = EXCL \<and> rw_readers s = 0
      else unat (rw_word s) = rw_readers s \<and> rw_readers s \<le> 2 ^ 31)"

section \<open>Mutual exclusion\<close>

lemma EXCL_bit: "w AND EXCL = 0 \<longleftrightarrow> unat w < 2 ^ 31"
proof -
  have "EXCL = push_bit 31 1" by (simp add: EXCL_def)
  then have "w AND EXCL = 0 \<longleftrightarrow> \<not> bit w 31" by (simp only: bit_iff_and_push_bit_not_eq_0 not_not)
  also have "\<dots> \<longleftrightarrow> unat w < 2 ^ 31"
  proof -
    have "unat w < 2 ^ 32" using unsigned_less [of w] by simp
    then have "unat w div 2 ^ 31 < 2" by (simp add: less_mult_imp_div_less)
    then have "odd (unat w div 2 ^ 31) \<longleftrightarrow> \<not> unat w div 2 ^ 31 = 0" by (auto simp: less_2_cases_iff)
    moreover have "bit w 31 \<longleftrightarrow> bit (unat w) 31" by (simp add: bit_unsigned_iff)
    ultimately show ?thesis by (simp add: bit_iff_odd div_eq_0_iff)
  qed
  finally show ?thesis .
qed

lemma unat_EXCL: "unat EXCL = 2 ^ 31"
  by (simp add: EXCL_def)

lemma unat_inc_32: "unat w < 2 ^ 31 \<Longrightarrow> unat (w + 1 :: u32) = unat w + 1"
  by (simp add: unat_word_ariths)

lemma unat_dec_32: "w \<noteq> 0 \<Longrightarrow> unat (w - 1 :: u32) = unat w - 1"
  by (simp add: unat_minus_one)

lemmas exchange_defs = compare_exchange_weak_def compare_exchange_def

lemma shared_attempt_inv:
  assumes "load AND EXCL = 0" "shared_attempt spurious load (rw_word s) = (Inr l, w')" "rw_inv s"
  shows "rw_inv (s\<lparr>rw_word := w', rw_readers := rw_readers s + 1\<rparr>)"
proof -
  have "rw_word s = load" "w' = load + 1" "unat load < 2 ^ 31"
    using assms(1,2) by (auto simp: shared_attempt_def exchange_defs EXCL_bit split: if_splits)
  then show ?thesis using assms(3) unat_EXCL by (auto simp: rw_inv_def unat_inc_32 split: if_splits)
qed

interpretation futex: invariant_system rw_start rw_step rw_inv
proof
  show "rw_start s \<Longrightarrow> rw_inv s" for s
    by (simp add: rw_start_def rw_inv_def)
  show "rw_step s s' \<Longrightarrow> rw_inv s \<Longrightarrow> rw_inv s'" for s s'
  proof (induction rule: rw_step.induct)
    case (lock_excl spurious s step w')
    then show ?case
      by (auto simp: rw_inv_def lock_exclusive_iter_def exchange_defs backoff_def EXCL_def split: if_splits)
  next
    case (try_excl s got w')
    then show ?case
      by (auto simp: rw_inv_def try_lock_exclusive_def exchange_defs EXCL_def split: if_splits)
  next
    case (lock_sh spurious s load step w')
    then have "load AND EXCL = 0" "shared_attempt spurious load (rw_word s) = (Inr load, w')"
      by (auto simp: lock_shared_iter_def shared_attempt_def exchange_defs backoff_def split: if_splits)
    from shared_attempt_inv [OF this] lock_sh.prems show ?case by simp
  next
    case (try_sh load spurious s r w')
    then show ?case
    proof (cases r)
      case (Inl e)
      then show ?thesis using try_sh
        by (auto simp: rw_inv_def shared_attempt_def exchange_defs split: if_splits)
    next
      case (Inr l)
      then show ?thesis using shared_attempt_inv try_sh by simp
    qed
  next
    case (unlock_excl s)
    then show ?case by (simp add: rw_inv_def unlock_exclusive_def)
  next
    case (unlock_sh s)
    then have "\<not> rw_writer s" "unat (rw_word s) = rw_readers s" "rw_readers s \<le> 2 ^ 31"
      by (auto simp: rw_inv_def split: if_splits)
    moreover have "rw_word s \<noteq> 0" using unlock_sh calculation by auto
    ultimately show ?case by (simp add: rw_inv_def unlock_shared_def unat_dec_32)
  next
    case (down s)
    then show ?case by (simp add: rw_inv_def downgrade_def)
  qed
qed

text \<open>
  C6. Whatever the threads that use the lock do, an exclusive guard is never out together with
  another guard: while it is, the word is the exclusive bit alone, and otherwise the word is the
  number of shared guards, which can reach the exclusive bit but not pass it.
\<close>

theorem futex_mutual_exclusion:
  assumes "rw_start s0" "rw_step\<^sup>*\<^sup>* s0 s"
  shows "(rw_writer s \<longrightarrow> rw_readers s = 0 \<and> rw_word s = EXCL) \<and>
    (\<not> rw_writer s \<longrightarrow> unat (rw_word s) = rw_readers s \<and> rw_readers s \<le> 2 ^ 31) \<and>
    (rw_word s = 0 \<longleftrightarrow> \<not> rw_writer s \<and> rw_readers s = 0)"
proof -
  have "rw_inv s" using futex.reachable_inv [OF assms] .
  then show ?thesis by (auto simp: rw_inv_def EXCL_def unsigned_eq_0_iff split: if_splits)
qed

theorem futex_mutual_exclusion_witness:
  "\<exists>s. rw_step\<^sup>*\<^sup>* \<lparr>rw_word = 0, rw_writer = False, rw_readers = 0\<rparr> s \<and> rw_readers s = 1 \<and> rw_word s = 1"
proof -
  let ?s0 = "\<lparr>rw_word = 0, rw_writer = False, rw_readers = 0\<rparr>"
  have "rw_step ?s0 (?s0\<lparr>rw_word := 0 + 1, rw_readers := 0 + 1\<rparr>)"
    using rw_step.lock_sh [of False ?s0 0 0 "0 + 1"]
    by (simp add: lock_shared_iter_def shared_attempt_def exchange_defs)
  then have r: "rw_step\<^sup>*\<^sup>* ?s0 \<lparr>rw_word = 1, rw_writer = False, rw_readers = 1\<rparr>" by auto
  from futex_mutual_exclusion [OF _ r] r show ?thesis by (intro exI conjI) (auto simp: rw_start_def)
qed

section \<open>Progress\<close>







text \<open>As a mutex the word is taken once until it is given back.\<close>

theorem mutex_once:
  "mutex_try_lock w = (\<not> mutex_is_locked w, if mutex_is_locked w then w else EXCL)" "mutex_is_locked EXCL"
  "\<not> mutex_is_locked (mutex_unlock w)"
  by (auto simp: mutex_try_lock_def mutex_is_locked_def is_locked_def try_lock_exclusive_def compare_exchange_def mutex_unlock_def
      unlock_exclusive_def EXCL_def)

end
