(* ===== verification/WL_Mappings.thy ===== *)
theory WL_Mappings
  imports WL_Memory
begin

text \<open>
  The users of the kernel's memory mappings: the page allocator \<open>MmapAllocator\<close>
  (\<open>wl-helpers/src/lib.rs\<close>), the shared memory allocator \<open>ShmemAlloc\<close> (\<open>wl-impl/src/global.rs\<close>) and
  the mapping system calls (\<open>wl-usi-process/src/mem.rs\<close>). The kernel is a parameter: a function from
  a call to its answer. Every operation returns the calls it made, in order, beside its result. The
  constants of the two kernels' interfaces are parameters as well, grouped in two records.
\<close>

record linux =
  PROT_NONE :: u32
  PROT_READ :: u32
  PROT_WRITE :: u32
  PROT_EXEC :: u32
  MAP_PRIVATE :: u32
  MAP_ANONYMOUS :: u32
  MAP_SHARED_VALIDATE :: u32
  MAP_SYNC :: u32
  MREMAP_MAYMOVE :: u32
  MFD_CLOEXEC :: u32

datatype kcall =
    Mmap u64 usize u32 u32 u32
  | Munmap u64 usize
  | Mremap u64 usize usize u32
  | Mprotect u64 usize u32
  | MemfdCreate u32
  | Ftruncate u32 u64
  | Close u32

type_synonym kernel = "kcall \<Rightarrow> errno + u64"

text \<open>\<open>v.next_multiple_of(4096)\<close>; the size of a layout is far from the end of the type.\<close>

definition next_page :: "usize \<Rightarrow> usize" where
  "next_page v = (if v mod 4096 = 0 then v else v + (4096 - v mod 4096))"

record layout =
  l_size :: usize
  l_align :: usize

section \<open>The page allocator\<close>

text \<open>A block is its address with its length; the left summand is \<open>AllocError\<close>.\<close>

type_synonym block = "u64 \<times> usize"

definition non_null :: "errno + u64 \<Rightarrow> usize \<Rightarrow> unit + block" where
  "non_null r sz = (case r of Inr p \<Rightarrow> if p = 0 then Inl () else Inr (p, sz) | Inl e \<Rightarrow> Inl ())"

definition mmap_allocate_zeroed :: "linux \<Rightarrow> u64 \<Rightarrow> kernel \<Rightarrow> layout \<Rightarrow> (unit + block) \<times> kcall list" where
  "mmap_allocate_zeroed L hint k l =
     (if 4096 < l_align l then (Inl (), [])
      else let size = next_page (l_size l) in
        if size = 0 then (Inr (l_align l, 0), [])
        else let c = Mmap hint size (PROT_READ L OR PROT_WRITE L) (MAP_ANONYMOUS L OR MAP_PRIVATE L) (- 1) in
          (non_null (k c) size, [c]))"

definition mmap_deallocate :: "u64 \<Rightarrow> layout \<Rightarrow> kcall list" where
  "mmap_deallocate ptr l =
     (let size = next_page (l_size l) in if size \<noteq> 0 then [Munmap ptr size] else [])"

definition mmap_shrink :: "linux \<Rightarrow> kernel \<Rightarrow> u64 \<Rightarrow> layout \<Rightarrow> layout \<Rightarrow> (unit + block) \<times> kcall list" where
  "mmap_shrink L k ptr old_l new_l =
     (if 4096 < l_align new_l then (Inl (), [])
      else let new_size = next_page (l_size new_l); old_size = next_page (l_size old_l) in
        if new_size = 0 then (Inr (l_align new_l, 0), mmap_deallocate ptr old_l)
        else if new_size = old_size then (Inr (ptr, new_size), [])
        else let c = Mremap ptr old_size new_size (MREMAP_MAYMOVE L) in (non_null (k c) new_size, [c]))"

definition mmap_grow_zeroed ::
    "linux \<Rightarrow> u64 \<Rightarrow> kernel \<Rightarrow> u64 \<Rightarrow> layout \<Rightarrow> layout \<Rightarrow> (unit + block) \<times> kcall list" where
  "mmap_grow_zeroed L hint k ptr old_l new_l =
     (if 4096 < l_align new_l then (Inl (), [])
      else let new_size = next_page (l_size new_l); old_size = next_page (l_size old_l) in
        if old_size = 0 then mmap_allocate_zeroed L hint k new_l
        else if new_size = old_size then (Inr (ptr, new_size), [])
        else let c = Mremap ptr old_size new_size (MREMAP_MAYMOVE L) in (non_null (k c) new_size, [c]))"

text \<open>The allocator with its hint, and the operations of the trait that are defined by the zeroing ones.\<close>

record mmap_allocator =
  hint_base_addr :: u64

definition new_with_hint :: "u64 \<Rightarrow> mmap_allocator" where
  "new_with_hint hint = \<lparr> hint_base_addr = hint \<rparr>"

definition mmap_allocate :: "linux \<Rightarrow> mmap_allocator \<Rightarrow> kernel \<Rightarrow> layout \<Rightarrow> (unit + block) \<times> kcall list" where
  "mmap_allocate L A k l = mmap_allocate_zeroed L (hint_base_addr A) k l"

definition mmap_grow ::
    "linux \<Rightarrow> mmap_allocator \<Rightarrow> kernel \<Rightarrow> u64 \<Rightarrow> layout \<Rightarrow> layout \<Rightarrow> (unit + block) \<times> kcall list" where
  "mmap_grow L A k ptr old_l new_l = mmap_grow_zeroed L (hint_base_addr A) k ptr old_l new_l"

text \<open>The global allocator of the runtime asks for pages without a hint; the pools on top are \<open>pooled_arena_malloc\<close>'s.\<close>

definition ALLOC :: mmap_allocator where
  "ALLOC = new_with_hint 0"

section \<open>The shared memory allocator\<close>

text \<open>
  The table maps the address of an allocation to the descriptor of its memory object. Replacing or
  removing an entry drops an \<open>OwnedFd\<close>, which closes it.
\<close>

type_synonym shm = "u64 \<rightharpoonup> u32"

definition drop_fd :: "u32 option \<Rightarrow> kcall list" where
  "drop_fd fd = (case fd of Some fd \<Rightarrow> [Close fd] | None \<Rightarrow> [])"

definition fd_for_alloc :: "shm \<Rightarrow> u64 \<Rightarrow> u32 option" where
  "fd_for_alloc T addr = T addr"

definition shm_allocate_zeroed ::
    "linux \<Rightarrow> kernel \<Rightarrow> layout \<Rightarrow> shm \<Rightarrow> ((unit + block) \<times> shm \<times> kcall list) run" where
  "shm_allocate_zeroed L k l T =
     (if l_size l = 0 then Ret (Inr (l_align l, 0), T, [])
      else if 4096 < l_align l then Ret (Inl (), T, [])
      else let c1 = MemfdCreate (MFD_CLOEXEC L) in
        case k c1 of
          Inl e \<Rightarrow> Ret (Inl (), T, [c1])
        | Inr r \<Rightarrow>
            let fd = ucast r in
            if sint fd < 0 then Ret (Inl (), T, [c1])
            else let c2 = Ftruncate fd (l_size l) in
              case k c2 of
                Inl e \<Rightarrow> Ret (Inl (), T, [c1, c2, Close fd])
              | Inr _ \<Rightarrow>
                  let c3 = Mmap 0 (l_size l) (PROT_READ L OR PROT_WRITE L) (MAP_SHARED_VALIDATE L OR MAP_SYNC L) fd in
                  case k c3 of
                    Inl e \<Rightarrow> Ret (Inl (), T, [c1, c2, c3, Close fd])
                  | Inr p \<Rightarrow>
                      if p = 0 then Panic
                      else Ret (Inr (p, l_size l), T(p \<mapsto> fd), [c1, c2, c3] @ drop_fd (T p)))"

definition shm_deallocate :: "u64 \<Rightarrow> layout \<Rightarrow> shm \<Rightarrow> shm \<times> kcall list" where
  "shm_deallocate ptr l T =
     (if l_size l = 0 then (T, [])
      else (T(ptr := None), Munmap ptr (l_size l) # drop_fd (T ptr)))"

definition shm_grow_zeroed ::
    "linux \<Rightarrow> kernel \<Rightarrow> u64 \<Rightarrow> layout \<Rightarrow> layout \<Rightarrow> shm \<Rightarrow> ((unit + block) \<times> shm \<times> kcall list) run" where
  "shm_grow_zeroed L k addr old_l new_l T =
     (if 4096 < l_align new_l then Ret (Inl (), T, [])
      else if l_size old_l = 0 then shm_allocate_zeroed L k new_l T
      else case fd_for_alloc T addr of
        None \<Rightarrow> Panic
      | Some fd \<Rightarrow>
          let c1 = Ftruncate fd (l_size new_l) in
          case k c1 of
            Inl e \<Rightarrow> Ret (Inl (), T, [c1])
          | Inr _ \<Rightarrow>
              let c2 = Mremap addr (l_size old_l) (l_size new_l) (MREMAP_MAYMOVE L) in
              case k c2 of
                Inl e \<Rightarrow> Ret (Inl (), T, [c1, c2])
              | Inr p \<Rightarrow>
                  if sint p < 0 then Ret (Inl (), T, [c1, c2])
                  else if p = 0 then Panic
                  else let T' = T(addr := None) in
                    Ret (Inr (p, l_size new_l), T'(p \<mapsto> fd), [c1, c2] @ drop_fd (T' p)))"

definition shm_shrink :: "kernel \<Rightarrow> u64 \<Rightarrow> layout \<Rightarrow> layout \<Rightarrow> shm \<Rightarrow> ((unit + block) \<times> shm \<times> kcall list) run" where
  "shm_shrink k ptr old_l new_l T =
     (if l_size new_l = 0
      then case shm_deallocate ptr old_l T of (T', cs) \<Rightarrow> Ret (Inr (l_align new_l, 0), T', cs)
      else let c = Mremap ptr (l_size old_l) (l_size new_l) 0 in
        case k c of
          Inl e \<Rightarrow> Ret (Inl (), T, [c])
        | Inr p \<Rightarrow> if p = 0 then Panic else Ret (Inr (p, l_size new_l), T, [c]))"

definition shm_allocate :: "linux \<Rightarrow> kernel \<Rightarrow> layout \<Rightarrow> shm \<Rightarrow> ((unit + block) \<times> shm \<times> kcall list) run" where
  "shm_allocate L k l T = shm_allocate_zeroed L k l T"

definition shm_grow ::
    "linux \<Rightarrow> kernel \<Rightarrow> u64 \<Rightarrow> layout \<Rightarrow> layout \<Rightarrow> shm \<Rightarrow> ((unit + block) \<times> shm \<times> kcall list) run" where
  "shm_grow L k addr old_l new_l T = shm_grow_zeroed L k addr old_l new_l T"

section \<open>The mapping system calls\<close>

record map_abi =
  ATTR_READ :: u32
  ATTR_WRITE :: u32
  ATTR_EXEC :: u32
  ATTR_THREAD_PRIVATE :: u32
  ATTR_PROC_PRIVATE :: u32
  ATTR_RESERVE :: u32
  KIND_NORMAL :: u32
  KIND_RESIDENT :: u32
  KIND_SECURE :: u32
  KIND_ENCRYPTED :: u32

definition linux_prot :: "linux \<Rightarrow> map_abi \<Rightarrow> u32 \<Rightarrow> u32" where
  "linux_prot L S map_attrs =
     (let p = 0;
          p = (if map_attrs AND ATTR_READ S \<noteq> 0 then p OR PROT_READ L else p);
          p = (if map_attrs AND ATTR_WRITE S \<noteq> 0 then p OR PROT_WRITE L else p);
          p = (if map_attrs AND ATTR_EXEC S \<noteq> 0 then p OR PROT_EXEC L else p)
      in if map_attrs AND ATTR_RESERVE S \<noteq> 0 then p OR PROT_NONE L else p)"

definition write_and_exec :: "map_abi \<Rightarrow> u32 \<Rightarrow> bool" where
  "write_and_exec S map_attrs \<longleftrightarrow>
     map_attrs AND (ATTR_WRITE S OR ATTR_EXEC S) = (ATTR_WRITE S OR ATTR_EXEC S)"

text \<open>The call that \<open>CreateMapping\<close> makes, for a hint address it has read.\<close>

definition create_mapping_call :: "linux \<Rightarrow> map_abi \<Rightarrow> u64 \<Rightarrow> usize \<Rightarrow> u32 \<Rightarrow> u32 \<Rightarrow> sys_error + kcall" where
  "create_mapping_call L S hint page_count map_attrs map_kind =
     (if map_attrs AND NOT (ATTR_READ S OR ATTR_WRITE S OR ATTR_EXEC S OR ATTR_THREAD_PRIVATE S OR
           ATTR_PROC_PRIVATE S OR ATTR_RESERVE S) \<noteq> 0 \<or>
         map_kind \<notin> {KIND_NORMAL S, KIND_RESIDENT S, KIND_SECURE S, KIND_ENCRYPTED S}
      then Inl InvalidOperation
      else if write_and_exec S map_attrs then Inl InvalidOperation
      else let flags = MAP_PRIVATE L OR MAP_ANONYMOUS L;
               flags = (if map_attrs AND ATTR_PROC_PRIVATE S \<noteq> 0 then flags OR MAP_PRIVATE L else flags)
        in Inr (Mmap hint (page_count * 4095) (linux_prot L S map_attrs) flags (- 1)))"

text \<open>\<open>base_addr.read()\<close> and \<open>ptr::write\<close> on an address of the caller are not checked.\<close>

definition seg_fault :: "u64 \<Rightarrow> 'a outcome" where
  "seg_fault a = (case sa_handler_impl None SIGSEGV a of Seh (ExitWith e) \<Rightarrow> Killed e | _ \<Rightarrow> Killed None)"

definition read_u64 :: "u64 \<Rightarrow> mem \<Rightarrow> u64 outcome" where
  "read_u64 a m =
     (case first_fault (readable m) a 8 of
        None \<Rightarrow> Returned (from_ne_bytes (bytes_at m a 8))
      | Some f \<Rightarrow> seg_fault f)"

definition write_u64 :: "u64 \<Rightarrow> u64 \<Rightarrow> mem \<Rightarrow> mem outcome" where
  "write_u64 a v m =
     (case first_fault (writable m) a 8 of
        None \<Rightarrow> Returned (put_bytes m a (to_ne_bytes v))
      | Some f \<Rightarrow> seg_fault f)"

definition CreateMapping ::
    "linux \<Rightarrow> map_abi \<Rightarrow> kernel \<Rightarrow> u64 \<Rightarrow> usize \<Rightarrow> u32 \<Rightarrow> u32 \<Rightarrow> mem \<Rightarrow> ((sys_error + unit) \<times> mem) outcome" where
  "CreateMapping L S k base_addr page_count map_attrs map_kind m =
     outcome_bind (read_u64 base_addr m) (\<lambda>hint.
       case create_mapping_call L S hint page_count map_attrs map_kind of
         Inl e \<Rightarrow> Returned (Inl e, m)
       | Inr c \<Rightarrow>
           (case k c of
              Inl e \<Rightarrow> Returned (Inl (linux_error_to_lilium e), m)
            | Inr p \<Rightarrow> outcome_bind (write_u64 base_addr p m) (\<lambda>m'. Returned (Inr (), m'))))"

definition unit_result :: "errno + 'a \<Rightarrow> sys_error + unit" where
  "unit_result r = (case r of Inl e \<Rightarrow> Inl (linux_error_to_lilium e) | Inr _ \<Rightarrow> Inr ())"

definition RemoveMapping :: "kernel \<Rightarrow> u64 \<Rightarrow> usize \<Rightarrow> sys_error + unit" where
  "RemoveMapping k base_addr page_count = unit_result (k (Munmap base_addr (page_count * 4096)))"

text \<open>\<open>tmp\<close> is the address of the local that \<open>write_checked\<close> copies from.\<close>

definition ResizeMapping ::
    "linux \<Rightarrow> kernel \<Rightarrow> u64 \<Rightarrow> u64 \<Rightarrow> usize \<Rightarrow> u64 \<Rightarrow> usize \<Rightarrow> mem \<Rightarrow> ((sys_error + unit) \<times> mem) outcome" where
  "ResizeMapping L k tmp base_addr old_page_count new_addr new_page_count m =
     (let flags = (if new_addr \<noteq> 0 then MREMAP_MAYMOVE L else 0) in
      case k (Mremap base_addr (old_page_count * 4096) (new_page_count * 4096) flags) of
        Inl e \<Rightarrow> Returned (Inl (linux_error_to_lilium e), m)
      | Inr p \<Rightarrow>
          if new_addr = 0 then Returned (Inr (), m)
          else (case write_checked 8 tmp new_addr (to_ne_bytes p) m of
              Killed e \<Rightarrow> Killed e
            | Returned (Inl e, m') \<Rightarrow> Returned (Inl (access_to_sys_error e), m')
            | Returned (Inr u, m') \<Rightarrow> Returned (Inr (), m')))"

definition change_mapping_call :: "linux \<Rightarrow> map_abi \<Rightarrow> u64 \<Rightarrow> usize \<Rightarrow> u32 \<Rightarrow> sys_error + kcall" where
  "change_mapping_call L S base_addr page_count map_attrs =
     (if map_attrs AND NOT (ATTR_READ S OR ATTR_WRITE S OR ATTR_EXEC S OR ATTR_RESERVE S) \<noteq> 0
      then Inl InvalidOperation
      else if write_and_exec S map_attrs then Inl InvalidOperation
      else Inr (Mprotect base_addr (page_count * 4096) (linux_prot L S map_attrs)))"

definition ChangeMappingAttributes :: "linux \<Rightarrow> map_abi \<Rightarrow> kernel \<Rightarrow> u64 \<Rightarrow> usize \<Rightarrow> u32 \<Rightarrow> sys_error + unit" where
  "ChangeMappingAttributes L S k base_addr page_count map_attrs =
     (case change_mapping_call L S base_addr page_count map_attrs of
        Inl e \<Rightarrow> Inl e
      | Inr c \<Rightarrow> unit_result (k c))"

section \<open>Page counts\<close>

lemma unat_next_page:
  assumes "unat v + 4095 < 2 ^ 64"
  shows "unat (next_page v) = (unat v + 4095) div 4096 * 4096"
proof (cases "unat v mod 4096 = 0")
  case True
  then have "v mod 4096 = 0" by (simp add: word_unat_eq_iff unat_mod_distrib)
  then show ?thesis using True by (auto simp: next_page_def elim!: dvdE simp flip: dvd_eq_mod_eq_0)
next
  case False
  define q r where "q = unat v div 4096" and "r = unat v mod 4096"
  have v: "unat v = q * 4096 + r" "r < 4096" "r \<noteq> 0" using False by (simp_all add: q_def r_def)
  have m: "unat (v mod 4096) = r" by (simp add: unat_mod_distrib r_def)
  have "unat (4096 - v mod 4096) = 4096 - r"
    using m v(2) by (subst unat_sub) (simp_all add: word_le_nat_alt)
  moreover have "v mod 4096 \<noteq> 0"
  proof
    assume "v mod 4096 = 0"
    then have "unat (v mod 4096) = 0" by (simp only: unsigned_0)
    then show False using m v(3) by simp
  qed
  ultimately have "unat (next_page v) = unat v + (4096 - r)"
    using assms v by (simp add: next_page_def unat_add_64)
  also have "\<dots> = (q + 1) * 4096" using v by simp
  also have "q + 1 = (unat v + 4095) div 4096"
    using v by (simp add: div_eq_dividend_iff flip: add.assoc)
  finally show ?thesis .
qed

lemma next_page_ge: "unat v + 4095 < 2 ^ 64 \<Longrightarrow> unat v \<le> unat (next_page v)"
  using unat_next_page [of v] by (simp add: next_page_def)


lemma short_pages: "(4095 * n + 4095) div 4096 = n - n div (4096 :: nat)"
proof -
  define q r where "q = n div 4096" and "r = n mod 4096"
  have n: "n = q * 4096 + r" "r < 4096" by (simp_all add: q_def r_def)
  have "4095 * n + 4095 = 4096 * (4095 * q + r) + (4095 - r)" using n by simp
  then have "(4095 * n + 4095) div 4096 = 4095 * q + r"
    using n(2) by (simp only: div_mult_self4 div_less)
  then show ?thesis using n by (simp flip: q_def)
qed

text \<open>The interface constants that have to be different bits are different bits.\<close>

definition separate_bits :: "u32 list \<Rightarrow> bool" where
  "separate_bits xs \<longleftrightarrow> distinct xs \<and> set xs \<subseteq> set (map (\<lambda>n. 2 ^ n) [0..<32])"

lemma and_single_bit: "n < 32 \<Longrightarrow> (x :: u32) AND 2 ^ n \<noteq> 0 \<longleftrightarrow> bit x n"
  by (simp add: and_exp_eq_0_iff_not_bit)

lemma single_bits_both:
  assumes "i < 32" "j < 32"
  shows "(x :: u32) AND (2 ^ i OR 2 ^ j) = 2 ^ i OR 2 ^ j \<longleftrightarrow> bit x i \<and> bit x j"
  unfolding bit_eq_iff [of "x AND (2 ^ i OR 2 ^ j)"] bit_and_iff bit_or_iff bit_exp_iff
  using assms by auto


lemma write_and_exec_iff:
  assumes "separate_bits [ATTR_READ S, ATTR_WRITE S, ATTR_EXEC S]"
  shows "write_and_exec S attrs \<longleftrightarrow> attrs AND ATTR_WRITE S \<noteq> 0 \<and> attrs AND ATTR_EXEC S \<noteq> 0"
proof -
  obtain i j where "i < 32" "j < 32" "ATTR_WRITE S = 2 ^ i" "ATTR_EXEC S = 2 ^ j"
    using assms by (auto simp: separate_bits_def)
  then show ?thesis by (simp only: write_and_exec_def single_bits_both and_single_bit)
qed

lemma linux_prot_bits:
  assumes "separate_bits [PROT_READ L, PROT_WRITE L, PROT_EXEC L]" "PROT_NONE L = 0"
  shows "(linux_prot L S attrs AND PROT_READ L \<noteq> 0 \<longleftrightarrow> attrs AND ATTR_READ S \<noteq> 0) \<and>
    (linux_prot L S attrs AND PROT_WRITE L \<noteq> 0 \<longleftrightarrow> attrs AND ATTR_WRITE S \<noteq> 0) \<and>
    (linux_prot L S attrs AND PROT_EXEC L \<noteq> 0 \<longleftrightarrow> attrs AND ATTR_EXEC S \<noteq> 0)"
proof -
  obtain i j k where b: "i < 32" "j < 32" "k < 32" "PROT_READ L = 2 ^ i" "PROT_WRITE L = 2 ^ j" "PROT_EXEC L = 2 ^ k"
    using assms(1) by (auto simp: separate_bits_def)
  then have "i \<noteq> j" "i \<noteq> k" "j \<noteq> k" using assms(1) by (auto simp: separate_bits_def)
  then show ?thesis
    unfolding linux_prot_def Let_def assms(2) b(4,5,6) and_single_bit [OF b(1)] and_single_bit [OF b(2)]
      and_single_bit [OF b(3)]
    using b(1-3) by (simp add: bit_or_iff bit_exp_iff)
qed

fun call_prot :: "kcall \<Rightarrow> u32 option" where
  "call_prot (Mmap hint len prot flags fd) = Some prot"
| "call_prot (Mprotect addr len prot) = Some prot"
| "call_prot _ = None"

fun call_pages :: "kcall \<Rightarrow> nat" where
  "call_pages (Mmap hint len prot flags fd) = unat (next_page len) div 4096"
| "call_pages (Mprotect addr len prot) = unat (next_page len) div 4096"
| "call_pages _ = 0"

lemma pages_4096:
  assumes "unat n * 4096 + 4095 < 2 ^ 64"
  shows "unat (next_page (n * 4096)) div 4096 = unat n"
    and "unat (next_page (n * 4095)) div 4096 = unat n - unat n div 4096"
proof -
  have "unat (n * 4096) = unat n * 4096" using assms by (subst unat_mult_64) simp_all
  then show "unat (next_page (n * 4096)) div 4096 = unat n"
    using assms by (simp add: unat_next_page)
  have "unat (n * 4095) = 4095 * unat n" using assms by (subst unat_mult_64) simp_all
  then show "unat (next_page (n * 4095)) div 4096 = unat n - unat n div 4096"
    using assms short_pages [of "unat n"] by (simp add: unat_next_page)
qed

text \<open>
  C29. The mapping calls never ask the kernel for memory that is both writable and executable. Every
  call they make asks for exactly the protections that the attributes name. A change of attributes
  covers the pages it is given; a new mapping of \<open>n\<close> pages has \<open>n - n div 4096\<close> pages, one page too
  few for every 16 MiB, because its length is \<open>n * 4095\<close>.
\<close>

theorem mapping_calls:
  assumes "separate_bits [PROT_READ L, PROT_WRITE L, PROT_EXEC L]" "PROT_NONE L = 0"
    and "separate_bits [ATTR_READ S, ATTR_WRITE S, ATTR_EXEC S]"
    and "create_mapping_call L S addr n attrs kind = Inr c \<or> change_mapping_call L S addr n attrs = Inr c"
    and "unat n * 4096 + 4095 < 2 ^ 64"
  shows "(\<exists>prot. call_prot c = Some prot \<and>
      (prot AND PROT_READ L \<noteq> 0 \<longleftrightarrow> attrs AND ATTR_READ S \<noteq> 0) \<and>
      (prot AND PROT_WRITE L \<noteq> 0 \<longleftrightarrow> attrs AND ATTR_WRITE S \<noteq> 0) \<and>
      (prot AND PROT_EXEC L \<noteq> 0 \<longleftrightarrow> attrs AND ATTR_EXEC S \<noteq> 0) \<and>
      (prot AND PROT_WRITE L = 0 \<or> prot AND PROT_EXEC L = 0)) \<and>
    (create_mapping_call L S addr n attrs kind = Inr c \<longrightarrow> call_pages c = unat n - unat n div 4096) \<and>
    (change_mapping_call L S addr n attrs = Inr c \<longrightarrow> call_pages c = unat n)"
proof (rule conjI)
  have "call_prot c = Some (linux_prot L S attrs)" "\<not> write_and_exec S attrs"
    using assms(4) by (auto simp: create_mapping_call_def change_mapping_call_def Let_def split: if_splits)
  then show "\<exists>prot. call_prot c = Some prot \<and>
      (prot AND PROT_READ L \<noteq> 0 \<longleftrightarrow> attrs AND ATTR_READ S \<noteq> 0) \<and>
      (prot AND PROT_WRITE L \<noteq> 0 \<longleftrightarrow> attrs AND ATTR_WRITE S \<noteq> 0) \<and>
      (prot AND PROT_EXEC L \<noteq> 0 \<longleftrightarrow> attrs AND ATTR_EXEC S \<noteq> 0) \<and>
      (prot AND PROT_WRITE L = 0 \<or> prot AND PROT_EXEC L = 0)"
    using linux_prot_bits [OF assms(1,2), of S attrs] write_and_exec_iff [OF assms(3), of attrs] by auto
  show "(create_mapping_call L S addr n attrs kind = Inr c \<longrightarrow> call_pages c = unat n - unat n div 4096) \<and>
      (change_mapping_call L S addr n attrs = Inr c \<longrightarrow> call_pages c = unat n)"
    using pages_4096 [OF assms(5)]
    by (auto simp: create_mapping_call_def change_mapping_call_def Let_def split: if_splits)
qed

definition linux_x86 :: linux where
  "linux_x86 = \<lparr>PROT_NONE = 0, PROT_READ = 1, PROT_WRITE = 2, PROT_EXEC = 4, MAP_PRIVATE = 2,
     MAP_ANONYMOUS = 0x20, MAP_SHARED_VALIDATE = 3, MAP_SYNC = 0x80000, MREMAP_MAYMOVE = 1, MFD_CLOEXEC = 1\<rparr>"

definition some_abi :: map_abi where
  "some_abi = \<lparr>ATTR_READ = 1, ATTR_WRITE = 2, ATTR_EXEC = 4, ATTR_THREAD_PRIVATE = 8, ATTR_PROC_PRIVATE = 16,
     ATTR_RESERVE = 32, KIND_NORMAL = 0, KIND_RESIDENT = 1, KIND_SECURE = 2, KIND_ENCRYPTED = 3\<rparr>"

lemma separate_bits_124: "separate_bits [1, 2, 4]"
proof -
  have "[0..<32] = 0 # 1 # 2 # [3..<32]" by (simp add: upt_rec numeral_eq_Suc)
  then show ?thesis by (simp add: separate_bits_def)
qed

theorem mapping_calls_witness:
  "\<exists>c. create_mapping_call linux_x86 some_abi 0 4096 3 0 = Inr c \<and> call_pages c = 4095"
proof -
  have c: "create_mapping_call linux_x86 some_abi 0 4096 3 0 = Inr (Mmap 0 (4096 * 4095) 3 0x22 (- 1))"
    by (simp add: create_mapping_call_def linux_x86_def some_abi_def write_and_exec_def linux_prot_def)
  have "unat (4096 :: usize) * 4096 + 4095 < 2 ^ 64" by simp
  moreover have "separate_bits [PROT_READ linux_x86, PROT_WRITE linux_x86, PROT_EXEC linux_x86]"
    "separate_bits [ATTR_READ some_abi, ATTR_WRITE some_abi, ATTR_EXEC some_abi]" "PROT_NONE linux_x86 = 0"
    by (simp_all add: linux_x86_def some_abi_def separate_bits_124)
  ultimately show ?thesis
    using mapping_calls [of linux_x86 some_abi 0 4096 3 0] c by fastforce
qed

section \<open>What the allocators do to the mappings\<close>

text \<open>
  The documented effect of the calls on a whole mapping: its length is rounded up to pages; unmapping
  or moving it needs its exact extent, otherwise the effect is \<open>None\<close>.
\<close>

type_synonym regions = "u64 \<rightharpoonup> usize"

fun map_effect :: "kernel \<Rightarrow> kcall \<Rightarrow> regions \<Rightarrow> regions option" where
  "map_effect k (Mmap hint len prot flags fd) R =
     (case k (Mmap hint len prot flags fd) of Inl e \<Rightarrow> Some R | Inr p \<Rightarrow> Some (R(p \<mapsto> next_page len)))"
| "map_effect k (Munmap p len) R = (if R p = Some (next_page len) then Some (R(p := None)) else None)"
| "map_effect k (Mremap p len len' flags) R =
     (if R p = Some (next_page len)
      then (case k (Mremap p len len' flags) of
          Inl e \<Rightarrow> Some R
        | Inr q \<Rightarrow> Some ((R(p := None))(q \<mapsto> next_page len')))
      else None)"
| "map_effect k c R = Some R"

fun map_effects :: "kernel \<Rightarrow> kcall list \<Rightarrow> regions \<Rightarrow> regions option" where
  "map_effects k [] R = Some R"
| "map_effects k (c # cs) R = Option.bind (map_effect k c R) (map_effects k cs)"

definition holding :: "regions \<Rightarrow> u64 \<Rightarrow> usize \<Rightarrow> regions" where
  "holding R p n = (if n = 0 then R else R(p \<mapsto> n))"

text \<open>The size of a Rust layout is at most \<open>isize::MAX\<close>.\<close>

definition layout_ok :: "layout \<Rightarrow> bool" where
  "layout_ok l \<longleftrightarrow> unat (l_size l) < 2 ^ 63"

lemma next_page_layout:
  assumes "layout_ok l"
  shows "next_page (next_page (l_size l)) = next_page (l_size l)"
    and "unat (l_size l) \<le> unat (next_page (l_size l))"
    and "next_page (l_size l) = 0 \<longleftrightarrow> l_size l = 0"
proof -
  have b: "unat (l_size l) + 4095 < 2 ^ 64" using assms by (simp add: layout_ok_def)
  have "unat (next_page (l_size l) mod 4096) = 0" using unat_next_page [OF b] by (simp add: unat_mod_distrib)
  then have "next_page (l_size l) mod 4096 = 0" by (simp only: unsigned_eq_0_iff)
  then show "next_page (next_page (l_size l)) = next_page (l_size l)" by (simp add: next_page_def [of "next_page _"])
  show ge: "unat (l_size l) \<le> unat (next_page (l_size l))" using next_page_ge [OF b] .
  show "next_page (l_size l) = 0 \<longleftrightarrow> l_size l = 0"
  proof
    assume "next_page (l_size l) = 0"
    then have "unat (l_size l) = 0" using ge by simp
    then show "l_size l = 0" by (simp only: unsigned_eq_0_iff)
  qed (simp add: next_page_def)
qed

text \<open>
  What the kernel documents of the two calls that place a mapping: the address is not null, and it is the old one or one where no other
  mapping starts.
\<close>

definition places :: "kernel \<Rightarrow> regions \<Rightarrow> bool" where
  "places k R \<longleftrightarrow>
     (\<forall>h n prot flags fd p. k (Mmap h n prot flags fd) = Inr p \<longrightarrow> p \<noteq> 0 \<and> R p = None) \<and>
     (\<forall>a n n' flags p. k (Mremap a n n' flags) = Inr p \<longrightarrow> p \<noteq> 0 \<and> (p = a \<or> R p = None))"

lemma placesD:
  assumes "places k R"
  shows "k (Mmap h n prot flags fd) = Inr p \<Longrightarrow> p \<noteq> 0 \<and> R p = None"
    and "k (Mremap a n n' flags) = Inr p \<Longrightarrow> p \<noteq> 0 \<and> (p = a \<or> R p = None)"
proof -
  have m: "\<forall>h n prot flags fd p. k (Mmap h n prot flags fd) = Inr p \<longrightarrow> p \<noteq> 0 \<and> R p = None"
    and r: "\<forall>a n n' flags p. k (Mremap a n n' flags) = Inr p \<longrightarrow> p \<noteq> 0 \<and> (p = a \<or> R p = None)"
    using assms unfolding places_def by (rule conjunct1, rule conjunct2)
  show "k (Mmap h n prot flags fd) = Inr p \<Longrightarrow> p \<noteq> 0 \<and> R p = None" using m [rule_format] .
  show "k (Mremap a n n' flags) = Inr p \<Longrightarrow> p \<noteq> 0 \<and> (p = a \<or> R p = None)" using r [rule_format] .
qed

text \<open>
  \<open>settles k R l start out\<close>: the operation with the outcome \<open>out\<close>, started on the mappings \<open>start\<close>,
  fails and leaves them, or returns a block large enough for \<open>l\<close>, which is not one of \<open>R\<close>, and leaves \<open>R\<close> with this block.
\<close>

definition settles :: "kernel \<Rightarrow> regions \<Rightarrow> layout \<Rightarrow> regions \<Rightarrow> (unit + block) \<times> kcall list \<Rightarrow> bool" where
  "settles k R l start out =
     (case out of
        (Inl _, cs) \<Rightarrow> map_effects k cs start = Some start
      | (Inr (p, n), cs) \<Rightarrow> n = next_page (l_size l) \<and> unat (l_size l) \<le> unat n \<and> (n \<noteq> 0 \<longrightarrow> R p = None) \<and>
          map_effects k cs start = Some (holding R p n))"

lemma settles_fail: "settles k R l start (Inl (), [])"
  by (simp add: settles_def)

lemma settles_same:
  "layout_ok l \<Longrightarrow> R p = None \<Longrightarrow> settles k R l (holding R p (next_page (l_size l))) (Inr (p, next_page (l_size l)), [])"
  using next_page_layout(2) [of l] by (simp add: settles_def)

lemma mmap_allocate_settles:
  assumes "places k R" "layout_ok l"
  shows "settles k R l R (mmap_allocate_zeroed L hint k l)"
  using next_page_layout [OF assms(2)] placesD(1) [OF assms(1)]
  by (auto simp: mmap_allocate_zeroed_def settles_def Let_def holding_def non_null_def split: sum.splits)

lemma mmap_deallocate_effect:
  assumes "layout_ok l" "R ptr = None"
  shows "map_effects k (mmap_deallocate ptr l) (holding R ptr (next_page (l_size l))) = Some R"
  using assms(2) next_page_layout(1) [OF assms(1)] by (auto simp: mmap_deallocate_def holding_def Let_def)

lemma mremap_settles:
  assumes "places k R" "layout_ok l" "layout_ok l'" "R ptr = None"
    and "next_page (l_size l) \<noteq> 0" "next_page (l_size l') \<noteq> 0"
    and "c = Mremap ptr (next_page (l_size l)) (next_page (l_size l')) (MREMAP_MAYMOVE L)"
  shows "settles k R l' (holding R ptr (next_page (l_size l))) (non_null (k c) (next_page (l_size l')), [c])"
proof -
  have "R(ptr := None) = R" using assms(4) by (simp add: fun_upd_idem)
  then show ?thesis
    using assms(4-7) next_page_layout [OF assms(2)] next_page_layout [OF assms(3)] placesD(2) [OF assms(1)]
    by (fastforce simp: settles_def holding_def non_null_def split: sum.splits)
qed

lemma mmap_shrink_settles:
  assumes "places k R" "layout_ok l" "layout_ok l'" "R ptr = None" "next_page (l_size l') \<le> next_page (l_size l)"
  shows "settles k R l' (holding R ptr (next_page (l_size l))) (mmap_shrink L k ptr l l')"
proof (cases "next_page (l_size l') = 0")
  case True
  then show ?thesis
    using mmap_deallocate_effect [where R = R and ptr = ptr and k = k, OF assms(2,4)] next_page_layout [OF assms(3)]
    by (simp add: mmap_shrink_def settles_def) (simp add: holding_def)
next
  case False
  then have "next_page (l_size l) \<noteq> 0" using assms(5) by auto
  from mremap_settles [where R = R and ptr = ptr, OF assms(1-4) this False refl] False show ?thesis
    using settles_fail settles_same [where R = R and p = ptr, OF assms(3,4)] by (auto simp: mmap_shrink_def Let_def)
qed

lemma mmap_grow_settles:
  assumes "places k R" "layout_ok l" "layout_ok l'" "R ptr = None" "next_page (l_size l) \<le> next_page (l_size l')"
  shows "settles k R l' (holding R ptr (next_page (l_size l))) (mmap_grow_zeroed L hint k ptr l l')"
proof (cases "next_page (l_size l) = 0")
  case True
  then have h: "holding R ptr (next_page (l_size l)) = R" by (simp add: holding_def)
  show ?thesis unfolding h using True mmap_allocate_settles [OF assms(1,3)]
    using settles_fail by (auto simp: mmap_grow_zeroed_def Let_def)
next
  case False
  then have "next_page (l_size l') \<noteq> 0" using assms(5) by auto
  from mremap_settles [where R = R and ptr = ptr, OF assms(1-4) False this refl] False show ?thesis
    using settles_fail settles_same [where R = R and p = ptr, OF assms(3,4)] by (auto simp: mmap_grow_zeroed_def Let_def)
qed

lemma next_page_mono:
  assumes "layout_ok l'" "l_size l \<le> l_size l'"
  shows "next_page (l_size l) \<le> next_page (l_size l')"
proof -
  have b: "unat (l_size l) \<le> unat (l_size l')" using assms(2) by (simp add: word_le_nat_alt)
  then have "(unat (l_size l) + 4095) div 4096 \<le> (unat (l_size l') + 4095) div 4096" by (simp add: div_le_mono)
  then show ?thesis
    using assms(1) b by (simp add: word_le_nat_alt layout_ok_def unat_next_page)
qed

text \<open>
  C30. The page allocator keeps account of its mappings by the layouts alone: an allocation adds
  exactly one mapping that is large enough for the layout, growing and shrinking replace the mapping
  of the block by one for the new layout, a failure changes nothing, and deallocation takes exactly
  the mapping of the block away. No call names an extent that is not mapped. The kernel is only assumed to place
  mappings where no other one starts, and not at the null address.
\<close>

theorem mmap_allocator_balanced:
  assumes "places k R" "layout_ok l" "layout_ok l'" "R ptr = None"
  shows "settles k R l' R (mmap_allocate_zeroed L hint k l') \<and>
    (l_size l \<le> l_size l' \<longrightarrow>
      settles k R l' (holding R ptr (next_page (l_size l))) (mmap_grow_zeroed L hint k ptr l l')) \<and>
    (l_size l' \<le> l_size l \<longrightarrow>
      settles k R l' (holding R ptr (next_page (l_size l))) (mmap_shrink L k ptr l l')) \<and>
    map_effects k (mmap_deallocate ptr l) (holding R ptr (next_page (l_size l))) = Some R"
  using mmap_allocate_settles [OF assms(1,3)] mmap_grow_settles [where R = R and ptr = ptr, OF assms]
    mmap_shrink_settles [where R = R and ptr = ptr, OF assms] next_page_mono [OF assms(2)] next_page_mono [OF assms(3)]
    mmap_deallocate_effect [where R = R and ptr = ptr, OF assms(2,4)] by blast

text \<open>A kernel that places every mapping at one address, keeps a moved one where it is, and answers 0 to the other calls.\<close>

fun page_kernel :: kernel where
  "page_kernel (Mmap h n prot flags fd) = Inr 0x9000"
| "page_kernel (Mremap a n n' flags) = (if a = 0 then Inl EINVAL else Inr a)"
| "page_kernel c = Inr 0"

theorem mmap_allocator_balanced_witness:
  "map_effects page_kernel (mmap_deallocate 0x5000 \<lparr>l_size = 5000, l_align = 8\<rparr>) [0x5000 \<mapsto> 8192] = Some Map.empty \<and>
   page_kernel (Munmap 0x5000 8192) = Inr 0"
proof -
  have n: "next_page 5000 = (8192 :: usize)" by code_simp
  have l: "layout_ok \<lparr>l_size = 5000, l_align = 8\<rparr>" by (simp add: layout_ok_def)
  have "places page_kernel Map.empty" by (simp add: places_def)
  from mmap_allocator_balanced [where ptr = "0x5000", OF this l l] show ?thesis
    by (simp add: n holding_def)
qed

section \<open>What the shared memory allocator does to the descriptors\<close>

text \<open>The open descriptors: closing or resizing needs an open one, otherwise the effect is \<open>None\<close>.\<close>

fun fd_effect :: "kernel \<Rightarrow> kcall \<Rightarrow> u32 set \<Rightarrow> u32 set option" where
  "fd_effect k (MemfdCreate flags) F =
     (case k (MemfdCreate flags) of Inl e \<Rightarrow> Some F | Inr r \<Rightarrow> Some (insert (ucast r) F))"
| "fd_effect k (Ftruncate fd n) F = (if fd \<in> F then Some F else None)"
| "fd_effect k (Close fd) F = (if fd \<in> F then Some (F - {fd}) else None)"
| "fd_effect k c F = Some F"

fun fd_effects :: "kernel \<Rightarrow> kcall list \<Rightarrow> u32 set \<Rightarrow> u32 set option" where
  "fd_effects k [] F = Some F"
| "fd_effects k (c # cs) F = Option.bind (fd_effect k c F) (fd_effects k cs)"

text \<open>
  What the kernel documents of its answers: a new descriptor is not open yet, a new mapping does not
  start where another one does, and a mapping stays in place unless it may move.
\<close>

definition kernel_sound :: "kernel \<Rightarrow> regions \<Rightarrow> u32 set \<Rightarrow> bool" where
  "kernel_sound k R F \<longleftrightarrow>
     (\<forall>flags r. k (MemfdCreate flags) = Inr r \<longrightarrow> 0 \<le> sint (ucast r :: u32) \<and> ucast r \<notin> F) \<and>
     (\<forall>h n prot flags fd p. k (Mmap h n prot flags fd) = Inr p \<longrightarrow> p \<noteq> 0 \<and> R p = None) \<and>
     (\<forall>a n n' flags p. k (Mremap a n n' flags) = Inr p \<longrightarrow>
        p \<noteq> 0 \<and> 0 \<le> sint p \<and> (p = a \<or> flags \<noteq> 0 \<and> R p = None))"

lemma kernel_sound_mremap:
  assumes "kernel_sound k R F" "k (Mremap a n n' flags) = Inr p"
  shows "p \<noteq> 0" "0 \<le> sint p" "p = a \<or> R p = None" "flags = 0 \<Longrightarrow> p = a"
proof -
  have "\<forall>a n n' flags p. k (Mremap a n n' flags) = Inr p \<longrightarrow>
      p \<noteq> 0 \<and> 0 \<le> sint p \<and> (p = a \<or> flags \<noteq> 0 \<and> R p = None)"
    using assms(1) unfolding kernel_sound_def by (elim conjE)
  note this [rule_format, OF assms(2)]
  then show "p \<noteq> 0" "0 \<le> sint p" "p = a \<or> R p = None" "flags = 0 \<Longrightarrow> p = a" by auto
qed

text \<open>
  The table has an entry for a mapping only, with an open descriptor of its own.
\<close>

definition shm_ok :: "shm \<Rightarrow> regions \<Rightarrow> u32 set \<Rightarrow> bool" where
  "shm_ok T R F \<longleftrightarrow> dom T \<subseteq> dom R \<and> ran T \<subseteq> F \<and> inj_on T (dom T)"

definition shm_owns :: "shm \<Rightarrow> regions \<Rightarrow> u64 \<Rightarrow> layout \<Rightarrow> bool" where
  "shm_owns T R p l \<longleftrightarrow> l_size l \<noteq> 0 \<longrightarrow> T p \<noteq> None \<and> R p = Some (next_page (l_size l))"

text \<open>
  \<open>shm_settles\<close>: the operation failed and everything is as before, or it returned a block of the
  layout's size; the table is in order again, the descriptors that no entry owns are the ones before,
  and nothing changed besides the old and the new block.
\<close>

definition shm_settles :: "kernel \<Rightarrow> shm \<Rightarrow> regions \<Rightarrow> u32 set \<Rightarrow> u64 \<Rightarrow> layout \<Rightarrow>
    ((unit + block) \<times> shm \<times> kcall list) run \<Rightarrow> bool" where
  "shm_settles k T R F ptr l out =
     (case out of
        Panic \<Rightarrow> False
      | Ret (Inl _, T', cs) \<Rightarrow> T' = T \<and> map_effects k cs R = Some R \<and> fd_effects k cs F = Some F
      | Ret (Inr (p, n), T', cs) \<Rightarrow> n = l_size l \<and>
          (\<exists>R' F'. map_effects k cs R = Some R' \<and> fd_effects k cs F = Some F' \<and>
             shm_ok T' R' F' \<and> F' - ran T' = F - ran T \<and> shm_owns T' R' p l \<and>
             (\<forall>q. q \<noteq> ptr \<longrightarrow> q \<noteq> p \<longrightarrow> T' q = T q \<and> R' q = R q)))"

lemma shm_settlesI:
  assumes "map_effects k cs R = Some R'" "fd_effects k cs F = Some F'" "shm_ok T' R' F'" "F' - ran T' = F - ran T"
    and "shm_owns T' R' p l" "\<And>q. q \<noteq> ptr \<Longrightarrow> q \<noteq> p \<Longrightarrow> T' q = T q \<and> R' q = R q"
  shows "shm_settles k T R F ptr l (Ret (Inr (p, l_size l), T', cs))"
  using assms by (simp add: shm_settles_def)

lemma shm_ok_fresh: "shm_ok T R F \<Longrightarrow> R p = None \<Longrightarrow> T p = None"
  by (auto simp: shm_ok_def domIff)

lemma ran_fresh: "T p = None \<Longrightarrow> ran (T(p \<mapsto> fd)) = insert fd (ran T)"
  by simp

lemma ran_remove:
  assumes "inj_on T (dom T)" "T p = Some fd"
  shows "ran (T(p := None)) = ran T - {fd}"
  using assms by (auto simp: ran_def inj_on_def domIff split: if_splits) (metis option.inject)

lemma inj_remove: "inj_on T (dom T) \<Longrightarrow> inj_on (T(p := None)) (dom (T(p := None)))"
  by (auto simp: inj_on_def)

lemma inj_fresh:
  assumes "inj_on T (dom T)" "fd \<notin> ran T" "T p = None"
  shows "inj_on (T(p \<mapsto> fd)) (dom (T(p \<mapsto> fd)))"
proof (rule inj_onI)
  fix x y assume "x \<in> dom (T(p \<mapsto> fd))" "y \<in> dom (T(p \<mapsto> fd))" "(T(p \<mapsto> fd)) x = (T(p \<mapsto> fd)) y"
  then show "x = y" using assms by (auto simp: inj_on_def ran_def split: if_splits)
qed

lemma shm_allocate_settles:
  assumes "kernel_sound k R F" "shm_ok T R F"
  shows "shm_settles k T R F ptr l (shm_allocate_zeroed L k l T)"
proof -
  have fresh: "ucast r \<notin> F" "0 \<le> sint (ucast r :: u32)" "insert (ucast r) F - {ucast r :: u32} = F"
    if "k (MemfdCreate flags) = Inr r" for flags r
    using assms(1) that by (auto simp: kernel_sound_def)
  have mapped: "p \<noteq> 0" "R p = None" "T p = None" if "k (Mmap h n prot flags fd) = Inr p" for h n prot flags fd p
    using assms that shm_ok_fresh by (auto simp: kernel_sound_def)
  have ok: "shm_ok (T(p \<mapsto> fd)) (R(p \<mapsto> n)) (insert fd F) \<and> insert fd F - ran (T(p \<mapsto> fd)) = F - ran T"
    if "fd \<notin> F" "R p = None" for p fd n
  proof -
    have "T p = None" "fd \<notin> ran T" using that assms(2) shm_ok_fresh by (auto simp: shm_ok_def)
    then show ?thesis using that assms(2) inj_fresh [of T fd p] by (auto simp: shm_ok_def ran_fresh)
  qed
  let ?c1 = "MemfdCreate (MFD_CLOEXEC L)"
  consider (small) "l_size l = 0 \<or> 4096 < l_align l" | (no_fd) e where "l_size l \<noteq> 0" "l_align l \<le> 4096" "k ?c1 = Inl e"
    | (fd) r where "l_size l \<noteq> 0" "l_align l \<le> 4096" "k ?c1 = Inr r"
    by (cases "k ?c1") (meson linorder_not_less)+
  then show ?thesis
  proof cases
    case (fd r)
    let ?c3 = "Mmap 0 (l_size l) (PROT_READ L OR PROT_WRITE L) (MAP_SHARED_VALIDATE L OR MAP_SYNC L) (ucast r)"
    note f = fresh [OF fd(3)]
    show ?thesis
    proof (cases "k ?c3")
      case (Inr p)
      then show ?thesis
        using fd f mapped [OF Inr] ok [OF f(1) mapped(2) [OF Inr], of "next_page (l_size l)"]
        by (auto simp: shm_allocate_zeroed_def shm_settles_def shm_owns_def Let_def drop_fd_def not_less split: sum.splits)
    next
      case (Inl e)
      then show ?thesis
        using fd f by (auto simp: shm_allocate_zeroed_def shm_settles_def Let_def not_less split: sum.splits)
    qed
  qed (use assms(2) in \<open>auto simp: shm_allocate_zeroed_def shm_settles_def shm_owns_def Let_def\<close>)
qed

lemma shm_move_ok:
  assumes "shm_ok T R F" "T a = Some fd" "p = a \<or> R p = None"
  shows "shm_ok ((T(a := None))(p \<mapsto> fd)) ((R(a := None))(p \<mapsto> n)) F \<and>
    F - ran ((T(a := None))(p \<mapsto> fd)) = F - ran T \<and> (T(a := None)) p = None"
proof -
  have p: "(T(a := None)) p = None" using assms(3) shm_ok_fresh [OF assms(1), of p] by auto
  have r: "ran (T(a := None)) = ran T - {fd}" "fd \<in> ran T"
    using ran_remove [of T a fd] assms(1,2) by (auto simp: shm_ok_def ran_def)
  have "inj_on ((T(a := None))(p \<mapsto> fd)) (dom ((T(a := None))(p \<mapsto> fd)))"
    using inj_fresh [OF inj_remove, of T fd a p] assms(1) r p by (simp add: shm_ok_def)
  moreover have "ran ((T(a := None))(p \<mapsto> fd)) = ran T" using ran_fresh [of "T(a := None)" p fd] p r by auto
  ultimately show ?thesis using assms(1) p by (auto simp: shm_ok_def)
qed

lemma shm_grow_settles:
  assumes "kernel_sound k R F" "shm_ok T R F" "shm_owns T R a l" "l_size l' \<noteq> 0"
  shows "shm_settles k T R F a l' (shm_grow_zeroed L k a l l' T)"
proof (cases "4096 < l_align l' \<or> l_size l = 0")
  case True
  then show ?thesis using shm_allocate_settles [OF assms(1,2)]
    by (auto simp: shm_grow_zeroed_def shm_settles_def split: run.splits)
next
  case False
  then obtain fd where fd: "T a = Some fd" "R a = Some (next_page (l_size l))"
    using assms(3) by (auto simp: shm_owns_def)
  then have "fd \<in> F" using assms(2) by (auto simp: shm_ok_def ran_def)
  note move = shm_move_ok [OF assms(2) fd(1)]
  let ?c1 = "Ftruncate fd (l_size l')" and ?c2 = "Mremap a (l_size l) (l_size l') (MREMAP_MAYMOVE L)"
  have na: "\<not> 4096 < l_align l'" "l_size l \<noteq> 0" using False by auto
  show ?thesis
  proof (cases "k ?c1")
    case (Inl e)
    then have "shm_grow_zeroed L k a l l' T = Ret (Inl (), T, [?c1])"
      using na fd(1) by (simp add: shm_grow_zeroed_def fd_for_alloc_def)
    then show ?thesis using \<open>fd \<in> F\<close> by (simp add: shm_settles_def)
  next
    case r: (Inr r)
    show ?thesis
    proof (cases "k ?c2")
      case (Inl e)
      then have "shm_grow_zeroed L k a l l' T = Ret (Inl (), T, [?c1, ?c2])"
        using na fd(1) r by (simp add: shm_grow_zeroed_def fd_for_alloc_def)
      then show ?thesis using \<open>fd \<in> F\<close> fd(2) Inl by (simp add: shm_settles_def)
    next
      case (Inr p)
      have nonneg: "\<not> sint p < 0" "p \<noteq> 0" using kernel_sound_mremap(1,2) [OF assms(1) Inr] by auto
      note m = move [OF kernel_sound_mremap(3) [OF assms(1) Inr], of "next_page (l_size l')"]
      then have t: "(T(a := None)) p = None" by blast
      have g: "shm_grow_zeroed L k a l l' T = Ret (Inr (p, l_size l'), (T(a := None))(p \<mapsto> fd), [?c1, ?c2])"
        unfolding shm_grow_zeroed_def fd_for_alloc_def Let_def using na fd(1) r Inr nonneg t
        by (simp del: fun_upd_apply add: drop_fd_def)
      have o: "shm_owns ((T(a := None))(p \<mapsto> fd)) ((R(a := None))(p \<mapsto> next_page (l_size l'))) p l'"
        by (simp add: shm_owns_def)
      have e: "map_effects k [?c1, ?c2] R = Some ((R(a := None))(p \<mapsto> next_page (l_size l')))"
        "fd_effects k [?c1, ?c2] F = Some F" using \<open>fd \<in> F\<close> fd(2) Inr by simp_all
      show ?thesis unfolding g
        by (rule shm_settlesI [OF e conjunct1 [OF m] conjunct1 [OF conjunct2 [OF m]] o]) simp
    qed
  qed
qed

lemma shm_deallocate_settles:
  assumes "shm_ok T R F" "shm_owns T R a l" "shm_deallocate a l T = (T', cs)"
  shows "\<exists>R' F'. map_effects k cs R = Some R' \<and> fd_effects k cs F = Some F' \<and> shm_ok T' R' F' \<and>
    F' - ran T' = F - ran T \<and> (\<forall>q. q \<noteq> a \<longrightarrow> T' q = T q \<and> R' q = R q) \<and> (l_size l \<noteq> 0 \<longrightarrow> T' a = None \<and> R' a = None)"
proof (cases "l_size l = 0")
  case True
  then show ?thesis using assms by (auto simp: shm_deallocate_def)
next
  case False
  then obtain fd where fd: "T a = Some fd" "R a = Some (next_page (l_size l))"
    using assms(2) by (auto simp: shm_owns_def)
  then have "fd \<in> F" using assms(1) by (auto simp: shm_ok_def ran_def)
  have out: "T' = T(a := None)" "cs = [Munmap a (l_size l), Close fd]"
    using False assms(3) fd(1) by (auto simp: shm_deallocate_def drop_fd_def)
  have r: "ran T' = ran T - {fd}" "inj_on T' (dom T')"
    using ran_remove [of T a fd] inj_remove [of T a] assms(1) fd(1) out by (auto simp: shm_ok_def)
  have "shm_ok T' (R(a := None)) (F - {fd})" using assms(1) r out by (auto simp: shm_ok_def)
  moreover have "fd \<in> ran T" using fd(1) by (auto simp: ran_def)
  ultimately show ?thesis using out fd \<open>fd \<in> F\<close> r by auto
qed

lemma shm_shrink_settles:
  assumes "kernel_sound k R F" "shm_ok T R F" "shm_owns T R a l" "l_size l \<noteq> 0"
  shows "shm_settles k T R F a l' (shm_shrink k a l l' T)"
proof (cases "l_size l' = 0")
  case True
  obtain T' cs where d: "shm_deallocate a l T = (T', cs)" by fastforce
  from shm_deallocate_settles [OF assms(2,3) d, of k] show ?thesis
    using True d by (auto simp: shm_shrink_def shm_settles_def shm_owns_def)
next
  case False
  obtain fd where fd: "T a = Some fd" "R a = Some (next_page (l_size l))"
    using assms(3,4) by (auto simp: shm_owns_def)
  have ok: "shm_ok T (R(a \<mapsto> n)) F" for n using assms(2) fd by (auto simp: shm_ok_def)
  let ?c = "Mremap a (l_size l) (l_size l') 0"
  show ?thesis
  proof (cases "k ?c")
    case (Inl e)
    then show ?thesis using False fd by (simp add: shm_shrink_def shm_settles_def)
  next
    case (Inr p)
    then have p: "p = a" "a \<noteq> 0" using kernel_sound_mremap [OF assms(1) Inr] by simp_all
    then have "shm_shrink k a l l' T = Ret (Inr (a, l_size l'), T, [?c])"
      using False Inr by (simp add: shm_shrink_def)
    then show ?thesis using p Inr fd ok by (simp add: shm_settles_def shm_owns_def)
  qed
qed

text \<open>
  C31. The shared memory allocator loses neither mappings nor descriptors: for a kernel that answers
  as documented, each operation on a block it owns fails and leaves everything as it was, or succeeds
  with a block of the requested size whose address is in the table, and after it every entry of the
  table belongs to a mapping and to an open descriptor of its own, and no descriptor outside the
  table was opened or closed. Deallocation removes mapping, entry and descriptor of the block alone.
\<close>

theorem shmem_allocator_balanced:
  assumes "kernel_sound k R F" "shm_ok T R F" "shm_owns T R ptr l"
  shows "shm_settles k T R F ptr l' (shm_allocate_zeroed L k l' T) \<and>
    (l_size l' \<noteq> 0 \<longrightarrow> shm_settles k T R F ptr l' (shm_grow_zeroed L k ptr l l' T)) \<and>
    (l_size l \<noteq> 0 \<longrightarrow> shm_settles k T R F ptr l' (shm_shrink k ptr l l' T)) \<and>
    (case shm_deallocate ptr l T of
       (T', cs) \<Rightarrow> \<exists>R' F'. map_effects k cs R = Some R' \<and> fd_effects k cs F = Some F' \<and> shm_ok T' R' F' \<and>
         F' - ran T' = F - ran T \<and> (\<forall>q. q \<noteq> ptr \<longrightarrow> T' q = T q \<and> R' q = R q) \<and>
         (l_size l \<noteq> 0 \<longrightarrow> T' ptr = None \<and> R' ptr = None))"
  unfolding case_prod_beta
  by (intro conjI impI shm_allocate_settles [OF assms(1,2)] shm_grow_settles [OF assms] shm_shrink_settles [OF assms]
      shm_deallocate_settles [OF assms(2,3) surjective_pairing])

text \<open>A kernel whose table of descriptors is full up to 4 and that maps at one address.\<close>

definition small_kernel :: kernel where
  "small_kernel c = (case c of MemfdCreate _ \<Rightarrow> Inr 5 | Mmap _ _ _ _ _ \<Rightarrow> Inr 0x9000 | Mremap a _ _ _ \<Rightarrow>
     if 0 \<le> sint a \<and> a \<noteq> 0 then Inr a else Inl ENOMEM | _ \<Rightarrow> Inr 0)"

theorem shmem_allocator_balanced_witness:
  "shm_settles small_kernel [0x5000 \<mapsto> 4] [0x5000 \<mapsto> 4096] {4} 0x5000 \<lparr>l_size = 9, l_align = 1\<rparr>
     (shm_allocate_zeroed linux_x86 small_kernel \<lparr>l_size = 9, l_align = 1\<rparr> [0x5000 \<mapsto> 4])"
proof -
  have k: "kernel_sound small_kernel [0x5000 \<mapsto> 4096] {4}"
    by (auto simp: kernel_sound_def small_kernel_def split: if_splits)
  have ok: "shm_ok [0x5000 \<mapsto> 4] [0x5000 \<mapsto> 4096] {4}" by (auto simp: shm_ok_def)
  have o: "shm_owns [0x5000 \<mapsto> 4] [0x5000 \<mapsto> 4096] 0x5000 \<lparr>l_size = 4096, l_align = 1\<rparr>"
    by (simp add: shm_owns_def next_page_def)
  show ?thesis by (rule conjunct1 [OF shmem_allocator_balanced [OF k ok o]])
qed

text \<open>The global allocator lets the kernel choose the place of every mapping.\<close>

theorem global_alloc_no_hint:
  "Mmap hint len prot flags fd \<in> set (snd (mmap_allocate L ALLOC k l)) \<Longrightarrow> hint = 0"
  "Mmap hint len prot flags fd \<in> set (snd (mmap_grow L ALLOC k ptr old_l new_l)) \<Longrightarrow> hint = 0"
  by (auto simp: mmap_allocate_def mmap_grow_def mmap_allocate_zeroed_def mmap_grow_zeroed_def ALLOC_def new_with_hint_def Let_def
      split: if_splits)

end
