(* ===== verification/WL_Handles.thy ===== *)
theory WL_Handles
  imports WL_Errors
begin

text \<open>
  The handle table of a thread (\<open>wl-impl/src/handle_base.rs\<close>): 512 slots in a thread-local array,
  a hint where to look for a free slot, and a count of the live handles. A handle pointer is the
  address of a slot; \<open>base\<close> is the address of the array. The refinement shows that the table is a
  finite map from handle pointers to handles.
\<close>

record handle =
  h_ty :: usize
  blob1 :: u64
  blob2 :: u64
  h_fd :: u64

definition zeroed_handle :: handle where
  "zeroed_handle = \<lparr>h_ty = 0, blob1 = 0, blob2 = 0, h_fd = 0\<rparr>"

definition NHANDLES :: nat where "NHANDLES = 512"

text \<open>The statics \<open>HANDLE_ARRAY\<close>, \<open>START_HINT\<close> and \<open>LIVE_HANDLES\<close>.\<close>

record handles =
  handle_array :: "handle list"
  start_hint :: nat
  live_handles :: usize

definition handles_init :: handles where
  "handles_init = \<lparr>handle_array = replicate NHANDLES zeroed_handle, start_hint = 0, live_handles = 0\<rparr>"

definition slot_addr :: "u64 \<Rightarrow> nat \<Rightarrow> u64" where
  "slot_addr base n = base + of_nat (32 * n)"

definition probe_order :: "nat \<Rightarrow> nat list" where
  "probe_order start = map (\<lambda>n. (n + start) AND (NHANDLES - 1)) [0..<NHANDLES]"

definition insert_handle :: "u64 \<Rightarrow> handle \<Rightarrow> handles \<Rightarrow> (sys_error + u64) \<times> handles" where
  "insert_handle base h t =
     (case find (\<lambda>n. h_ty (handle_array t ! n) = 0) (probe_order (start_hint t)) of
        Some n \<Rightarrow> (Inr (slot_addr base n),
          t\<lparr>start_hint := n, live_handles := live_handles t + 1, handle_array := (handle_array t)[n := h]\<rparr>)
      | None \<Rightarrow> (Inl ResourceLimitExhausted, t))"

text \<open>
  A \<open>&mut Handle\<close> is the index of its slot. Closing returns the file descriptors that go to the
  \<open>close\<close> system call, in order; its result is ignored.
\<close>

definition closed_fds :: "bool \<Rightarrow> handle \<Rightarrow> u32 list" where
  "closed_fds use_fd2 h =
     (if use_fd2 \<and> sint (blob2 h) < 0 then [- ucast (blob2 h)] else []) @
     (if 0 \<le> sint (h_fd h) then [ucast (h_fd h)] else [])"

definition handle_close :: "bool \<Rightarrow> nat \<Rightarrow> handles \<Rightarrow> u32 list \<times> handles" where
  "handle_close use_fd2 n t =
     (closed_fds use_fd2 (handle_array t ! n),
      t\<lparr>live_handles := live_handles t - 1, handle_array := (handle_array t)[n := zeroed_handle]\<rparr>)"

definition try_deref :: "u64 \<Rightarrow> u64 \<Rightarrow> handles \<Rightarrow> sys_error + nat" where
  "try_deref base p t =
     (if base \<le> p \<and> p < slot_addr base NHANDLES \<and> p mod 32 = 0
      then let n = unat ((p - base) div 32) in
        if h_ty (handle_array t ! n) \<noteq> 0 then Inr n else Inl InvalidHandle
      else Inl InvalidHandle)"

definition deref_unchecked :: "u64 \<Rightarrow> u64 \<Rightarrow> nat" where
  "deref_unchecked base p = unat ((p - base) div 32)"

definition ident :: "handle \<Rightarrow> usize" where
  "ident h = h_ty h"

definition borrow_fd :: "handle \<Rightarrow> u32 option" where
  "borrow_fd h = (if 0 \<le> sint (h_fd h) then Some (ucast (h_fd h)) else None)"

definition borrow_fd2 :: "handle \<Rightarrow> u32 option" where
  "borrow_fd2 h = (if sint (blob2 h) < 0 then Some (- ucast (blob2 h)) else None)"

definition check_type :: "handle \<Rightarrow> usize \<Rightarrow> usize \<Rightarrow> sys_error + unit" where
  "check_type h ty msk = (if h_ty h AND NOT msk = ty then Inr () else Inl InvalidHandle)"

text \<open>
  \<open>hty_io\<close> is the constant \<open>HANDLE_TYPE_IO\<close> of the system interface. The slice the initial handles
  go to is the list \<open>sl\<close>; the new length of the slice is returned with it.
\<close>

definition io_handle :: "usize \<Rightarrow> u64 \<Rightarrow> handle" where
  "io_handle hty_io n = \<lparr>h_ty = hty_io, blob1 = 0, blob2 = 0, h_fd = n\<rparr>"

definition put_init_handle :: "u64 \<Rightarrow> handle \<Rightarrow> nat \<Rightarrow> u64 list \<times> handles \<Rightarrow> (u64 list \<times> handles) run" where
  "put_init_handle base h i st =
     (case insert_handle base h (snd st) of
        (Inl e, t) \<Rightarrow> Panic
      | (Inr p, t) \<Rightarrow> if i < length (fst st) then Ret ((fst st)[i := p], t) else Panic)"

definition get_init_handles :: "usize \<Rightarrow> u64 \<Rightarrow> u64 list \<Rightarrow> handles \<Rightarrow> (u64 list \<times> nat \<times> handles) run" where
  "get_init_handles hty_io base sl t =
     run_bind (put_init_handle base (io_handle hty_io 0) 0 (sl, t)) (\<lambda>st.
     run_bind (put_init_handle base (io_handle hty_io 1) 1 st) (\<lambda>st.
     run_bind (put_init_handle base (io_handle hty_io 2) 2 st) (\<lambda>st.
     Ret (fst st, 3, snd st))))"

section \<open>The table as a finite map\<close>

definition base_ok :: "u64 \<Rightarrow> bool" where
  "base_ok base \<longleftrightarrow> unat base mod 32 = 0 \<and> unat base + 16384 < 2 ^ 64"

definition live_slots :: "handles \<Rightarrow> nat set" where
  "live_slots t = {n. n < NHANDLES \<and> h_ty (handle_array t ! n) \<noteq> 0}"

definition handles_ok :: "handles \<Rightarrow> bool" where
  "handles_ok t \<longleftrightarrow> length (handle_array t) = NHANDLES \<and> start_hint t < NHANDLES \<and>
     unat (live_handles t) = card (live_slots t)"

definition handle_map :: "u64 \<Rightarrow> handles \<Rightarrow> u64 \<rightharpoonup> handle" where
  "handle_map base t p = (case try_deref base p t of Inr n \<Rightarrow> Some (handle_array t ! n) | Inl e \<Rightarrow> None)"

lemma rotate_hit: "((m + (512 - start mod 512)) mod 512 + start) mod 512 = m mod (512 :: nat)"
proof -
  define q r where "q = start div 512" and "r = start mod 512"
  have s: "start = q * 512 + r" "r < 512" by (simp_all add: q_def r_def)
  have "((m + (512 - r)) mod 512 + start) mod 512 = (m + (512 - r) + start) mod 512"
    by (rule mod_add_left_eq)
  also have "m + (512 - r) + start = m + 512 * (q + 1)" using s by simp
  finally show ?thesis by (simp only: mod_mult_self2 flip: r_def)
qed

lemma probe_order_set: "set (probe_order start) = {..<NHANDLES}"
proof -
  have "m \<in> (\<lambda>n. (n + start) mod 512) ` {..<512}" if "m < 512" for m :: nat
    using rotate_hit [of m start] that by (intro image_eqI [of _ _ "(m + (512 - start mod 512)) mod 512"]) simp_all
  then have "(\<lambda>n. (n + start) mod 512) ` {..<512} = {..<512}" by auto
  moreover have "n AND 511 = n mod 512" for n :: nat
    using take_bit_eq_mask [of 9 n] by (simp add: take_bit_eq_mod mask_eq_exp_minus_1)
  ultimately show ?thesis
    unfolding probe_order_def NHANDLES_def by (simp add: atLeast0LessThan)
qed

lemma unat_slot_addr:
  assumes "base_ok base" "n \<le> NHANDLES"
  shows "unat (slot_addr base n) = unat base + 32 * n"
proof -
  have n: "unat (of_nat (32 * n) :: u64) = 32 * n"
    using assms(2) by (intro unat_of_nat_64) (simp add: NHANDLES_def)
  have "unat base + unat (of_nat (32 * n) :: u64) < 2 ^ 64"
    unfolding n using assms by (simp add: NHANDLES_def base_ok_def)
  then show ?thesis unfolding slot_addr_def by (simp only: unat_add_64 n)
qed

lemma slot_addr_index:
  assumes "base_ok base" "n < NHANDLES"
  shows "unat ((slot_addr base n - base) div 32) = n"
proof -
  have "slot_addr base n - base = of_nat (32 * n)" by (simp add: slot_addr_def)
  moreover have "unat (of_nat (32 * n) :: u64) = 32 * n"
    using assms by (intro unat_of_nat_64) (simp add: NHANDLES_def)
  ultimately show ?thesis by (simp add: unat_div_distrib)
qed

lemma slot_addr_inj:
  assumes "base_ok base" "m < NHANDLES" "n < NHANDLES"
  shows "slot_addr base m = slot_addr base n \<longleftrightarrow> m = n"
  using slot_addr_index assms by metis

lemma slot_addrI:
  assumes "base_ok base" "base \<le> p" "p < slot_addr base NHANDLES" "p mod 32 = 0"
  shows "unat ((p - base) div 32) < NHANDLES \<and> p = slot_addr base (unat ((p - base) div 32))"
proof -
  have d: "unat (p - base) = unat p - unat base" using assms(2) by (simp add: unat_sub)
  have le: "unat base \<le> unat p" using assms(2) by (simp add: word_le_nat_alt)
  have lt: "unat p < unat base + 16384"
    using assms(3) unat_slot_addr [OF assms(1), of NHANDLES] by (simp add: word_less_nat_alt NHANDLES_def)
  have "unat p mod 32 = 0" using assms(4) unat_mod_distrib [of p 32] by simp
  moreover have "unat base mod 32 = 0" using assms(1) by (simp add: base_ok_def)
  ultimately have m: "(unat p - unat base) mod 32 = 0" using le by (metis mod_eq_dvd_iff_nat mod_0_imp_dvd dvd_imp_mod_0 dvd_diff_nat)
  let ?n = "unat ((p - base) div 32)"
  have n: "?n = (unat p - unat base) div 32" using d by (simp add: unat_div_distrib)
  then have lt': "?n < NHANDLES" using lt le by (simp add: NHANDLES_def less_mult_imp_div_less)
  have "unat (slot_addr base ?n) = unat p"
    using unat_slot_addr [OF assms(1) less_imp_le [OF lt']] n m le
    by (metis add.commute le_add_diff_inverse mult_div_mod_eq add_0_right)
  then show ?thesis using lt' by (metis word_unat_eq_iff)
qed

lemma try_deref_iff:
  assumes "base_ok base"
  shows "try_deref base p t = Inr n \<longleftrightarrow> n \<in> live_slots t \<and> p = slot_addr base n"
proof
  assume "try_deref base p t = Inr n"
  then have "base \<le> p" "p < slot_addr base NHANDLES" "p mod 32 = 0" "n = unat ((p - base) div 32)"
      "h_ty (handle_array t ! n) \<noteq> 0"
    by (auto simp: try_deref_def Let_def split: if_splits)
  then show "n \<in> live_slots t \<and> p = slot_addr base n"
    using slot_addrI [OF assms] by (auto simp: live_slots_def)
next
  assume r: "n \<in> live_slots t \<and> p = slot_addr base n"
  then have n: "n < NHANDLES" "h_ty (handle_array t ! n) \<noteq> 0" by (auto simp: live_slots_def)
  have u: "unat p = unat base + 32 * n" using unat_slot_addr [OF assms] r n by simp
  have "base \<le> p" "p < slot_addr base NHANDLES"
    using u n unat_slot_addr [OF assms, of NHANDLES] by (auto simp: word_le_nat_alt word_less_nat_alt)
  moreover have "unat (p mod 32) = 0"
    using u assms by (simp add: unat_mod_distrib base_ok_def)
  then have "p mod 32 = 0" by (simp add: unsigned_eq_0_iff)
  ultimately show "try_deref base p t = Inr n"
    using n r slot_addr_index [OF assms n(1)] by (simp add: try_deref_def)
qed

lemma try_deref_error: "try_deref base p t = Inl e \<Longrightarrow> e = InvalidHandle"
  by (auto simp: try_deref_def Let_def split: if_splits)

lemma handle_map_slot:
  assumes "base_ok base" "n < NHANDLES"
  shows "handle_map base t (slot_addr base n) =
    (if h_ty (handle_array t ! n) = 0 then None else Some (handle_array t ! n))"
proof (cases "h_ty (handle_array t ! n) = 0")
  case True
  then have "try_deref base (slot_addr base n) t \<noteq> Inr m" for m
    using try_deref_iff [OF assms(1)] slot_addr_inj [OF assms(1)] assms(2) by (auto simp: live_slots_def)
  then show ?thesis using True by (cases "try_deref base (slot_addr base n) t") (auto simp: handle_map_def)
next
  case False
  then have "try_deref base (slot_addr base n) t = Inr n"
    using try_deref_iff [OF assms(1)] assms(2) by (simp add: live_slots_def)
  then show ?thesis using False by (simp add: handle_map_def)
qed

lemma handle_map_other:
  assumes "base_ok base" "p \<notin> slot_addr base ` {..<NHANDLES}"
  shows "handle_map base t p = None"
proof -
  have "try_deref base p t \<noteq> Inr n" for n
    using try_deref_iff [OF assms(1)] assms(2) by (auto simp: live_slots_def)
  then show ?thesis by (cases "try_deref base p t") (auto simp: handle_map_def)
qed

lemma handle_map_update:
  assumes "base_ok base" "n < NHANDLES" "length (handle_array t) = NHANDLES"
    and "handle_array t' = (handle_array t)[n := h]"
  shows "handle_map base t' = (handle_map base t)(slot_addr base n := if h_ty h = 0 then None else Some h)"
proof
  fix p
  show "handle_map base t' p =
      ((handle_map base t)(slot_addr base n := if h_ty h = 0 then None else Some h)) p"
  proof (cases "p \<in> slot_addr base ` {..<NHANDLES}")
    case True
    then obtain m where "m < NHANDLES" "p = slot_addr base m" by blast
    then show ?thesis
      using assms slot_addr_inj [OF assms(1)] handle_map_slot [OF assms(1)] by (simp add: nth_list_update)
  next
    case False
    then show ?thesis using handle_map_other [OF assms(1)] assms(2) by auto
  qed
qed

lemma dom_handle_map:
  assumes "base_ok base"
  shows "dom (handle_map base t) = slot_addr base ` live_slots t"
proof -
  have "p \<in> dom (handle_map base t) \<longleftrightarrow> (\<exists>n. try_deref base p t = Inr n)" for p
    by (auto simp: handle_map_def domIff split: sum.splits)
  then show ?thesis unfolding try_deref_iff [OF assms] by auto
qed

lemma finite_live_slots [simp]: "finite (live_slots t)"
  by (simp add: live_slots_def)

lemma card_handle_map:
  assumes "base_ok base"
  shows "card (dom (handle_map base t)) = card (live_slots t)"
  unfolding dom_handle_map [OF assms]
  by (rule card_image) (auto simp: inj_on_def live_slots_def slot_addr_inj [OF assms])

lemma card_live_slots: "card (live_slots t) \<le> NHANDLES"
  using card_mono [of "{..<NHANDLES}" "live_slots t"] by (auto simp: live_slots_def)

lemma live_slots_insert:
  assumes "length (handle_array t) = NHANDLES" "n < NHANDLES" "h_ty h \<noteq> 0" "handle_array t' = (handle_array t)[n := h]"
  shows "live_slots t' = insert n (live_slots t)"
  using assms by (auto simp: live_slots_def nth_list_update)

lemma live_slots_remove:
  assumes "length (handle_array t) = NHANDLES" "n < NHANDLES" "handle_array t' = (handle_array t)[n := zeroed_handle]"
  shows "live_slots t' = live_slots t - {n}"
  using assms by (auto simp: live_slots_def nth_list_update zeroed_handle_def)

lemma insert_handle_cases:
  assumes "handles_ok t"
  obtains (stored) n where "n < NHANDLES" "n \<notin> live_slots t"
      "insert_handle base h t = (Inr (slot_addr base n),
        t\<lparr>start_hint := n, live_handles := live_handles t + 1, handle_array := (handle_array t)[n := h]\<rparr>)"
    | (full) "live_slots t = {..<NHANDLES}" "insert_handle base h t = (Inl ResourceLimitExhausted, t)"
proof (cases "find (\<lambda>n. h_ty (handle_array t ! n) = 0) (probe_order (start_hint t))")
  case None
  then have "live_slots t = {..<NHANDLES}"
    using probe_order_set by (auto simp: find_None_iff live_slots_def)
  then show thesis using full None by (simp add: insert_handle_def)
next
  case (Some n)
  then have "n \<in> set (probe_order (start_hint t))" "h_ty (handle_array t ! n) = 0"
    by (auto simp: find_Some_iff)
  then show thesis
    using stored [of n] Some probe_order_set by (auto simp: insert_handle_def live_slots_def)
qed

lemma insert_handle_ok:
  assumes "base_ok base" "handles_ok t" "h_ty h \<noteq> 0" "insert_handle base h t = (Inr p, t')"
  shows "handles_ok t' \<and> handle_map base t p = None \<and> handle_map base t' = (handle_map base t)(p \<mapsto> h)"
  using assms(2)
proof (cases rule: insert_handle_cases [where base = base and h = h])
  case (stored n)
  have p: "p = slot_addr base n" and t': "t' = t\<lparr>start_hint := n, live_handles := live_handles t + 1,
      handle_array := (handle_array t)[n := h]\<rparr>" using stored(3) assms(4) by auto
  have l: "length (handle_array t) = NHANDLES" using assms(2) by (simp add: handles_ok_def)
  have "card (live_slots t') = Suc (card (live_slots t))"
    using live_slots_insert [OF l stored(1) assms(3), of t'] stored(2) t' by simp
  moreover have "unat (live_handles t + 1) = Suc (card (live_slots t))"
    using assms(2) card_live_slots [of t] by (subst unat_add_64) (simp_all add: handles_ok_def NHANDLES_def)
  ultimately have "handles_ok t'" using t' l stored(1) by (simp add: handles_ok_def)
  then show ?thesis
    using handle_map_update [OF assms(1) stored(1) l, of t' h] handle_map_slot [OF assms(1) stored(1), of t]
      stored t' p assms(3) by (auto simp: live_slots_def)
next
  case full
  then show ?thesis using assms(4) by simp
qed

lemma insert_handle_full:
  assumes "base_ok base" "handles_ok t" "insert_handle base h t = (Inl e, t')"
  shows "e = ResourceLimitExhausted \<and> t' = t \<and> card (dom (handle_map base t)) = NHANDLES"
  using assms(2)
proof (cases rule: insert_handle_cases [where base = base and h = h])
  case full
  then show ?thesis using assms(3) card_handle_map [OF assms(1), of t] by simp
next
  case (stored n)
  then show ?thesis using assms(3) by simp
qed

lemma handle_close_ok:
  assumes "base_ok base" "handles_ok t" "try_deref base p t = Inr n" "handle_close use_fd2 n t = (fds, t')"
  shows "handles_ok t' \<and> handle_map base t' = (handle_map base t)(p := None)"
proof -
  have n: "n \<in> live_slots t" "p = slot_addr base n" using try_deref_iff [OF assms(1)] assms(3) by auto
  then have lt: "n < NHANDLES" by (simp add: live_slots_def)
  have l: "length (handle_array t) = NHANDLES" using assms(2) by (simp add: handles_ok_def)
  have t': "t' = t\<lparr>live_handles := live_handles t - 1, handle_array := (handle_array t)[n := zeroed_handle]\<rparr>"
    using assms(4) by (simp add: handle_close_def)
  have c: "card (live_slots t') = card (live_slots t) - 1"
    using live_slots_remove [OF l lt, of t'] n t' by simp
  have "0 < card (live_slots t)" using n by (auto simp: card_gt_0_iff)
  then have "live_handles t \<noteq> 0" using assms(2) by (auto simp: handles_ok_def)
  then have "unat (live_handles t - 1) = unat (live_handles t) - 1"
    by (metis unat_minus_one)
  then have "handles_ok t'" using assms(2) c t' by (simp add: handles_ok_def)
  then show ?thesis
    using handle_map_update [OF assms(1) lt l, of t' zeroed_handle] t' n by (simp add: zeroed_handle_def)
qed

interpretation handle_table: key_store "\<lambda>t. base_ok base \<and> handles_ok t" "\<lambda>h. h_ty h \<noteq> 0"
    "handle_map base" "insert_handle base" NHANDLES for base
proof
  show "finite (dom (handle_map base t))" if "base_ok base \<and> handles_ok t" for t
    using that dom_handle_map [of base t] by simp
  show "(base_ok base \<and> handles_ok t') \<and> handle_map base t k = None \<and> handle_map base t' = (handle_map base t)(k \<mapsto> h)"
    if "base_ok base \<and> handles_ok t" "h_ty h \<noteq> 0" "insert_handle base h t = (Inr k, t')" for t h k t'
    using that insert_handle_ok [of base t h k t'] by blast
  show "t' = t \<and> card (dom (handle_map base t)) = NHANDLES"
    if "base_ok base \<and> handles_ok t" "h_ty h \<noteq> 0" "insert_handle base h t = (Inl e, t')" for t h e t'
    using that insert_handle_full [of base t h e t'] by blast
qed

text \<open>The descriptors a handle lends out, the second one only when it has the sign of a descriptor.\<close>

definition lent_fds :: "bool \<Rightarrow> handle \<Rightarrow> u32 set" where
  "lent_fds use_fd2 h = {fd. borrow_fd h = Some fd \<or> (use_fd2 \<and> borrow_fd2 h = Some fd)}"

text \<open>
  C2. The handle table is a finite map from handle pointers to handles. Inserting a handle whose
  type is not zero fails only when all 512 slots are taken, and then changes nothing; otherwise it
  returns a pointer that was invalid before and maps this pointer, and no other, to the handle. A
  pointer that the map does not have is refused with \<open>InvalidHandle\<close>; closing the handle of one that
  it has removes that pointer alone and closes exactly the descriptors the handle lends out. The
  count of live handles is the size of the map.
\<close>

theorem handle_table_refines:
  assumes "base_ok base" "handles_ok t" "h_ty h \<noteq> 0"
  shows "(case insert_handle base h t of
            (Inr q, t') \<Rightarrow> handles_ok t' \<and> handle_map base t q = None \<and>
              handle_map base t' = (handle_map base t)(q \<mapsto> h)
          | (Inl e, t') \<Rightarrow> e = ResourceLimitExhausted \<and> t' = t \<and> card (dom (handle_map base t)) = NHANDLES) \<and>
    (case try_deref base p t of
        Inl e \<Rightarrow> e = InvalidHandle \<and> handle_map base t p = None
      | Inr n \<Rightarrow> handle_map base t p = Some (handle_array t ! n) \<and>
          (case handle_close use_fd2 n t of
             (fds, t') \<Rightarrow> handles_ok t' \<and> handle_map base t' = (handle_map base t)(p := None) \<and>
               set fds = lent_fds use_fd2 (handle_array t ! n))) \<and>
    unat (live_handles t) = card (dom (handle_map base t))"
proof (intro conjI)
  show "case insert_handle base h t of
            (Inr q, t') \<Rightarrow> handles_ok t' \<and> handle_map base t q = None \<and>
              handle_map base t' = (handle_map base t)(q \<mapsto> h)
          | (Inl e, t') \<Rightarrow> e = ResourceLimitExhausted \<and> t' = t \<and> card (dom (handle_map base t)) = NHANDLES"
    using insert_handle_ok [OF assms] insert_handle_full [OF assms(1,2)]
    by (auto split: prod.splits sum.splits)
  have "set fds = lent_fds use_fd2 (handle_array t ! n)" if "handle_close use_fd2 n t = (fds, t')" for n fds t'
    using that by (auto simp: handle_close_def closed_fds_def lent_fds_def borrow_fd_def borrow_fd2_def)
  then show "case try_deref base p t of
        Inl e \<Rightarrow> e = InvalidHandle \<and> handle_map base t p = None
      | Inr n \<Rightarrow> handle_map base t p = Some (handle_array t ! n) \<and>
          (case handle_close use_fd2 n t of
             (fds, t') \<Rightarrow> handles_ok t' \<and> handle_map base t' = (handle_map base t)(p := None) \<and>
               set fds = lent_fds use_fd2 (handle_array t ! n))"
    using handle_close_ok [OF assms(1,2)] try_deref_error
    by (auto simp: handle_map_def split: prod.splits sum.splits)
  show "unat (live_handles t) = card (dom (handle_map base t))"
    using assms(2) card_handle_map [OF assms(1), of t] by (simp add: handles_ok_def)
qed

lemma handles_init_ok: "handles_ok handles_init" "live_slots handles_init = {}"
proof -
  show "live_slots handles_init = {}" by (auto simp: live_slots_def handles_init_def zeroed_handle_def)
  then show "handles_ok handles_init" by (simp add: handles_ok_def handles_init_def NHANDLES_def)
qed

lemma handles_init_map: "base_ok base \<Longrightarrow> handle_map base handles_init = Map.empty"
  using dom_handle_map [of base handles_init] handles_init_ok(2) by simp

theorem handle_table_refines_witness:
  "\<exists>q t. insert_handle 0x7000 (io_handle 3 1) handles_init = (Inr q, t) \<and> handle_map 0x7000 t q = Some (io_handle 3 1)"
proof -
  have b: "base_ok 0x7000" by (simp add: base_ok_def)
  obtain r t where r: "insert_handle 0x7000 (io_handle 3 1) handles_init = (r, t)" by fastforce
  from handle_table_refines [OF b handles_init_ok(1), of "io_handle 3 1"] r handles_init_map [OF b] show ?thesis
    by (cases r) (auto simp: io_handle_def NHANDLES_def)
qed

text \<open>
  The initial handles: with room for three handles and a slice of at least three entries, the
  first three entries receive distinct handle pointers for the standard input, output and error
  descriptor, the length of the slice becomes 3, and the rest of the slice and of the table stays as
  it was. A shorter slice panics.
\<close>

theorem init_handles:
  assumes "base_ok base" "handles_ok t" "hty_io \<noteq> 0" "card (dom (handle_map base t)) + 3 \<le> NHANDLES"
  shows "if length sl < 3 then get_init_handles hty_io base sl t = Panic
    else \<exists>i j k t'. get_init_handles hty_io base sl t = Ret ([i, j, k] @ drop 3 sl, 3, t') \<and>
      handles_ok t' \<and> distinct [i, j, k] \<and>
      handle_map base t' = (handle_map base t)
        (i \<mapsto> io_handle hty_io 0, j \<mapsto> io_handle hty_io 1, k \<mapsto> io_handle hty_io 2)"
proof -
  have v: "h_ty (io_handle hty_io n) \<noteq> 0" for n using assms(3) by (simp add: io_handle_def)
  obtain i j k s1 s2 s3 where
    "insert_handle base (io_handle hty_io 0) t = (Inr i, s1)" "insert_handle base (io_handle hty_io 1) s1 = (Inr j, s2)"
    "insert_handle base (io_handle hty_io 2) s2 = (Inr k, s3)"
    and s3: "base_ok base \<and> handles_ok s3" "distinct [i, j, k]" "handle_map base s3 = (handle_map base t)
        (i \<mapsto> io_handle hty_io 0, j \<mapsto> io_handle hty_io 1, k \<mapsto> io_handle hty_io 2)"
    by (rule handle_table.put_three [of base t "io_handle hty_io 0" "io_handle hty_io 1" "io_handle hty_io 2"])
      (use assms v in simp_all)
  then have "get_init_handles hty_io base sl t =
      (if length sl < 3 then Panic else Ret (sl[0 := i, 1 := j, 2 := k], 3, s3))"
    by (auto simp: get_init_handles_def put_init_handle_def)
  moreover have "sl[0 := i, 1 := j, 2 := k] = [i, j, k] @ drop 3 sl" if "\<not> length sl < 3"
  proof -
    have "3 \<le> length sl" using that by simp
    then obtain a b c r where "sl = a # b # c # r"
      unfolding numeral_3_eq_3 Suc_le_length_iff by blast
    then show ?thesis by (simp add: numeral_2_eq_2)
  qed
  ultimately show ?thesis using s3 by auto
qed

theorem init_handles_witness:
  "\<exists>i t. get_init_handles 3 0x7000 [0, 0, 0, 9] handles_init = Ret (i @ [9], 3, t) \<and> handles_ok t"
proof -
  have b: "base_ok 0x7000" by (simp add: base_ok_def)
  from init_handles [OF b handles_init_ok(1), of 3 "[0, 0, 0, 9]"] handles_init_map [OF b] show ?thesis
    by (auto simp: NHANDLES_def)
qed

end
