(* ===== verification/WL_Io.thy ===== *)
theory WL_Io
  imports WL_Split WL_Errors
begin

text \<open>
  Reading and writing through file descriptors: the buffered reader \<open>BufFdReader\<close> and the writer
  \<open>FdFormatter\<close> of the loader (\<open>wl-ld-lilium/src/io.rs\<close>), \<open>pread_exact\<close> and \<open>copy_to_slice_head\<close>
  (\<open>wl-ld-lilium/src/helpers.rs\<close>), \<open>read_offset\<close> of the loader back end
  (\<open>wl-ld-lilium/src/loader.rs\<close>) and the writer \<open>Stdio\<close> (\<open>wl-impl/src/ministd.rs\<close>). The kernel's
  answers to the successive calls are a parameter: a list whose end means end of file for a reader,
  and a function of the request for \<open>pread_exact\<close>, which may wait for ever.
\<close>

section \<open>The buffered reader\<close>

definition copy_to_slice_head :: "'a list \<Rightarrow> 'a list \<Rightarrow> 'a list run" where
  "copy_to_slice_head dest src = (if length dest < length src then Panic else Ret (overwrite dest 0 src))"

datatype read_answer = Data bytes | Fail errno

record reader =
  rd_fd :: u32
  rd_buf :: bytes
  rd_pos :: nat
  rd_len :: nat

definition reader_new :: "u32 \<Rightarrow> reader" where
  "reader_new fd = \<lparr>rd_fd = fd, rd_buf = replicate 128 0, rd_pos = 0, rd_len = 0\<rparr>"

definition reader_buf :: "reader \<Rightarrow> bytes" where
  "reader_buf r = drop (rd_pos r) (take (rd_len r) (rd_buf r))"

type_synonym source = "reader \<times> read_answer list"

definition fill_buf :: "source \<Rightarrow> (errno + bytes) \<times> source" where
  "fill_buf s =
     (case s of (r, ks) \<Rightarrow>
        if rd_pos r = rd_len r
        then (case ks of
                [] \<Rightarrow> let r' = r\<lparr>rd_len := 0, rd_pos := 0\<rparr> in (Inr (reader_buf r'), r', [])
              | Fail e # ks' \<Rightarrow> (Inl e, r, ks')
              | Data d # ks' \<Rightarrow>
                  let r' = r\<lparr>rd_buf := overwrite (rd_buf r) 0 d, rd_len := length d, rd_pos := 0\<rparr>
                  in (Inr (reader_buf r'), r', ks'))
        else (Inr (reader_buf r), r, ks))"

definition consume :: "nat \<Rightarrow> source \<Rightarrow> source run" where
  "consume amt s =
     (case s of (r, ks) \<Rightarrow>
        let r' = r\<lparr>rd_pos := rd_pos r + amt\<rparr> in
        if rd_len r' < rd_pos r' then Panic else Ret (r', ks))"

text \<open>What is left to come, which bounds the number of iterations of the loops.\<close>

fun answer_size :: "read_answer \<Rightarrow> nat" where
  "answer_size (Data d) = Suc (length d)"
| "answer_size (Fail e) = 1"

definition pending :: "source \<Rightarrow> nat" where
  "pending s = rd_len (fst s) - rd_pos (fst s) + sum_list (map answer_size (snd s))"

lemma fill_buf_pending: "fill_buf s = (x, s') \<Longrightarrow> pending s' \<le> pending s"
  by (cases s) (auto simp: fill_buf_def pending_def Let_def split: if_splits list.splits read_answer.splits)

lemma consume_pending:
  "consume amt s = Ret s' \<Longrightarrow> pending s' + amt = pending s"
  by (cases s) (auto simp: consume_def pending_def Let_def split: if_splits)

text \<open>The position of the line end in the buffer, and whether there is one.\<close>

definition line_end :: "bytes \<Rightarrow> bool \<times> nat" where
  "line_end buf = (case find_sep 10 buf of Some i \<Rightarrow> (True, i) | None \<Rightarrow> (False, length buf))"

lemma line_end_False: "(False, k) = line_end buf \<Longrightarrow> k = length buf"
  by (auto simp: line_end_def split: option.splits)

text \<open>
  \<open>read_line_static\<close>: \<open>n\<close> is the caller's buffer, \<open>pos\<close> the number of its bytes that are filled. The
  result is the line, a prefix of the buffer.
\<close>

function read_line_loop :: "bytes \<Rightarrow> nat \<Rightarrow> source \<Rightarrow> ((errno + bytes option) \<times> bytes \<times> source) run" where
  "read_line_loop n pos s =
     (case fill_buf s of
        (Inl e, s1) \<Rightarrow> Ret (Inl e, n, s1)
      | (Inr buf, s1) \<Rightarrow>
          if buf = [] then Ret (Inr None, n, s1)
          else let (found, max_len) = line_end buf;
                   real_len = min max_len (length n - pos);
                   n' = take pos n @ overwrite (drop pos n) 0 (take real_len buf)
               in (case consume (real_len + of_bool found) s1 of
                     Panic \<Rightarrow> Panic
                   | Ret s2 \<Rightarrow>
                       if length n - pos < max_len \<or> found
                       then Ret (Inr (Some (take (pos + real_len) n')), n', s2)
                       else read_line_loop n' (pos + real_len) s2))"
  by pat_completeness auto

termination
  by (relation "measure (\<lambda>(n, pos, s). pending s)")
    (auto dest!: fill_buf_pending [OF sym] consume_pending line_end_False simp flip: length_greater_0_conv)

declare read_line_loop.simps [simp del]

definition read_line_static :: "bytes \<Rightarrow> source \<Rightarrow> ((errno + bytes option) \<times> bytes \<times> source) run" where
  "read_line_static n s = read_line_loop n 0 s"

datatype seek_from = Start u64 | End u64 | Current u64

definition reader_seek :: "(seek_from \<Rightarrow> errno + u64) \<Rightarrow> seek_from \<Rightarrow> reader \<Rightarrow> (errno + u64) \<times> reader" where
  "reader_seek lseek p r = (lseek p, r\<lparr>rd_pos := rd_len r\<rparr>)"

text \<open>\<open>read\<close> fills the first bytes of the part of \<open>dest\<close> from \<open>off\<close> on and returns their number.\<close>

definition reader_read :: "bytes \<Rightarrow> nat \<Rightarrow> source \<Rightarrow> ((errno + nat) \<times> bytes \<times> source) run" where
  "reader_read dest off s =
     (case fill_buf s of
        (Inl e, s1) \<Rightarrow> Ret (Inl e, dest, s1)
      | (Inr buf, s1) \<Rightarrow>
          let len = min (length dest - off) (length buf) in
          (case consume len s1 of
             Panic \<Rightarrow> Panic
           | Ret s2 \<Rightarrow> Ret (Inr len, overwrite dest off (take len buf), s2)))"

lemma fill_buf_Inl: "fill_buf s = (Inl e, s') \<Longrightarrow> pending s' < pending s"
  by (cases s) (auto simp: fill_buf_def pending_def Let_def split: if_splits list.splits read_answer.splits)

lemma reader_read_pending:
  "reader_read dest off s = Ret (Inr n, d, s') \<Longrightarrow> pending s' + n \<le> pending s"
  "reader_read dest off s = Ret (Inl e, d, s') \<Longrightarrow> pending s' < pending s"
  by (auto simp: reader_read_def Let_def dest!: fill_buf_pending consume_pending fill_buf_Inl
      split: prod.splits sum.splits run.splits)

function read_exact_loop :: "bytes \<Rightarrow> nat \<Rightarrow> source \<Rightarrow> ((errno + unit) \<times> bytes \<times> source) run" where
  "read_exact_loop dest off s =
     (if length dest \<le> off then Ret (Inr (), dest, s)
      else case reader_read dest off s of
             Panic \<Rightarrow> Panic
           | Ret (Inr n, dest', s') \<Rightarrow>
               if n = 0 then Ret (Inl ENODATA, dest', s') else read_exact_loop dest' (off + n) s'
           | Ret (Inl e, dest', s') \<Rightarrow>
               if e = EINTR then read_exact_loop dest' off s' else Ret (Inl e, dest', s'))"
  by pat_completeness auto

termination
  by (relation "measure (\<lambda>(dest, off, s). pending s)") (auto dest!: reader_read_pending [rotated -1])

declare read_exact_loop.simps [simp del]

definition read_exact :: "bytes \<Rightarrow> source \<Rightarrow> ((errno + unit) \<times> bytes \<times> source) run" where
  "read_exact dest s = read_exact_loop dest 0 s"

section \<open>Reads at an offset\<close>

text \<open>
  \<open>pread64\<close> answers the \<open>i\<close>-th call for \<open>len\<close> bytes at an offset. An answer longer than the request
  would make the slice expression panic. The loop repeats interrupted calls without a limit, so it
  may not return: then the value is \<open>None\<close>.
\<close>

type_synonym pread64 = "nat \<Rightarrow> u64 \<Rightarrow> nat \<Rightarrow> read_answer"

partial_function (option) pread_exact_loop ::
    "pread64 \<Rightarrow> nat \<Rightarrow> u64 \<Rightarrow> bytes \<Rightarrow> nat \<Rightarrow> ((errno + unit) \<times> bytes) run option" where
  "pread_exact_loop k i offset dest off =
     (if length dest \<le> off then Some (Ret (Inr (), dest))
      else case k i offset (length dest - off) of
             Data d \<Rightarrow>
               if d = [] then Some (Ret (Inl ENODATA, dest))
               else if length dest - off < length d then Some Panic
               else pread_exact_loop k (Suc i) (offset + of_nat (length d)) (overwrite dest off d) (off + length d)
           | Fail e \<Rightarrow>
               if e = EINTR then pread_exact_loop k (Suc i) offset dest off
               else Some (Ret (Inl e, dest)))"

definition pread_exact :: "pread64 \<Rightarrow> u64 \<Rightarrow> bytes \<Rightarrow> ((errno + unit) \<times> bytes) run option" where
  "pread_exact k offset dest = pread_exact_loop k 0 offset dest 0"

text \<open>\<open>read_offset\<close> seeks once and then reads on; its only error is \<open>ReadError\<close>, the left summand.\<close>

fun read_offset_loop :: "read_answer list \<Rightarrow> bytes \<Rightarrow> nat \<Rightarrow> ((unit + unit) \<times> bytes) run" where
  "read_offset_loop ks dest off =
     (if length dest \<le> off then Ret (Inr (), dest)
      else case ks of
             [] \<Rightarrow> Ret (Inl (), dest)
           | Fail e # ks' \<Rightarrow> Ret (Inl (), dest)
           | Data d # ks' \<Rightarrow>
               if d = [] then Ret (Inl (), dest)
               else if length dest - off < length d then Panic
               else read_offset_loop ks' (overwrite dest off d) (off + length d))"

definition read_offset :: "(u64 \<Rightarrow> errno + read_answer list) \<Rightarrow> u64 \<Rightarrow> bytes \<Rightarrow> ((unit + unit) \<times> bytes) run" where
  "read_offset lseek off dest =
     (case lseek off of Inl e \<Rightarrow> Ret (Inl (), dest) | Inr ks \<Rightarrow> read_offset_loop ks dest 0)"

section \<open>Writers\<close>

text \<open>
  The kernel writes the number of bytes it answers from the start of the buffer it is given, or fails.
  While there are answers the writers go on; \<open>None\<close> is a writer that waits for another one. \<open>out\<close> is
  what has been written so far.
\<close>

datatype write_answer = Wrote nat | WriteFailed

fun fd_write_loop :: "bytes \<Rightarrow> nat \<Rightarrow> write_answer list \<Rightarrow> bytes \<Rightarrow> ((unit + unit) \<times> bytes) run option" where
  "fd_write_loop st off ws out =
     (if length st \<le> off then Some (Ret (Inr (), out))
      else case ws of
             [] \<Rightarrow> None
           | WriteFailed # ws' \<Rightarrow> Some (Ret (Inl (), out))
           | Wrote n # ws' \<Rightarrow>
               if length st - off < n then Some Panic
               else fd_write_loop st (off + n) ws' (out @ take n st))"

definition fd_write_str :: "bytes \<Rightarrow> write_answer list \<Rightarrow> ((unit + unit) \<times> bytes) run option" where
  "fd_write_str st ws = fd_write_loop st 0 ws []"

fun stdio_write_loop :: "bytes \<Rightarrow> nat \<Rightarrow> write_answer list \<Rightarrow> bytes \<Rightarrow> ((unit + unit) \<times> bytes) run option" where
  "stdio_write_loop st off ws out =
     (if length st \<le> off then Some (Ret (Inr (), out))
      else case ws of
             [] \<Rightarrow> None
           | WriteFailed # ws' \<Rightarrow> Some (Ret (Inl (), out))
           | Wrote n # ws' \<Rightarrow>
               if n = 0 then Some (Ret (Inl (), out))
               else if length st - off < n then Some Panic
               else stdio_write_loop st (off + n) ws' (out @ take n (drop off st)))"

definition stdio_write_str :: "bytes \<Rightarrow> write_answer list \<Rightarrow> ((unit + unit) \<times> bytes) run option" where
  "stdio_write_str st ws = stdio_write_loop st 0 ws []"

declare read_offset_loop.simps [simp del] fd_write_loop.simps [simp del] stdio_write_loop.simps [simp del]

section \<open>The bytes that are still to come\<close>

fun answer_bytes :: "read_answer \<Rightarrow> bytes" where
  "answer_bytes (Data d) = d"
| "answer_bytes (Fail e) = []"

definition stream :: "source \<Rightarrow> bytes" where
  "stream s = reader_buf (fst s) @ concat (map answer_bytes (snd s))"

text \<open>Answers that deliver data: between one and 128 bytes, or an interruption where \<open>intr\<close> allows it.\<close>

fun answer_ok :: "bool \<Rightarrow> read_answer \<Rightarrow> bool" where
  "answer_ok intr (Data d) \<longleftrightarrow> d \<noteq> [] \<and> length d \<le> 128"
| "answer_ok intr (Fail e) \<longleftrightarrow> intr \<and> e = EINTR"

definition source_ok :: "bool \<Rightarrow> source \<Rightarrow> bool" where
  "source_ok intr s \<longleftrightarrow> length (rd_buf (fst s)) = 128 \<and> rd_pos (fst s) \<le> rd_len (fst s) \<and> rd_len (fst s) \<le> 128 \<and>
     list_all (answer_ok intr) (snd s)"

lemma overwrite_whole: "length d \<le> length b \<Longrightarrow> take (length d) (overwrite b 0 d) = d"
  by (simp add: overwrite_def)

lemma fill_buf_ok:
  assumes "source_ok intr s" "fill_buf s = (Inr buf, s1)"
  shows "source_ok intr s1" "stream s1 = stream s" "reader_buf (fst s1) = buf" "buf = [] \<longleftrightarrow> stream s = []"
proof -
  obtain r ks where s: "s = (r, ks)" by fastforce
  have "source_ok intr s1 \<and> stream s1 = stream s \<and> reader_buf (fst s1) = buf \<and> (buf = [] \<longleftrightarrow> stream s = [])"
  proof (cases "rd_pos r = rd_len r")
    case False
    then have "rd_pos r < rd_len r" "rd_len r \<le> length (rd_buf r)" using assms(1) s by (auto simp: source_ok_def)
    then have "reader_buf r \<noteq> []" by (simp add: reader_buf_def)
    then show ?thesis using False assms s by (auto simp: fill_buf_def stream_def)
  next
    case True
    then show ?thesis
      using assms s
      by (cases ks rule: list.exhaust; cases "hd ks")
        (auto simp: fill_buf_def stream_def source_ok_def Let_def reader_buf_def overwrite_whole length_overwrite)
  qed
  then show "source_ok intr s1" "stream s1 = stream s" "reader_buf (fst s1) = buf" "buf = [] \<longleftrightarrow> stream s = []"
    by auto
qed

lemma fill_buf_error:
  assumes "source_ok intr s" "fill_buf s = (Inl e, s1)"
  shows "intr \<and> e = EINTR \<and> source_ok intr s1 \<and> stream s1 = stream s"
  using assms
  by (cases s; cases "snd s" rule: list.exhaust; cases "hd (snd s)")
    (auto simp: fill_buf_def stream_def source_ok_def Let_def split: if_splits)

lemma consume_ok:
  assumes "source_ok intr s" "n \<le> length (reader_buf (fst s))"
  obtains s' where "consume n s = Ret s'" "source_ok intr s'" "stream s' = drop n (stream s)"
proof -
  obtain r ks where s: "s = (r, ks)" by fastforce
  have b: "length (reader_buf r) = rd_len r - rd_pos r" using assms(1) s by (simp add: reader_buf_def source_ok_def)
  let ?r = "r\<lparr>rd_pos := rd_pos r + n\<rparr>"
  have "consume n s = Ret (?r, ks)" "source_ok intr (?r, ks)"
    using assms s b by (auto simp: consume_def source_ok_def Let_def)
  moreover have "reader_buf ?r = drop n (reader_buf r)" by (simp add: reader_buf_def add.commute)
  then have "stream (?r, ks) = drop n (stream s)" using assms(2) s by (simp add: stream_def)
  ultimately show thesis using that by blast
qed

section \<open>Reading a line\<close>

lemma read_line_step:
  assumes "source_ok False s" "pos \<le> length n" "stream s \<noteq> []"
    and "fill_buf s = (Inr buf, s1)" "line_end buf = (found, m)" "k = min m (length n - pos)"
    and "n' = take pos n @ overwrite (drop pos n) 0 (take k buf)"
  obtains s2 where "source_ok False s2" "stream s2 = drop (k + of_bool found) (stream s)"
    "read_line_loop n pos s =
       (if length n - pos < m \<or> found then Ret (Inr (Some (take pos n @ take k buf)), n', s2)
        else read_line_loop n' (pos + k) s2)"
    "length n' = length n" "take (pos + k) n' = take pos n @ take k buf" "k \<le> length buf" "\<exists>R. stream s = buf @ R"
proof -
  note f = fill_buf_ok [OF assms(1,4)]
  have m: "m \<le> length buf" "found \<Longrightarrow> m < length buf"
    using assms(5) find_sep_Some [of 10 buf m] by (auto simp: line_end_def split: option.splits)
  have kb: "k \<le> length buf" "k \<le> length n - pos" using m(1) assms(6) by auto
  have "k + of_bool found \<le> length (reader_buf (fst s1))" using m assms(6) f(3) by (cases found) auto
  then obtain s2 where s2: "consume (k + of_bool found) s1 = Ret s2" "source_ok False s2"
    "stream s2 = drop (k + of_bool found) (stream s1)"
    by (rule consume_ok [OF f(1)])
  have ln: "length n' = length n" "take (pos + k) n' = take pos n @ take k buf"
    using assms(2,7) kb by (simp_all add: overwrite_def)
  have "stream s = buf @ concat (map answer_bytes (snd s1))" using f(2,3) by (simp add: stream_def)
  then have "\<exists>R. stream s = buf @ R" by blast
  moreover have "read_line_loop n pos s =
       (if length n - pos < m \<or> found then Ret (Inr (Some (take pos n @ take k buf)), n', s2)
        else read_line_loop n' (pos + k) s2)"
    using assms(3-7) f(4) s2(1) ln(2) by (subst read_line_loop.simps) (simp add: Let_def)
  ultimately show thesis using that s2 f(2) ln kb by simp
qed

text \<open>
  What a caller with room for \<open>room\<close> bytes gets from the bytes \<open>S\<close>, and the bytes that are left: a
  line that fits, nothing for a last line without its end, and the first \<open>room\<close> bytes of a line that
  does not fit, after which either the next byte follows or the one after it.
\<close>

definition line_result :: "bytes \<Rightarrow> nat \<Rightarrow> bytes option \<Rightarrow> bytes \<Rightarrow> bool" where
  "line_result S room out left \<longleftrightarrow>
     (\<exists>L. S = L @ 10 # left \<and> 10 \<notin> set L \<and> length L \<le> room \<and> out = Some L) \<or>
     (10 \<notin> set S \<and> length S \<le> room \<and> out = None \<and> left = []) \<or>
     (room < length S \<and> 10 \<notin> set (take (Suc room) S) \<and> out = Some (take room S) \<and>
        left \<in> {drop room S, drop (Suc room) S})"

lemma line_result_append:
  assumes "line_result S (room - length B) out left" "10 \<notin> set B" "length B \<le> room"
  shows "line_result (B @ S) room (map_option ((@) B) out) left"
proof -
  have *: "Suc room - length B = Suc (room - length B)" using assms(3) by simp
  from assms(1) show ?thesis
    unfolding line_result_def
  proof (elim disjE exE conjE)
    fix L assume "S = L @ 10 # left" "10 \<notin> set L" "length L \<le> room - length B" "out = Some L"
    then have "B @ S = (B @ L) @ 10 # left \<and> 10 \<notin> set (B @ L) \<and> length (B @ L) \<le> room \<and>
        map_option ((@) B) out = Some (B @ L)" using assms(2,3) by simp
    then show "(\<exists>L. B @ S = L @ 10 # left \<and> 10 \<notin> set L \<and> length L \<le> room \<and> map_option ((@) B) out = Some L) \<or>
      10 \<notin> set (B @ S) \<and> length (B @ S) \<le> room \<and> map_option ((@) B) out = None \<and> left = [] \<or>
      room < length (B @ S) \<and> 10 \<notin> set (take (Suc room) (B @ S)) \<and>
      map_option ((@) B) out = Some (take room (B @ S)) \<and> left \<in> {drop room (B @ S), drop (Suc room) (B @ S)}" by blast
  qed (use assms(2,3) * in auto)
qed

lemma line_result_here:
  assumes "line_end buf = (found, m)" "room < m \<or> found" "k = min m room"
  shows "line_result (buf @ R) room (Some (take k buf)) (drop (k + of_bool found) (buf @ R))"
proof (cases "found \<and> m \<le> room")
  case True
  then have m: "find_sep 10 buf = Some m" "k = m" using assms by (auto simp: line_end_def split: option.splits)
  note f = find_sep_Some [OF m(1)]
  then have "buf @ R = take m buf @ 10 # drop (m + 1) (buf @ R)" using id_take_nth_drop [of m buf] by simp
  then show ?thesis using f True m(2) unfolding line_result_def by auto
next
  case False
  then have r: "room < m" "k = room" using assms by auto
  have m: "m \<le> length buf" "10 \<notin> set (take m buf)"
    using assms(1) find_sep_Some [of 10 buf m] by (auto simp: line_end_def split: option.splits)
  then have "10 \<notin> set (take (Suc room) buf)" using set_take_subset_set_take [of "Suc room" m buf] r(1) by auto
  then show ?thesis using r m(1) unfolding line_result_def by (cases found) auto
qed

lemma read_line_loop_result:
  assumes "source_ok False s" "pos \<le> length n"
  shows "\<exists>out n' s'. read_line_loop n pos s = Ret (Inr (map_option ((@) (take pos n)) out), n', s') \<and>
    length n' = length n \<and> source_ok False s' \<and> line_result (stream s) (length n - pos) out (stream s')"
  using assms
proof (induction "length (stream s)" arbitrary: n pos s rule: less_induct)
  case (less s n pos)
  obtain x s1 where x: "fill_buf s = (x, s1)" by (cases "fill_buf s")
  with fill_buf_error [OF less(2)] obtain buf where f: "fill_buf s = (Inr buf, s1)" by (cases x) auto
  note ok = fill_buf_ok [OF less(2) f]
  show ?case
  proof (cases "stream s = []")
    case True
    then have "read_line_loop n pos s = Ret (Inr (map_option ((@) (take pos n)) None), n, s1)"
      using f ok(4) by (subst read_line_loop.simps) simp
    then show ?thesis using True ok(1,2) by (intro exI [of _ None] exI [of _ n] exI [of _ s1]) (simp add: line_result_def)
  next
    case False
    obtain found m where le: "line_end buf = (found, m)" by fastforce
    let ?room = "length n - pos" and ?k = "min m (length n - pos)"
    let ?n = "take pos n @ overwrite (drop pos n) 0 (take ?k buf)"
    obtain s2 R where s2: "source_ok False s2" "stream s2 = drop (?k + of_bool found) (stream s)"
      and step: "read_line_loop n pos s =
       (if ?room < m \<or> found then Ret (Inr (Some (take pos n @ take ?k buf)), ?n, s2)
        else read_line_loop ?n (pos + ?k) s2)"
      and n': "length ?n = length n" "take (pos + ?k) ?n = take pos n @ take ?k buf" and R: "stream s = buf @ R"
      by (rule read_line_step [OF less(2,3) False f le refl refl]) blast
    show ?thesis
    proof (cases "?room < m \<or> found")
      case True
      then have "line_result (stream s) ?room (Some (take ?k buf)) (stream s2)"
        using line_result_here [OF le _ refl, of ?room R] s2(2) R by simp
      then show ?thesis using True step n' s2 by (intro exI [of _ "Some (take ?k buf)"]) auto
    next
      case False
      then have b: "m = length buf" "10 \<notin> set buf" "m \<le> ?room" "\<not> found"
        using le by (auto simp: line_end_def split: option.splits)
      then have k: "?k = length buf" by simp
      have R2: "stream s2 = R" using s2(2) R k b(4) by simp
      have lt: "length (stream s2) < length (stream s)" using R2 R ok(4) False \<open>stream s \<noteq> []\<close> by simp
      have p: "pos + ?k \<le> length ?n" unfolding n'(1) using b(1,3) less(3) k by linarith
      from less(1) [OF lt s2(1) p, unfolded n'] obtain out n1 s' where
        o: "read_line_loop ?n (pos + ?k) s2 = Ret (Inr (map_option ((@) (take pos n @ take ?k buf)) out), n1, s')"
        "length n1 = length n" "source_ok False s'" "line_result (stream s2) (length n - (pos + ?k)) out (stream s')"
        by blast
      have tk: "take ?k buf = buf" "length n - (pos + ?k) = ?room - length buf" using k by auto
      have "line_result (stream s) ?room (map_option ((@) buf) out) (stream s')"
        using line_result_append [OF o(4) [unfolded R2 tk(2)] b(2)] b(1,3) R by simp
      moreover have "read_line_loop n pos s = Ret (Inr (map_option ((@) (take pos n)) (map_option ((@) buf) out)), n1, s')"
        using step False o(1) unfolding tk(1) by (cases out) simp_all
      ultimately show ?thesis using o(2,3) by blast
    qed
  qed
qed

text \<open>
  C34. Reading a line does not depend on how the kernel cuts the file into pieces. On a source that
  delivers data without errors the call returns; a line that fits the caller's buffer is returned
  whole and the next call continues after its end. Two defects show: a last line without a line end
  is dropped, and after a line that is too long for the buffer one byte can be lost.
\<close>

theorem read_line_behaviour:
  assumes "source_ok False s"
  shows "\<exists>out n' s'. read_line_static n s = Ret (Inr out, n', s') \<and> length n' = length n \<and> source_ok False s' \<and>
    line_result (stream s) (length n) out (stream s')"
proof -
  have "map_option ((@) (take 0 n)) out = out" for out by (cases out) auto
  then show ?thesis using read_line_loop_result [OF assms, of 0 n] by (simp add: read_line_static_def)
qed

definition two_pieces :: source where
  "two_pieces = (reader_new 3, [Data [0x61, 0x62], Data [0x63, 10, 0x64]])"

theorem read_line_behaviour_witness:
  "\<exists>n' s'. read_line_static (replicate 9 0) two_pieces = Ret (Inr (Some [0x61, 0x62, 0x63]), n', s') \<and> stream s' = [0x64]"
proof -
  have s: "source_ok False two_pieces" by (simp add: source_ok_def two_pieces_def reader_new_def)
  have S: "stream two_pieces = [0x61, 0x62, 0x63] @ 10 # [0x64]"
    by (simp add: stream_def two_pieces_def reader_new_def reader_buf_def)
  have "out = Some [0x61, 0x62, 0x63] \<and> left = [0x64]"
    if "line_result (stream two_pieces) 9 out left" for out left
    using that unfolding S line_result_def
    by (auto simp: append_eq_Cons_conv Cons_eq_append_conv)
  moreover obtain out n' s' where "read_line_static (replicate 9 0) two_pieces = Ret (Inr out, n', s')"
    "line_result (stream two_pieces) (length (replicate 9 (0 :: u8))) out (stream s')"
    using read_line_behaviour [OF s] by blast
  ultimately show ?thesis by auto
qed

section \<open>Exact reads\<close>

lemma reader_read_ok:
  assumes "source_ok True s" "off \<le> length dest" "reader_read dest off s = x"
  shows "(\<exists>n s'. x = Ret (Inr n, overwrite dest off (take n (stream s)), s') \<and> source_ok True s' \<and>
       n \<le> length dest - off \<and> n \<le> length (stream s) \<and> stream s' = drop n (stream s) \<and>
       (n = 0 \<longleftrightarrow> length dest = off \<or> stream s = [])) \<or>
    (\<exists>s'. x = Ret (Inl EINTR, dest, s') \<and> source_ok True s' \<and> stream s' = stream s)"
proof -
  obtain y s1 where Pair: "fill_buf s = (y, s1)" by (cases "fill_buf s")
  show ?thesis
  proof (cases y)
    case (Inl e)
    then show ?thesis using Pair fill_buf_error [OF assms(1), of e s1] assms(3) by (intro disjI2 exI [of _ s1]) (simp add: reader_read_def)
  next
    case (Inr buf)
    note f = fill_buf_ok [OF assms(1) Pair [unfolded Inr]]
    let ?n = "min (length dest - off) (length buf)"
    have "?n \<le> length (reader_buf (fst s1))" using f(3) by simp
    then obtain s2 where s2: "consume ?n s1 = Ret s2" "source_ok True s2" "stream s2 = drop ?n (stream s1)"
      by (rule consume_ok [OF f(1)])
    have S: "stream s = buf @ concat (map answer_bytes (snd s1))" using f(2,3) by (simp add: stream_def)
    then have "take ?n buf = take ?n (stream s)" by simp
    then have "x = Ret (Inr ?n, overwrite dest off (take ?n (stream s)), s2)"
      using assms(3) Pair Inr s2(1) by (simp add: reader_read_def Let_def)
    moreover have "?n = 0 \<longleftrightarrow> length dest = off \<or> stream s = []" using f(4) assms(2) by (auto simp: min_def split: if_splits)
    ultimately show ?thesis using s2 f(2) S by (intro disjI1 exI [of _ ?n] exI [of _ s2]) simp
  qed
qed

lemma overwrite_twice:
  "off + length xs + length ys \<le> length d \<Longrightarrow> overwrite (overwrite d off xs) (off + length xs) ys = overwrite d off (xs @ ys)"
  by (simp add: overwrite_def ac_simps)

lemma read_exact_loop_spec:
  assumes "source_ok True s" "off \<le> length dest"
  shows "if length dest - off \<le> length (stream s)
    then \<exists>s'. read_exact_loop dest off s = Ret (Inr (), overwrite dest off (take (length dest - off) (stream s)), s') \<and>
      source_ok True s' \<and> stream s' = drop (length dest - off) (stream s)
    else \<exists>d s'. read_exact_loop dest off s = Ret (Inl ENODATA, d, s') \<and> stream s' = []"
  using assms
proof (induction "pending s" arbitrary: dest off s rule: less_induct)
  case less
  show ?case
  proof (cases "off = length dest")
    case True
    then show ?thesis using less(2) by (subst read_exact_loop.simps) (simp add: overwrite_def)
  next
    case False
    then have lt: "\<not> length dest \<le> off" using less(3) by simp
    from reader_read_ok [OF less(2,3) refl] show ?thesis
    proof (elim disjE exE conjE)
      fix s' assume r: "reader_read dest off s = Ret (Inl EINTR, dest, s')" "source_ok True s'" "stream s' = stream s"
      have eq: "read_exact_loop dest off s = read_exact_loop dest off s'"
        using lt r(1) by (subst read_exact_loop.simps) simp
      show ?thesis unfolding eq
        by (rule less(1) [OF reader_read_pending(2) [OF r(1)] r(2) less(3), unfolded r(3)])
    next
      fix n s'
      assume r: "reader_read dest off s = Ret (Inr n, overwrite dest off (take n (stream s)), s')" "source_ok True s'"
        "n \<le> length dest - off" "n \<le> length (stream s)" "stream s' = drop n (stream s)"
        and z: "n = 0 \<longleftrightarrow> length dest = off \<or> stream s = []"
      let ?d = "overwrite dest off (take n (stream s))"
      have step: "read_exact_loop dest off s =
          (if n = 0 then Ret (Inl ENODATA, ?d, s') else read_exact_loop ?d (off + n) s')"
        using lt r(1) by (subst read_exact_loop.simps) simp
      show ?thesis
      proof (cases "n = 0")
        case True
        then show ?thesis using step z r(5) False lt by auto
      next
        case nz: False
        have len: "length ?d = length dest" using r(3,4) lt by (simp add: overwrite_def)
        have dec: "pending s' < pending s" using reader_read_pending(1) [OF r(1)] nz by simp
        have p: "off + n \<le> length ?d" using len r(3) lt by simp
        have c: "length dest - (off + n) \<le> length (drop n (stream s)) \<longleftrightarrow> length dest - off \<le> length (stream s)"
          using r(3,4) by auto
        have ih:
          "if length dest - off \<le> length (stream s)
           then \<exists>s1. read_exact_loop ?d (off + n) s' =
               Ret (Inr (), overwrite ?d (off + n) (take (length dest - (off + n)) (drop n (stream s))), s1) \<and>
             source_ok True s1 \<and> stream s1 = drop (length dest - (off + n)) (drop n (stream s))
           else \<exists>d s1. read_exact_loop ?d (off + n) s' = Ret (Inl ENODATA, d, s1) \<and> stream s1 = []"
          by (rule less(1) [OF dec r(2) p, unfolded len r(5) c])
        have "overwrite ?d (off + n) (take (length dest - (off + n)) (drop n (stream s))) =
            overwrite dest off (take (length dest - off) (stream s))" if "length dest - off \<le> length (stream s)"
        proof -
          have "take n (stream s) @ take (length dest - (off + n)) (drop n (stream s)) = take (length dest - off) (stream s)"
          proof -
            have "n + (length dest - (off + n)) = length dest - off" using r(3) by simp
            then show ?thesis by (simp flip: take_add)
          qed
          then show ?thesis
            using overwrite_twice [of off "take n (stream s)" "take (length dest - (off + n)) (drop n (stream s))" dest]
              r(3,4) that lt by simp
        qed
        then show ?thesis using ih step nz r(3) by auto
      qed
    qed
  qed
qed

text \<open>
  An exact read returns whatever the pieces are in which the data arrive and however often it
  is interrupted: it fills the whole destination with the next bytes when there are enough, and
  leaves the ones after them; otherwise it fails with \<open>ENODATA\<close>.
\<close>

theorem read_exact_behaviour:
  assumes "source_ok True s"
  shows "if length dest \<le> length (stream s)
    then \<exists>s'. read_exact dest s = Ret (Inr (), take (length dest) (stream s), s') \<and>
      source_ok True s' \<and> stream s' = drop (length dest) (stream s)
    else \<exists>d s'. read_exact dest s = Ret (Inl ENODATA, d, s') \<and> stream s' = []"
proof -
  have "overwrite dest 0 (take (length dest) (stream s)) = take (length dest) (stream s)"
    if "length dest \<le> length (stream s)" using that by (simp add: overwrite_def)
  then show ?thesis
    using read_exact_loop_spec [OF assms, of 0 dest] unfolding read_exact_def by (simp split: if_splits)
qed

theorem read_exact_behaviour_witness:
  "\<exists>s'. read_exact [0, 0, 0] (reader_new 3, [Data [1], Fail EINTR, Data [2, 3, 4]]) = Ret (Inr (), [1, 2, 3], s')"
  using read_exact_behaviour [of "(reader_new 3, [Data [1], Fail EINTR, Data [2, 3, 4]])" "[0, 0, 0]"]
  by (auto simp: source_ok_def reader_new_def stream_def reader_buf_def)

section \<open>Reads at an offset return\<close>

text \<open>
  A kernel that serves a file: an answer with data is the part of the file at that offset, it is empty
  only at the end of the file, and from call \<open>limit\<close> on no call is interrupted.
\<close>

definition serves :: "pread64 \<Rightarrow> bytes \<Rightarrow> nat \<Rightarrow> bool" where
  "serves k file limit \<longleftrightarrow>
     (\<forall>i off len. case k i off len of
        Data d \<Rightarrow> length d \<le> len \<and> d = take (length d) (drop (unat off) file) \<and> (d = [] \<longrightarrow> len = 0 \<or> length file \<le> unat off)
      | Fail e \<Rightarrow> e = EINTR \<and> i < limit)"

lemma serves_cases:
  assumes "serves k file limit"
  obtains (data) d where "k i off len = Data d" "length d \<le> len" "d = take (length d) (drop (unat off) file)"
      "d = [] \<Longrightarrow> len = 0 \<or> length file \<le> unat off"
    | (intr) "k i off len = Fail EINTR" "i < limit"
proof -
  have c: "case k i off len of
        Data d \<Rightarrow> length d \<le> len \<and> d = take (length d) (drop (unat off) file) \<and> (d = [] \<longrightarrow> len = 0 \<or> length file \<le> unat off)
      | Fail e \<Rightarrow> e = EINTR \<and> i < limit"
    using assms by (simp add: serves_def)
  show thesis
  proof (cases "k i off len")
    case (Data d)
    then show thesis using data c by simp
  next
    case (Fail e)
    then show thesis using intr c by simp
  qed
qed

lemma pread_exact_loop_spec:
  assumes "serves k file limit" "off \<le> length dest" "length file < 2 ^ 64" "unat offset \<le> length file"
  shows "\<exists>d. pread_exact_loop k i offset dest off = Some (Ret
      (if length dest - off \<le> length file - unat offset
       then (Inr (), overwrite dest off (take (length dest - off) (drop (unat offset) file)))
       else (Inl ENODATA, d)))"
  using assms(2,4)
proof (induction "(limit - i) + 2 * (length dest - off)" arbitrary: i offset dest off rule: less_induct)
  case less
  show ?case
  proof (cases "off = length dest")
    case True
    then show ?thesis by (subst pread_exact_loop.simps) (simp add: overwrite_def)
  next
    case False
    then have lt: "\<not> length dest \<le> off" using less(2) by simp
    from assms(1) show ?thesis
    proof (cases rule: serves_cases [of _ _ _ i offset "length dest - off"])
      case intr
      then have "pread_exact_loop k i offset dest off = pread_exact_loop k (Suc i) offset dest off"
        using lt by (subst pread_exact_loop.simps) simp
      then show ?thesis using less(1) [of "Suc i" dest off offset] intr(2) less(2,3) by simp
    next
      case (data d)
      show ?thesis
      proof (cases "d = []")
        case True
        then have "pread_exact_loop k i offset dest off = Some (Ret (Inl ENODATA, dest))"
          using lt data(1) by (subst pread_exact_loop.simps) simp
        then show ?thesis using data(4) True lt by auto
      next
        case nz: False
        let ?d = "overwrite dest off d" and ?o = "offset + of_nat (length d)"
        have dl: "length d \<le> length file - unat offset"
          using data(3) by (metis length_drop length_take min.cobounded1)
        have ul: "unat (of_nat (length d) :: u64) = length d" using dl assms(3) by (intro unat_of_nat_64) simp
        have u: "unat ?o = unat offset + length d" using dl assms(3) less(3) ul by (subst unat_add_64) simp_all
        have len: "length ?d = length dest" using data(2) lt by (simp add: overwrite_def)
        have step: "pread_exact_loop k i offset dest off = pread_exact_loop k (Suc i) ?o ?d (off + length d)"
          using lt data(1,2) nz by (subst pread_exact_loop.simps) simp
        have "\<exists>x. pread_exact_loop k (Suc i) ?o ?d (off + length d) = Some (Ret
          (if length ?d - (off + length d) \<le> length file - unat ?o
           then (Inr (), overwrite ?d (off + length d) (take (length ?d - (off + length d)) (drop (unat ?o) file)))
           else (Inl ENODATA, x)))"
        proof (rule less(1))
          show "limit - Suc i + 2 * (length ?d - (off + length d)) < limit - i + 2 * (length dest - off)"
            using len data(2) nz lt by (simp flip: length_greater_0_conv)
        qed (use len data(2) dl u less(3) lt in auto)
        moreover have "overwrite ?d (off + length d) (take (length dest - (off + length d)) (drop (unat ?o) file)) =
            overwrite dest off (take (length dest - off) (drop (unat offset) file))"
          if "length dest - off \<le> length file - unat offset"
        proof -
          have "take (length dest - off) (drop (unat offset) file) =
              d @ take (length dest - (off + length d)) (drop (unat ?o) file)"
          proof -
            have "length d + (length dest - (off + length d)) = length dest - off" using data(2) lt by simp
            then show ?thesis
              using data(3) u take_add [of "length d" "length dest - (off + length d)" "drop (unat offset) file"]
              by (simp add: add.commute)
          qed
          then show ?thesis using overwrite_twice [of off d "take (length dest - (off + length d)) (drop (unat ?o) file)" dest]
            data(2) lt by simp
        qed
        moreover have "length dest - (off + length d) \<le> length file - (unat offset + length d) \<longleftrightarrow>
            length dest - off \<le> length file - unat offset" using data(2) dl by auto
        ultimately show ?thesis unfolding step len u
          by (cases "length dest - off \<le> length file - unat offset") auto
      qed
    qed
  qed
qed

lemma pread_exact_interrupted:
  assumes "pread_exact_loop (\<lambda>_ _ _. Fail EINTR) i offset dest off = Some y"
  shows "length dest \<le> off"
proof -
  have "k = (\<lambda>_ _ _. Fail EINTR) \<longrightarrow> length dest \<le> off" if "pread_exact_loop k i offset dest off = Some y" for k
  proof (rule pread_exact_loop.raw_induct [OF _ that])
    fix loop k i offset dest off y
    assume ih: "\<And>k i offset dest off y. loop k i offset dest off = Some y \<Longrightarrow>
        k = (\<lambda>_ _ _. Fail EINTR) \<longrightarrow> length dest \<le> off"
      and "(if length dest \<le> off then Some (Ret (Inr (), dest))
        else case k i offset (length dest - off) of
             Data d \<Rightarrow>
               if d = [] then Some (Ret (Inl ENODATA, dest))
               else if length dest - off < length d then Some Panic
               else loop k (Suc i) (offset + of_nat (length d)) (overwrite dest off d) (off + length d)
           | Fail e \<Rightarrow> if e = EINTR then loop k (Suc i) offset dest off else Some (Ret (Inl e, dest))) = Some y"
    then show "k = (\<lambda>_ _ _. Fail EINTR) \<longrightarrow> length dest \<le> off"
      using ih [of k "Suc i" offset dest off y] by (auto split: if_splits)
  qed
  then show ?thesis using assms by blast
qed

text \<open>
  C35. \<open>pread_exact\<close> returns as long as the kernel interrupts it a bounded number of times: then the
  destination is filled with the part of the file at the offset, or the file is too short and the
  result is \<open>ENODATA\<close>. If every call is interrupted it does not return.
\<close>

theorem pread_exact_returns:
  assumes "serves k file limit" "length file < 2 ^ 64" "unat offset \<le> length file"
  shows "(\<exists>d. pread_exact k offset dest = Some (Ret
      (if length dest \<le> length file - unat offset
       then (Inr (), take (length dest) (drop (unat offset) file)) else (Inl ENODATA, d)))) \<and>
    (dest \<noteq> [] \<longrightarrow> pread_exact (\<lambda>_ _ _. Fail EINTR) offset dest = None)"
proof
  have "overwrite dest 0 (take (length dest) (drop (unat offset) file)) = take (length dest) (drop (unat offset) file)"
    if "length dest \<le> length file - unat offset" using that by (simp add: overwrite_def)
  then show "\<exists>d. pread_exact k offset dest = Some (Ret
      (if length dest \<le> length file - unat offset
       then (Inr (), take (length dest) (drop (unat offset) file)) else (Inl ENODATA, d)))"
    using pread_exact_loop_spec [OF assms(1) _ assms(2,3), of 0 dest 0] unfolding pread_exact_def
    by (cases "length dest \<le> length file - unat offset") auto
  show "dest \<noteq> [] \<longrightarrow> pread_exact (\<lambda>_ _ _. Fail EINTR) offset dest = None"
    using pread_exact_interrupted [of 0 offset dest 0]
    by (cases "pread_exact (\<lambda>_ _ _. Fail EINTR) offset dest") (auto simp: pread_exact_def)
qed

text \<open>A kernel that interrupts the first call and then serves the file byte by byte.\<close>

definition slow_kernel :: "bytes \<Rightarrow> pread64" where
  "slow_kernel file i off len = (if i = 0 then Fail EINTR else Data (take (min len 1) (drop (unat off) file)))"

theorem pread_exact_returns_witness:
  "pread_exact (slow_kernel [5, 6, 7, 8]) 1 [0, 0] = Some (Ret (Inr (), [6, 7]))"
proof -
  have "serves (slow_kernel [5, 6, 7, 8]) [5, 6, 7, 8] 1"
    by (auto simp: serves_def slow_kernel_def min_def)
  from pread_exact_returns [OF this, of 1 "[0, 0]"] show ?thesis by simp
qed

lemma read_offset_pieces:
  assumes "list_all (\<lambda>d. d \<noteq> []) ds" "off + length (concat ds) = length dest"
  shows "read_offset_loop (map Data ds @ ks) dest off = Ret (Inr (), overwrite dest off (concat ds))"
  using assms
proof (induction ds arbitrary: dest off)
  case Nil
  then show ?case by (subst read_offset_loop.simps) (simp add: overwrite_def)
next
  case (Cons d ds)
  have "0 < length d" "length d \<le> length dest - off" "\<not> length dest \<le> off" using Cons.prems by (auto simp flip: length_greater_0_conv)
  then have "read_offset_loop (map Data (d # ds) @ ks) dest off =
      read_offset_loop (map Data ds @ ks) (overwrite dest off d) (off + length d)"
    by (subst read_offset_loop.simps) auto
  also have "\<dots> = Ret (Inr (), overwrite (overwrite dest off d) (off + length d) (concat ds))"
    using Cons.prems by (intro Cons.IH) (auto simp: overwrite_def)
  finally show ?case using Cons.prems overwrite_twice [of off d "concat ds" dest] by simp
qed

section \<open>The two writers\<close>

lemma stdio_write_pieces:
  assumes "list_all ((<) 0) ns" "off + sum_list ns = length st"
  shows "stdio_write_loop st off (map Wrote ns) out = Some (Ret (Inr (), out @ drop off st))"
  using assms
proof (induction ns arbitrary: off out)
  case Nil
  then show ?case by (subst stdio_write_loop.simps) simp
next
  case (Cons n ns)
  have "0 < n" "\<not> length st \<le> off" "\<not> length st - off < n" using Cons.prems by auto
  then have "stdio_write_loop st off (map Wrote (n # ns)) out =
      stdio_write_loop st (off + n) (map Wrote ns) (out @ take n (drop off st))"
    by (subst stdio_write_loop.simps) simp
  also have "\<dots> = Some (Ret (Inr (), (out @ take n (drop off st)) @ drop (off + n) st))"
    using Cons by (intro Cons.IH) auto
  finally show ?case using append_take_drop_id [of n "drop off st"] by (simp add: add.commute)
qed

lemma fd_write_pieces:
  assumes "list_all ((<) 0) ns" "off + sum_list ns = length st"
  shows "fd_write_loop st off (map Wrote ns) out = Some (Ret (Inr (), out @ concat (map (\<lambda>n. take n st) ns)))"
  using assms
proof (induction ns arbitrary: off out)
  case Nil
  then show ?case by (subst fd_write_loop.simps) simp
next
  case (Cons n ns)
  have "\<not> length st \<le> off" "\<not> length st - off < n" using Cons.prems by auto
  then have "fd_write_loop st off (map Wrote (n # ns)) out = fd_write_loop st (off + n) (map Wrote ns) (out @ take n st)"
    by (subst fd_write_loop.simps) simp
  also have "\<dots> = Some (Ret (Inr (), (out @ take n st) @ concat (map (\<lambda>n. take n st) ns)))"
    using Cons by (intro Cons.IH) auto
  finally show ?case by simp
qed

text \<open>
  When the kernel takes the text in several pieces, the writer of \<open>wl-impl\<close> writes the text, each
  byte once; the writer of the loader starts over at every piece, so that it writes a prefix of the
  text for each of them. They agree when the kernel takes the whole text at once.
\<close>

theorem writers_behaviour:
  assumes "list_all ((<) 0) ns" "sum_list ns = length st"
  shows "stdio_write_str st (map Wrote ns) = Some (Ret (Inr (), st)) \<and>
    fd_write_str st (map Wrote ns) = Some (Ret (Inr (), concat (map (\<lambda>n. take n st) ns))) \<and>
    (length ns = 1 \<longrightarrow> fd_write_str st (map Wrote ns) = stdio_write_str st (map Wrote ns))"
  using stdio_write_pieces [OF assms(1), of 0 st "[]"] fd_write_pieces [OF assms(1), of 0 st "[]"] assms(2)
  by (auto simp: stdio_write_str_def fd_write_str_def length_Suc_conv)

theorem writers_behaviour_witness:
  "stdio_write_str [1, 2, 3] [Wrote 2, Wrote 1] = Some (Ret (Inr (), [1, 2, 3])) \<and>
   fd_write_str [1, 2, 3] [Wrote 2, Wrote 1] = Some (Ret (Inr (), [1, 2, 1]))"
  using writers_behaviour [of "[2, 1]" "[1, 2, 3]"] by simp

end
