(* ===== verification/WL_Print.thy ===== *)
theory WL_Print
  imports WL_Io
begin

text \<open>
  Printed messages: the macros of \<open>wl-impl/src/ministd.rs\<close> and \<open>wl-ld-lilium/src/lib.rs\<close> on top of the writers in \<open>WL_Io\<close>. All
  of them unwrap the result, so a message that cannot be written panics.
\<close>

section \<open>Formatting\<close>

text \<open>A string literal as bytes.\<close>

definition lit :: "string \<Rightarrow> bytes" where
  "lit s = map of_char s"

lemma lit_Nil [simp]: "lit s = [] \<longleftrightarrow> s = []"
  by (simp add: lit_def)

text \<open>
  A format string is a sequence of literal pieces and arguments; an argument is what its formatting writes, text by text. The variant
  that ends the line appends to the last literal piece.
\<close>

datatype piece = Lit string | Arg "bytes list"

definition newline :: bytes where "newline = [0x0A]"

fun piece_texts :: "piece \<Rightarrow> bytes list" where
  "piece_texts (Lit s) = [lit s]"
| "piece_texts (Arg ts) = ts"

fun format_args :: "piece list \<Rightarrow> bytes list" where
  "format_args ps = concat (map piece_texts ps)"

fun format_args_nl :: "piece list \<Rightarrow> bytes list" where
  "format_args_nl [] = [newline]"
| "format_args_nl [Lit s] = [lit s @ newline]"
| "format_args_nl (p # ps) = piece_texts p @ format_args_nl ps"

section \<open>The macros\<close>

text \<open>
  Each text is handed to \<open>write_str\<close>; \<open>k i\<close> are the kernel's answers to the
  writes of the \<open>i\<close>-th. The first error ends the message.
\<close>

type_synonym answers = "nat \<Rightarrow> write_answer list"
type_synonym write_str = "bytes \<Rightarrow> write_answer list \<Rightarrow> ((unit + unit) \<times> bytes) run option"

fun write_fmt :: "write_str \<Rightarrow> answers \<Rightarrow> nat \<Rightarrow> bytes list \<Rightarrow> bytes \<Rightarrow> ((unit + unit) \<times> bytes) run option" where
  "write_fmt w k i [] out = Some (Ret (Inr (), out))"
| "write_fmt w k i (t # ts) out =
     (case w t (k i) of
        None \<Rightarrow> None
      | Some Panic \<Rightarrow> Some Panic
      | Some (Ret (Inl u, out')) \<Rightarrow> Some (Ret (Inl (), out @ out'))
      | Some (Ret (Inr u, out')) \<Rightarrow> write_fmt w k (Suc i) ts (out @ out'))"

definition print_unwrap :: "write_str \<Rightarrow> answers \<Rightarrow> bytes list \<Rightarrow> bytes run option" where
  "print_unwrap w k ts =
     (case write_fmt w k 0 ts [] of
        None \<Rightarrow> None
      | Some Panic \<Rightarrow> Some Panic
      | Some (Ret (Inl u, out)) \<Rightarrow> Some Panic
      | Some (Ret (Inr u, out)) \<Rightarrow> Some (Ret out))"

text \<open>\<open>k fd\<close> are the answers for the descriptor the macro writes to: standard output is 1, standard error 2.\<close>

definition stdout :: u32 where "stdout = 1"
definition stderr :: u32 where "stderr = 2"

definition println :: "(u32 \<Rightarrow> answers) \<Rightarrow> piece list \<Rightarrow> bytes run option" where
  "println k ps = print_unwrap stdio_write_str (k stdout) (format_args_nl ps)"

definition print :: "(u32 \<Rightarrow> answers) \<Rightarrow> piece list \<Rightarrow> bytes run option" where
  "print k ps = print_unwrap stdio_write_str (k stdout) (format_args ps)"

definition eprintln :: "(u32 \<Rightarrow> answers) \<Rightarrow> piece list \<Rightarrow> bytes run option" where
  "eprintln k ps = print_unwrap stdio_write_str (k stderr) (format_args_nl ps)"

definition eprint :: "(u32 \<Rightarrow> answers) \<Rightarrow> piece list \<Rightarrow> bytes run option" where
  "eprint k ps = print_unwrap stdio_write_str (k stderr) (format_args ps)"

definition ld_println :: "(u32 \<Rightarrow> answers) \<Rightarrow> piece list \<Rightarrow> bytes run option" where
  "ld_println k ps = print_unwrap fd_write_str (k stdout) (format_args_nl ps)"

definition ld_eprintln :: "(u32 \<Rightarrow> answers) \<Rightarrow> piece list \<Rightarrow> bytes run option" where
  "ld_eprintln k ps = print_unwrap fd_write_str (k stderr) (format_args_nl ps)"

section \<open>Descriptors that take a message and that refuse it\<close>

text \<open>
  \<open>takes\<close>: the texts of a message are taken, each in pieces of the kernel's choice. The loader's writer starts over after a short
  write, so for its messages \<open>takes_whole\<close> asks for every text at once. \<open>refuses\<close>: every write fails.
\<close>

definition takes :: "answers \<Rightarrow> bytes list \<Rightarrow> bool" where
  "takes k ts \<longleftrightarrow> (\<forall>i < length ts. \<exists>ns. k i = map Wrote ns \<and> list_all ((<) 0) ns \<and> sum_list ns = length (ts ! i))"

definition takes_whole :: "answers \<Rightarrow> bytes list \<Rightarrow> bool" where
  "takes_whole k ts \<longleftrightarrow> (\<forall>i < length ts. ts ! i \<noteq> [] \<longrightarrow> (\<exists>ws. k i = Wrote (length (ts ! i)) # ws))"

definition refuses :: "answers \<Rightarrow> bool" where
  "refuses k \<longleftrightarrow> (\<forall>i. \<exists>ws. k i = WriteFailed # ws)"

lemma takes_shift: "takes k (t # ts) \<Longrightarrow> takes (\<lambda>i. k (Suc i)) ts"
  unfolding takes_def by (metis Suc_less_eq length_Cons nth_Cons_Suc)

lemma takes_whole_shift: "takes_whole k (t # ts) \<Longrightarrow> takes_whole (\<lambda>i. k (Suc i)) ts"
  unfolding takes_whole_def by (metis Suc_less_eq length_Cons nth_Cons_Suc)

lemma write_fmt_shift: "write_fmt w k (Suc i) ts out = write_fmt w (\<lambda>i. k (Suc i)) i ts out"
  by (induction ts arbitrary: i out) (auto split: option.split run.split sum.split)

lemma write_fmt_takes: "takes k ts \<Longrightarrow> write_fmt stdio_write_str k 0 ts out = Some (Ret (Inr (), out @ concat ts))"
proof (induction ts arbitrary: k out)
  case (Cons t ts)
  then obtain ns where "k 0 = map Wrote ns" "list_all ((<) 0) ns" "sum_list ns = length t"
    by (auto simp: takes_def)
  then have "stdio_write_str t (k 0) = Some (Ret (Inr (), t))"
    using stdio_write_pieces [of ns 0 t "[]"] by (simp add: stdio_write_str_def)
  then show ?case using Cons.IH [OF takes_shift [OF Cons.prems]] by (simp add: write_fmt_shift)
qed simp

lemma fd_write_whole: "t \<noteq> [] \<Longrightarrow> fd_write_str t (Wrote (length t) # ws) = Some (Ret (Inr (), t))"
  "fd_write_str [] ws = Some (Ret (Inr (), []))"
  by (simp_all add: fd_write_str_def fd_write_loop.simps)

lemma write_fmt_takes_whole: "takes_whole k ts \<Longrightarrow> write_fmt fd_write_str k 0 ts out = Some (Ret (Inr (), out @ concat ts))"
proof (induction ts arbitrary: k out)
  case (Cons t ts)
  have "fd_write_str t (k 0) = Some (Ret (Inr (), t))"
  proof (cases "t = []")
    case False
    then obtain ws where "k 0 = Wrote (length t) # ws" using Cons.prems by (auto simp: takes_whole_def)
    then show ?thesis using False by (simp add: fd_write_whole)
  qed (simp add: fd_write_whole)
  then show ?case using Cons.IH [OF takes_whole_shift [OF Cons.prems]] by (simp add: write_fmt_shift)
qed simp

lemma eprintln_takes: "takes (k stderr) (format_args_nl ps) \<Longrightarrow> eprintln k ps = Some (Ret (concat (format_args_nl ps)))"
  using write_fmt_takes [of "k stderr" "format_args_nl ps" "[]"] by (simp add: eprintln_def print_unwrap_def)

lemma ld_print_takes:
  "takes_whole (k stdout) (format_args_nl ps) \<Longrightarrow> ld_println k ps = Some (Ret (concat (format_args_nl ps)))"
  "takes_whole (k stderr) (format_args_nl ps) \<Longrightarrow> ld_eprintln k ps = Some (Ret (concat (format_args_nl ps)))"
  using write_fmt_takes_whole [of "k stdout" "format_args_nl ps" "[]"] write_fmt_takes_whole [of "k stderr" "format_args_nl ps" "[]"]
  by (simp_all add: ld_println_def ld_eprintln_def print_unwrap_def)

lemma write_refused:
  assumes "t \<noteq> []"
  shows "stdio_write_str t (WriteFailed # ws) = Some (Ret (Inl (), []))" "fd_write_str t (WriteFailed # ws) = Some (Ret (Inl (), []))"
  using assms unfolding stdio_write_str_def fd_write_str_def by (subst stdio_write_loop.simps fd_write_loop.simps, simp)+

text \<open>A message that begins with a literal piece is lost when its first write is refused.\<close>

lemma format_args_nl_first: "s \<noteq> [] \<Longrightarrow> \<exists>t ts. format_args_nl (Lit s # ps) = t # ts \<and> t \<noteq> []"
  by (cases ps) simp_all

lemma print_refused:
  assumes "refuses (k fd)" "s \<noteq> []"
  shows "fd = stderr \<Longrightarrow> eprintln k (Lit s # ps) = Some Panic"
    "fd = stderr \<Longrightarrow> ld_eprintln k (Lit s # ps) = Some Panic" "fd = stdout \<Longrightarrow> ld_println k (Lit s # ps) = Some Panic"
proof -
  obtain ws where w: "k fd 0 = WriteFailed # ws" using assms(1) by (auto simp: refuses_def)
  obtain t ts where t: "format_args_nl (Lit s # ps) = t # ts" "t \<noteq> []" using format_args_nl_first [OF assms(2)] by blast
  show "fd = stderr \<Longrightarrow> eprintln k (Lit s # ps) = Some Panic"
    "fd = stderr \<Longrightarrow> ld_eprintln k (Lit s # ps) = Some Panic" "fd = stdout \<Longrightarrow> ld_println k (Lit s # ps) = Some Panic"
    using w t unfolding eprintln_def ld_eprintln_def ld_println_def t(1) by (simp_all add: print_unwrap_def write_refused)
qed

text \<open>Answers that take every text at once.\<close>

definition at_once :: "bytes list \<Rightarrow> answers" where
  "at_once ts i = (if i < length ts \<and> ts ! i \<noteq> [] then [Wrote (length (ts ! i))] else [])"

lemma takes_at_once: "takes (at_once ts) ts" "takes_whole (at_once ts) ts"
proof -
  have "\<exists>ns. at_once ts i = map Wrote ns \<and> list_all ((<) 0) ns \<and> sum_list ns = length (ts ! i)" if "i < length ts" for i
    using that by (cases "ts ! i = []") (auto simp: at_once_def intro: exI [of _ "[length (ts ! i)]"])
  then show "takes (at_once ts) ts" by (simp add: takes_def)
  show "takes_whole (at_once ts) ts" by (simp add: takes_whole_def at_once_def)
qed

end
