(* ===== verification/WL_Process.thy ===== *)
theory WL_Process
  imports WL_Handles WL_Print
begin

text \<open>
  The system calls on handles: reading and writing (\<open>wl-usi-io/src/basic.rs\<close>), opening a file
  (\<open>wl-usi-io/src/fs.rs\<close>), creating and joining a process (\<open>wl-usi-process/src/proc.rs\<close>). What the
  kernel answers is a parameter of each operation, and so are the constants of the two system
  interfaces and the debug texts of foreign types. An operation that can panic returns a \<open>run\<close>; an operation on the handle table returns
  the new table.
\<close>

record io_abi =
  HANDLE_TYPE_IO :: usize
  HANDLE_SUBTYPE_IO_FILE :: usize
  HANDLE_TYPE_PROC :: usize
  OP_NO_ACCESS :: u32
  OP_ACL_ACCESS :: u32
  OP_DIRECTORY_ACCESS :: u32
  ACCESS_READ :: u32
  ACCESS_WRITE :: u32
  ACCESS_CREATE :: u32
  ACCESS_CREATE_EXCLUSIVE :: u32
  ACCESS_LINK_STREAM_DIRECT :: u32
  ACCESS_TRUNCATE :: u32
  ACCESS_START_END :: u32
  O_CLOEXEC :: u32
  O_PATH :: u32
  O_RDWR :: u32
  O_RDONLY :: u32
  O_WRONLY :: u32
  O_CREATE :: u32
  O_EXCL :: u32
  O_NOFOLLOW :: u32
  O_TRUNC :: u32
  O_APPEND :: u32
  O_DIRECTORY :: u32
  OPTION_FLAG_IGNORE :: u32

definition map_err :: "errno + 'a \<Rightarrow> sys_error + 'a" where
  "map_err r = (case r of Inl e \<Rightarrow> Inl (linux_error_to_lilium e) | Inr v \<Rightarrow> Inr v)"

section \<open>Reading and writing\<close>

definition io_fd :: "io_abi \<Rightarrow> u64 \<Rightarrow> u64 \<Rightarrow> handles \<Rightarrow> (sys_error + u32) run" where
  "io_fd A base hdl t =
     (case try_deref base hdl t of
        Inl e \<Rightarrow> Ret (Inl e)
      | Inr n \<Rightarrow>
          (case check_type (handle_array t ! n) (HANDLE_TYPE_IO A) 0xF0000000 of
             Inl e \<Rightarrow> Ret (Inl e)
           | Inr u \<Rightarrow>
               (case borrow_fd (handle_array t ! n) of
                  None \<Rightarrow> Panic
                | Some fd \<Rightarrow> Ret (Inr fd))))"

definition IOWrite ::
    "io_abi \<Rightarrow> (u32 \<Rightarrow> u64 \<Rightarrow> usize \<Rightarrow> errno + usize) \<Rightarrow> u64 \<Rightarrow> u64 \<Rightarrow> u64 \<Rightarrow> usize \<Rightarrow> handles \<Rightarrow> (sys_error + usize) run" where
  "IOWrite A k_write base hdl buf len t =
     run_bind (io_fd A base hdl t) (\<lambda>r.
       case r of Inl e \<Rightarrow> Ret (Inl e) | Inr fd \<Rightarrow> Ret (map_err (k_write fd buf len)))"

definition IORead ::
    "io_abi \<Rightarrow> (u32 \<Rightarrow> u64 \<Rightarrow> usize \<Rightarrow> errno + usize) \<Rightarrow> u64 \<Rightarrow> u64 \<Rightarrow> u64 \<Rightarrow> usize \<Rightarrow> handles \<Rightarrow> (sys_error + usize) run" where
  "IORead A k_read base hdl buf len t =
     run_bind (io_fd A base hdl t) (\<lambda>r.
       case r of Inl e \<Rightarrow> Ret (Inl e) | Inr fd \<Rightarrow> Ret (map_err (k_read fd buf len)))"

section \<open>Opening a file\<close>

definition open_flags :: "io_abi \<Rightarrow> u32 \<Rightarrow> u32 \<Rightarrow> u32" where
  "open_flags A op_mode access_mode =
     (let f = O_CLOEXEC A;
          f = (if op_mode = OP_NO_ACCESS A \<or> op_mode = OP_ACL_ACCESS A then f OR O_PATH A
               else if access_mode AND (ACCESS_READ A OR ACCESS_WRITE A) = (ACCESS_READ A OR ACCESS_WRITE A)
                 then f OR O_RDWR A
               else if access_mode AND ACCESS_READ A \<noteq> 0 then f OR O_RDONLY A
               else if access_mode AND ACCESS_WRITE A \<noteq> 0 then f OR O_WRONLY A
               else f);
          f = (if access_mode AND ACCESS_CREATE A \<noteq> 0 then f OR O_CREATE A else f);
          f = (if access_mode AND ACCESS_CREATE_EXCLUSIVE A \<noteq> 0 then f OR O_EXCL A else f);
          f = (if access_mode AND ACCESS_LINK_STREAM_DIRECT A \<noteq> 0 then f OR O_NOFOLLOW A else f);
          f = (if access_mode AND ACCESS_TRUNCATE A \<noteq> 0 then f OR O_TRUNC A else f);
          f = (if access_mode AND ACCESS_START_END A \<noteq> 0 then f OR O_APPEND A else f)
      in if op_mode = OP_DIRECTORY_ACCESS A then f OR O_DIRECTORY A else f)"

datatype dirfd = Cwd | Dirfd u32

text \<open>The directory a path is resolved in; \<open>CString::new\<close> refuses a string with a NUL byte.\<close>

definition file_fd :: "io_abi \<Rightarrow> u64 \<Rightarrow> u64 \<Rightarrow> handles \<Rightarrow> sys_error + u32" where
  "file_fd A base hdl t =
     and_then (try_deref base hdl t) (\<lambda>n.
     and_then (check_type (handle_array t ! n) (HANDLE_SUBTYPE_IO_FILE A) 0) (\<lambda>_.
       case borrow_fd (handle_array t ! n) of None \<Rightarrow> Inl UnsupportedOperation | Some fd \<Rightarrow> Inr fd))"

definition cstring :: "sys_error \<Rightarrow> bytes \<Rightarrow> sys_error + bytes" where
  "cstring e s = (if 0 \<in> set s then Inl e else Inr s)"

definition fd_handle :: "usize \<Rightarrow> u32 \<Rightarrow> handle" where
  "fd_handle ty fd = \<lparr>h_ty = ty, blob1 = 0, blob2 = 0, h_fd = scast fd\<rparr>"

definition open_dir :: "io_abi \<Rightarrow> u64 \<Rightarrow> u64 \<Rightarrow> handles \<Rightarrow> sys_error + dirfd" where
  "open_dir A base resolution_base t =
     (if resolution_base = 0 then Inr Cwd else and_then (file_fd A base resolution_base t) (\<lambda>fd. Inr (Dirfd fd)))"

text \<open>
  Before the file is opened the call prints what it is about to do; the line is unwrapped like every other. The debug texts of the
  directory, the path and the flags are those of their types.
\<close>

record debug_texts =
  show_dir :: "dirfd \<Rightarrow> bytes list"
  show_path :: "bytes \<Rightarrow> bytes list"
  show_flags :: "u32 \<Rightarrow> bytes list"

definition openat_text :: "debug_texts \<Rightarrow> dirfd \<Rightarrow> bytes \<Rightarrow> u32 \<Rightarrow> piece list" where
  "openat_text D dirfd path oflags =
     [Lit ''openat('', Arg (show_dir D dirfd), Lit '', '', Arg (show_path D path), Lit '', '', Arg (show_flags D oflags), Lit '')'']"

definition OpenFile ::
    "io_abi \<Rightarrow> debug_texts \<Rightarrow> (u32 \<Rightarrow> answers) \<Rightarrow> (dirfd \<Rightarrow> bytes \<Rightarrow> u32 \<Rightarrow> u32 \<Rightarrow> errno + u32) \<Rightarrow> u64 \<Rightarrow> u64 \<Rightarrow> bytes \<Rightarrow> u32 \<Rightarrow> u32 \<Rightarrow>
     handles \<Rightarrow> ((sys_error + u64) \<times> handles) run option" where
  "OpenFile A D k openat base resolution_base path op_mode access_mode t =
     (case open_dir A base resolution_base t of
        Inl e \<Rightarrow> Some (Ret (Inl e, t))
      | Inr dirfd \<Rightarrow>
          let oflags = open_flags A op_mode access_mode in
          (case cstring (ErrorCode (- 0x801)) path of
             Inl e \<Rightarrow> Some (Ret (Inl e, t))
           | Inr cpath \<Rightarrow>
               (case eprintln k (openat_text D dirfd cpath oflags) of
                  None \<Rightarrow> None
                | Some Panic \<Rightarrow> Some Panic
                | Some (Ret out) \<Rightarrow>
                    (case map_err (openat dirfd cpath oflags 438) of
                       Inl e \<Rightarrow> Some (Ret (Inl e, t))
                     | Inr fd \<Rightarrow> Some (Ret (insert_handle base (fd_handle (HANDLE_SUBTYPE_IO_FILE A) fd) t))))))"

section \<open>Creating a process\<close>

datatype process_option = ArgsOption "bytes list" | OtherOption u32

fun push_args :: "bytes list \<Rightarrow> bytes list \<Rightarrow> sys_error + bytes list" where
  "push_args [] args = Inr args"
| "push_args (a # as) args = and_then (cstring InvalidString a) (\<lambda>c. push_args as (args @ [c]))"

fun collect_args :: "io_abi \<Rightarrow> process_option list \<Rightarrow> bytes list \<times> bool \<Rightarrow> sys_error + (bytes list \<times> bool)" where
  "collect_args A [] st = Inr st"
| "collect_args A (ArgsOption as # opts) st =
     and_then (push_args as (fst st)) (\<lambda>args. collect_args A opts (args, True))"
| "collect_args A (OtherOption flags # opts) st =
     (if flags AND OPTION_FLAG_IGNORE A = 0 then Inl InvalidOption else collect_args A opts st)"

fun decimal :: "nat \<Rightarrow> bytes" where
  "decimal n = (if n < 10 then [of_nat (48 + n)] else decimal (n div 10) @ [of_nat (48 + n mod 10)])"

definition ascii :: "string \<Rightarrow> bytes" where
  "ascii s = map (\<lambda>c. of_nat (of_char c)) s"

definition exec_path_of :: "io_abi \<Rightarrow> u64 \<Rightarrow> u64 \<Rightarrow> bytes \<Rightarrow> handles \<Rightarrow> sys_error + bytes" where
  "exec_path_of A base resolution_base path t =
     (if resolution_base = 0 \<or> (path \<noteq> [] \<and> hd path = 0x2F) then Inr path
      else and_then (file_fd A base resolution_base t) (\<lambda>fd.
        Inr (ascii ''/proc/self/fd/'' @ decimal (unat fd) @ ascii ''/'' @ path)))"

text \<open>
  The child sends a descriptor of itself through the socket, then becomes the new program. When a
  step fails it writes the error number to the socket and exits.
\<close>

datatype child_act = SendFd u32 | WriteErrno u16 | Exec bytes "bytes list" | Exit

record child_env =
  c_pidfd_open :: "u16 + u32"
  c_push :: bool
  c_sendmsg :: "u16 + unit"
  c_execve :: "bytes \<Rightarrow> bytes list \<Rightarrow> u16 option"

definition child_run :: "u16 \<Rightarrow> child_env \<Rightarrow> bytes \<Rightarrow> bytes list \<Rightarrow> child_act list" where
  "child_run einval C exec_path argv =
     (case c_pidfd_open C of
        Inl e \<Rightarrow> [WriteErrno e, Exit]
      | Inr fd \<Rightarrow>
          if \<not> c_push C then [WriteErrno einval, Exit]
          else (case c_sendmsg C of
              Inl e \<Rightarrow> [WriteErrno e, Exit]
            | Inr u \<Rightarrow>
                (case c_execve C exec_path argv of
                   None \<Rightarrow> [SendFd fd, Exec exec_path argv]
                 | Some e \<Rightarrow> [SendFd fd, WriteErrno e, Exit])))"

text \<open>
  What the parent receives: the descriptors of a rights message or another message or none, then the
  count of bytes read with the number they hold. \<open>errno_new\<close> is \<open>linux_errno::Error::new\<close>.
\<close>

datatype recv_msg = Rights "u32 list" | NoRights

record parent_env =
  p_recvmsg :: "errno + recv_msg"
  p_read :: "errno + (nat \<times> u16)"
  errno_new :: "u16 \<Rightarrow> errno option"

datatype parent_act = CloseFd u32 | WaitPid u32 | WaitPidFd u32

definition parent_run ::
    "parent_env \<Rightarrow> nat \<Rightarrow> u64 \<Rightarrow> u32 \<Rightarrow> handles \<Rightarrow> ((sys_error + u64) \<times> handles \<times> parent_act list) run" where
  "parent_run P n ptr pid t =
     (let fail = (\<lambda>wait e t. case handle_close False n t of (fds, t') \<Rightarrow> Ret (Inl e, t', map CloseFd fds @ [wait])) in
      case p_recvmsg P of
        Inl e \<Rightarrow> fail (WaitPid pid) (linux_error_to_lilium e) t
      | Inr NoRights \<Rightarrow> fail (WaitPid pid) (ErrorCode (- 0x802)) t
      | Inr (Rights []) \<Rightarrow> Panic
      | Inr (Rights (fd # _)) \<Rightarrow>
          let h = (handle_array t ! n)\<lparr>h_fd := scast fd, blob2 := scast pid\<rparr>;
              t = t\<lparr>handle_array := (handle_array t)[n := h]\<rparr>
          in (case p_read P of
                Inr (c, num) \<Rightarrow>
                  if 1 \<le> c
                  then fail (WaitPidFd fd) (case errno_new P num of None \<Rightarrow> ResourceLimitExhausted | Some e \<Rightarrow> linux_error_to_lilium e) t
                  else Ret (Inr ptr, t, [])
              | Inl e \<Rightarrow> Ret (Inr ptr, t, [])))"

datatype fork_result = ForkFailed errno | InChild | InParent u32

datatype process_result =
    Child "child_act list"
  | Parent "sys_error + u64" handles "parent_act list"

definition proc_handle :: "usize \<Rightarrow> handle" where
  "proc_handle ty = \<lparr>h_ty = ty, blob1 = 0, blob2 = 0, h_fd = - 1\<rparr>"

text \<open>Everything before the system calls: the path and the argument vector.\<close>

definition process_args :: "io_abi \<Rightarrow> u64 \<Rightarrow> u64 \<Rightarrow> bytes \<Rightarrow> process_option list \<Rightarrow> handles \<Rightarrow> sys_error + (bytes \<times> bytes list)" where
  "process_args A base resolution_base path options t =
     and_then (exec_path_of A base resolution_base path t) (\<lambda>ep.
     and_then (cstring InvalidString ep) (\<lambda>exec_path.
     and_then (collect_args A options ([], False)) (\<lambda>(args, args_specified).
       Inr (exec_path, if args_specified then args else args @ [path]))))"

definition CreateProcess ::
    "io_abi \<Rightarrow> u16 \<Rightarrow> bool \<Rightarrow> fork_result \<Rightarrow> child_env \<Rightarrow> parent_env \<Rightarrow> u64 \<Rightarrow> u64 \<Rightarrow> bytes \<Rightarrow> process_option list \<Rightarrow>
     handles \<Rightarrow> process_result run" where
  "CreateProcess A einval socketpair_ok fork C P base resolution_base path options t =
     (case process_args A base resolution_base path options t of
        Inl e \<Rightarrow> Ret (Parent (Inl e) t [])
      | Inr (exec_path, argv) \<Rightarrow>
          if \<not> socketpair_ok then Panic
          else (case insert_handle base (proc_handle (HANDLE_TYPE_PROC A)) t of
              (Inl e, t) \<Rightarrow> Ret (Parent (Inl e) t [])
            | (Inr ptr, t) \<Rightarrow>
                (case fork of
                   InChild \<Rightarrow> Ret (Child (child_run einval C exec_path argv))
                 | InParent pid \<Rightarrow>
                     run_bind (parent_run P (deref_unchecked base ptr) ptr pid t) (\<lambda>(r, t, acts). Ret (Parent r t acts))
                 | ForkFailed e \<Rightarrow> Ret (Parent (Inl (linux_error_to_lilium e)) t []))))"

section \<open>Joining a process\<close>

record wait_status =
  terminating_signal :: "signal option"
  exit_status :: "u32 option"

datatype join_status = ExitException exception_id | ExitUnknown | ExitCode u64

definition join_status_of :: "wait_status \<Rightarrow> join_status run" where
  "join_status_of s =
     (case terminating_signal s of
        Some sig \<Rightarrow> (case sig_to_except sig of Some e \<Rightarrow> Ret (ExitException e) | None \<Rightarrow> Ret ExitUnknown)
      | None \<Rightarrow> (case exit_status s of Some c \<Rightarrow> Ret (ExitCode (scast c)) | None \<Rightarrow> Panic))"

definition JoinProcess ::
    "io_abi \<Rightarrow> (u32 \<Rightarrow> errno + wait_status option) \<Rightarrow> u64 \<Rightarrow> u64 \<Rightarrow> handles \<Rightarrow>
     ((sys_error + join_status) \<times> handles \<times> parent_act list) run" where
  "JoinProcess A waitid base hdl t =
     (case try_deref base hdl t of
        Inl e \<Rightarrow> Ret (Inl e, t, [])
      | Inr n \<Rightarrow>
          (case check_type (handle_array t ! n) (HANDLE_TYPE_PROC A) 0 of
             Inl e \<Rightarrow> Ret (Inl e, t, [])
           | Inr u \<Rightarrow>
               (case borrow_fd (handle_array t ! n) of
                  None \<Rightarrow> Panic
                | Some fd \<Rightarrow>
                    (case waitid fd of
                       Inl e \<Rightarrow> Ret (Inl (linux_error_to_lilium e), t, [WaitPidFd fd])
                     | Inr None \<Rightarrow> Panic
                     | Inr (Some s) \<Rightarrow>
                         (case handle_close False n t of
                            (fds, t') \<Rightarrow>
                              run_bind (join_status_of s) (\<lambda>js. Ret (Inr js, t', WaitPidFd fd # map CloseFd fds)))))))"

section \<open>The calls on the abstract handle map\<close>

lemma try_deref_map:
  assumes "base_ok base"
  shows "case_sum f (\<lambda>n. g (handle_array t ! n)) (try_deref base p t) =
    (case handle_map base t p of None \<Rightarrow> f InvalidHandle | Some h \<Rightarrow> g h)"
  using try_deref_error [of base p t] by (auto simp: handle_map_def split: sum.splits)

definition io_fd_abs :: "io_abi \<Rightarrow> handle option \<Rightarrow> (sys_error + u32) run" where
  "io_fd_abs A h =
     (case h of
        None \<Rightarrow> Ret (Inl InvalidHandle)
      | Some h \<Rightarrow> (case check_type h (HANDLE_TYPE_IO A) 0xF0000000 of
          Inl e \<Rightarrow> Ret (Inl e)
        | Inr u \<Rightarrow> (case borrow_fd h of None \<Rightarrow> Panic | Some fd \<Rightarrow> Ret (Inr fd))))"

lemma io_fd_map: "base_ok base \<Longrightarrow> io_fd A base p t = io_fd_abs A (handle_map base t p)"
  unfolding io_fd_def io_fd_abs_def by (rule try_deref_map)

definition file_fd_abs :: "io_abi \<Rightarrow> handle option \<Rightarrow> sys_error + u32" where
  "file_fd_abs A h =
     (case h of
        None \<Rightarrow> Inl InvalidHandle
      | Some h \<Rightarrow> and_then (check_type h (HANDLE_SUBTYPE_IO_FILE A) 0) (\<lambda>_.
          case borrow_fd h of None \<Rightarrow> Inl UnsupportedOperation | Some fd \<Rightarrow> Inr fd))"

lemma file_fd_map: "base_ok base \<Longrightarrow> file_fd A base p t = file_fd_abs A (handle_map base t p)"
  using try_deref_error [of base p t]
  by (cases "try_deref base p t") (simp_all add: file_fd_def file_fd_abs_def handle_map_def)

lemma fd_roundtrip:
  assumes "0 \<le> sint (fd :: u32)"
  shows "borrow_fd (h\<lparr>h_fd := scast fd\<rparr>) = Some fd" "closed_fds False (h\<lparr>h_fd := scast fd\<rparr>) = [fd]"
proof -
  have s: "sint (scast fd :: u64) = sint fd"
    using assms sint_lt [of fd] by (simp add: signed_scast_eq signed_take_bit_int_eq_self_iff)
  have "ucast (scast fd :: u64) = fd"
    by (rule bit_word_eqI) (simp add: bit_unsigned_iff bit_signed_iff)
  with s assms show "borrow_fd (h\<lparr>h_fd := scast fd\<rparr>) = Some fd" "closed_fds False (h\<lparr>h_fd := scast fd\<rparr>) = [fd]"
    by (simp_all add: borrow_fd_def closed_fds_def)
qed

lemma map_fresh_handle:
  assumes "base_ok base" "handles_ok t" "h_ty h \<noteq> 0" "insert_handle base h t = (Inr p, t')"
  shows "deref_unchecked base p < NHANDLES" "slot_addr base (deref_unchecked base p) = p"
    "handle_array t' ! deref_unchecked base p = h" "handles_ok t'" "handle_map base t p = None"
    "handle_map base t' = (handle_map base t)(p \<mapsto> h)"
proof -
  obtain n where n: "n < NHANDLES" "p = slot_addr base n" "handle_array t' = (handle_array t)[n := h]"
    using assms(2) by (cases rule: insert_handle_cases [where base = base and h = h]) (use assms(4) in auto)
  have d: "deref_unchecked base p = n" using slot_addr_index [OF assms(1) n(1)] n(2) by (simp add: deref_unchecked_def)
  then show "deref_unchecked base p < NHANDLES" "slot_addr base (deref_unchecked base p) = p" using n by simp_all
  show "handle_array t' ! deref_unchecked base p = h" using n d assms(2) by (simp add: handles_ok_def)
  show "handles_ok t'" "handle_map base t p = None" "handle_map base t' = (handle_map base t)(p \<mapsto> h)"
    using insert_handle_ok [OF assms] by auto
qed

lemma insert_handle_nonnull:
  assumes "base_ok base" "handles_ok t" "h_ty h \<noteq> 0" "insert_handle base h t = (Inr p, t')" "base \<noteq> 0"
  shows "p \<noteq> 0"
proof -
  let ?n = "deref_unchecked base p"
  note f = map_fresh_handle(1,2) [OF assms(1-4)]
  have "unat base + 32 * ?n < 2 ^ 64" using f(1) assms(1) by (simp add: base_ok_def NHANDLES_def)
  moreover have "unat (of_nat (32 * ?n) :: u64) = 32 * ?n" using f(1) by (intro unat_of_nat_64) (simp add: NHANDLES_def)
  ultimately have "unat (slot_addr base ?n) = unat base + 32 * ?n"
    unfolding slot_addr_def by (subst unat_add_64) (simp_all del: of_nat_mult)
  moreover have "0 < unat base" using assms(5) by (simp add: unat_gt_0)
  ultimately show ?thesis unfolding f(2) by auto
qed

lemma set_handle_ok:
  assumes "base_ok base" "handles_ok t" "n < NHANDLES" "n \<in> live_slots t" "h_ty h \<noteq> 0"
  shows "handles_ok (t\<lparr>handle_array := (handle_array t)[n := h]\<rparr>)"
    and "handle_map base (t\<lparr>handle_array := (handle_array t)[n := h]\<rparr>) = (handle_map base t)(slot_addr base n \<mapsto> h)"
proof -
  have l: "length (handle_array t) = NHANDLES" using assms(2) by (simp add: handles_ok_def)
  let ?t = "t\<lparr>handle_array := (handle_array t)[n := h]\<rparr>"
  have "live_slots ?t = live_slots t" using live_slots_insert [OF l assms(3,5), of ?t] assms(4) by auto
  then show "handles_ok ?t" using assms(2) by (simp add: handles_ok_def)
  show "handle_map base ?t = (handle_map base t)(slot_addr base n \<mapsto> h)"
    using handle_map_update [OF assms(1,3) l, of ?t h] assms(5) by simp
qed

text \<open>
  C32. Opening a file, relative to any directory handle or to the current directory, connects the returned handle with the
  descriptor that the kernel returned: the handle is new, reads and writes on it go to this descriptor and return what the kernel answers,
  paths can be resolved relative to it, and what any other handle does has not changed. Opening fails
  after the kernel has opened the file only when the handle table is full; then the descriptor is in
  no handle. All of this needs a standard error that takes the line the call prints first; when that is refused the call panics, and
  the file is not opened.
\<close>

theorem open_then_io:
  assumes "base_ok base" "handles_ok t" "HANDLE_SUBTYPE_IO_FILE A \<noteq> 0"
    and "HANDLE_SUBTYPE_IO_FILE A AND NOT 0xF0000000 = HANDLE_TYPE_IO A"
    and "open_dir A base resolution_base t = Inr dir" "0 \<notin> set path"
    and "openat dir path (open_flags A op_mode access_mode) 438 = Inr fd" "0 \<le> sint fd"
    and "takes (say stderr) (format_args_nl (openat_text D dir path (open_flags A op_mode access_mode)))"
  shows "(\<exists>r t'. OpenFile A D say openat base resolution_base path op_mode access_mode t = Some (Ret (r, t')) \<and>
      (case r of
        Inr p \<Rightarrow> handles_ok t' \<and> handle_map base t p = None \<and>
          handle_map base t' = (handle_map base t)(p \<mapsto> fd_handle (HANDLE_SUBTYPE_IO_FILE A) fd) \<and>
          (\<forall>k buf len. IOWrite A k base p buf len t' = Ret (map_err (k fd buf len)) \<and>
             IORead A k base p buf len t' = Ret (map_err (k fd buf len))) \<and>
          file_fd A base p t' = Inr fd \<and> (base \<noteq> 0 \<longrightarrow> open_dir A base p t' = Inr (Dirfd fd)) \<and>
          (\<forall>q. q \<noteq> p \<longrightarrow> file_fd A base q t' = file_fd A base q t \<and>
             (\<forall>k buf len. IOWrite A k base q buf len t' = IOWrite A k base q buf len t \<and>
                IORead A k base q buf len t' = IORead A k base q buf len t))
      | Inl e \<Rightarrow> e = ResourceLimitExhausted \<and> t' = t \<and> card (dom (handle_map base t)) = NHANDLES)) \<and>
    (refuses (silent stderr) \<longrightarrow> OpenFile A D silent openat base resolution_base path op_mode access_mode t = Some Panic)"
proof -
  let ?h = "fd_handle (HANDLE_SUBTYPE_IO_FILE A) fd"
  obtain r t' where ins: "insert_handle base ?h t = (r, t')" by fastforce
  have "OpenFile A D say openat base resolution_base path op_mode access_mode t = Some (Ret (r, t'))"
    unfolding OpenFile_def assms(5) using eprintln_takes [of say, OF assms(9)] assms(6,7) ins by (simp add: cstring_def map_err_def)
  moreover have "OpenFile A D silent openat base resolution_base path op_mode access_mode t = Some Panic" if "refuses (silent stderr)"
    unfolding OpenFile_def assms(5) openat_text_def using print_refused(1) [of silent stderr, OF that] assms(6)
    by (simp add: cstring_def)
  moreover have ty: "h_ty ?h \<noteq> 0" "check_type ?h (HANDLE_TYPE_IO A) 0xF0000000 = Inr ()"
    "check_type ?h (HANDLE_SUBTYPE_IO_FILE A) 0 = Inr ()"
    using assms(3,4) by (simp_all add: fd_handle_def check_type_def)
  have fd: "borrow_fd ?h = Some fd" using fd_roundtrip(1) [OF assms(8), of ?h] by (simp add: fd_handle_def)
  have "case r of
        Inr p \<Rightarrow> handles_ok t' \<and> handle_map base t p = None \<and> handle_map base t' = (handle_map base t)(p \<mapsto> ?h) \<and>
          (\<forall>k buf len. IOWrite A k base p buf len t' = Ret (map_err (k fd buf len)) \<and>
             IORead A k base p buf len t' = Ret (map_err (k fd buf len))) \<and>
          file_fd A base p t' = Inr fd \<and> (base \<noteq> 0 \<longrightarrow> open_dir A base p t' = Inr (Dirfd fd)) \<and>
          (\<forall>q. q \<noteq> p \<longrightarrow> file_fd A base q t' = file_fd A base q t \<and>
             (\<forall>k buf len. IOWrite A k base q buf len t' = IOWrite A k base q buf len t \<and>
                IORead A k base q buf len t' = IORead A k base q buf len t))
      | Inl e \<Rightarrow> e = ResourceLimitExhausted \<and> t' = t \<and> card (dom (handle_map base t)) = NHANDLES"
  proof (cases r)
    case (Inl e)
    then show ?thesis using insert_handle_full [OF assms(1,2)] ins by simp
  next
    case (Inr p)
    note m = map_fresh_handle(4-6) [OF assms(1,2) ty(1) ins [unfolded Inr]]
    have "base \<noteq> 0 \<Longrightarrow> p \<noteq> 0" using insert_handle_nonnull [OF assms(1,2) ty(1) ins [unfolded Inr]] .
    then show ?thesis unfolding Inr sum.case using m ty fd
      by (simp add: IOWrite_def IORead_def io_fd_map [OF assms(1)] file_fd_map [OF assms(1)] io_fd_abs_def file_fd_abs_def open_dir_def)
  qed
  ultimately show ?thesis by blast
qed

definition some_io_abi :: io_abi where
  "some_io_abi = \<lparr>HANDLE_TYPE_IO = 3, HANDLE_SUBTYPE_IO_FILE = 0x10000003, HANDLE_TYPE_PROC = 5,
     OP_NO_ACCESS = 0, OP_ACL_ACCESS = 3, OP_DIRECTORY_ACCESS = 2, ACCESS_READ = 1, ACCESS_WRITE = 2,
     ACCESS_CREATE = 4, ACCESS_CREATE_EXCLUSIVE = 8, ACCESS_LINK_STREAM_DIRECT = 16, ACCESS_TRUNCATE = 32,
     ACCESS_START_END = 64, O_CLOEXEC = 0x80000, O_PATH = 0x200000, O_RDWR = 2, O_RDONLY = 0, O_WRONLY = 1,
     O_CREATE = 0x40, O_EXCL = 0x80, O_NOFOLLOW = 0x20000, O_TRUNC = 0x200, O_APPEND = 0x400,
     O_DIRECTORY = 0x10000, OPTION_FLAG_IGNORE = 1\<rparr>"

lemma some_base: "base_ok 0x7000"
  by (simp add: base_ok_def)

definition some_debug :: debug_texts where
  "some_debug = \<lparr>show_dir = (\<lambda>d. [ascii ''dir'']), show_path = (\<lambda>p. [p]), show_flags = (\<lambda>f. [ascii ''flags''])\<rparr>"

text \<open>A table with one handle, a directory with descriptor 9.\<close>

definition dir_table :: handles where
  "dir_table = snd (insert_handle 0x7000 (fd_handle 0x10000003 9) handles_init)"

theorem open_then_io_witness:
  "\<exists>d say p t. fst (insert_handle 0x7000 (fd_handle 0x10000003 9) handles_init) = Inr d \<and>
     OpenFile some_io_abi some_debug say (\<lambda>dir _ _ _. if dir = Dirfd 9 then Inr 4 else Inl ENOENT) 0x7000 d [0x61] 1 1 dir_table =
       Some (Ret (Inr p, t)) \<and>
     IOWrite some_io_abi (\<lambda>fd buf len. if fd = 4 then Inr len else Inl EBADF) 0x7000 p 0x100 7 t = Ret (Inr 7)"
proof -
  let ?h = "fd_handle 0x10000003 9" and ?open = "\<lambda>dir (_ :: bytes) (_ :: u32) (_ :: u32). if dir = Dirfd 9 then Inr (4 :: u32) else Inl ENOENT"
  let ?say = "\<lambda>fd :: u32. at_once (format_args_nl (openat_text some_debug (Dirfd 9) [0x61] (open_flags some_io_abi 1 1)))"
  have ty: "HANDLE_SUBTYPE_IO_FILE some_io_abi AND NOT 0xF0000000 = HANDLE_TYPE_IO some_io_abi"
    "HANDLE_SUBTYPE_IO_FILE some_io_abi \<noteq> 0" "HANDLE_SUBTYPE_IO_FILE some_io_abi = 0x10000003" by (simp_all add: some_io_abi_def)
  have c0: "card (dom (handle_map 0x7000 handles_init)) = 0" by (simp add: handles_init_map [OF some_base])
  obtain d where d: "insert_handle 0x7000 ?h handles_init = (Inr d, dir_table)"
    using insert_handle_full [OF some_base handles_init_ok(1), of ?h] c0 unfolding dir_table_def
    by (cases "insert_handle 0x7000 ?h handles_init"; cases "fst (insert_handle 0x7000 ?h handles_init)") (auto simp: NHANDLES_def)
  have h: "h_ty ?h \<noteq> 0" by (simp add: fd_handle_def)
  note m = map_fresh_handle(4-6) [OF some_base handles_init_ok(1) h d]
  have "d \<noteq> 0" using insert_handle_nonnull [OF some_base handles_init_ok(1) h d] by simp
  moreover have "borrow_fd ?h = Some 9" using fd_roundtrip(1) [of 9 ?h] by (simp add: fd_handle_def)
  ultimately have dir: "open_dir some_io_abi 0x7000 d dir_table = Inr (Dirfd 9)"
    using m(3) by (simp add: open_dir_def file_fd_map [OF some_base] file_fd_abs_def ty(3) check_type_def fd_handle_def)
  have "card (dom (handle_map 0x7000 dir_table)) = 1" unfolding m(3) by (simp add: handles_init_map [OF some_base])
  then obtain p t where "OpenFile some_io_abi some_debug ?say ?open 0x7000 d [0x61] 1 1 dir_table = Some (Ret (Inr p, t))"
    "\<forall>k buf len. IOWrite some_io_abi k 0x7000 p buf len t = Ret (map_err (k 4 buf len))"
    using open_then_io [OF some_base m(1) ty(2,1) dir, where path = "[0x61]" and openat = ?open and op_mode = 1 and access_mode = 1 and
        fd = 4 and say = ?say and D = some_debug, THEN conjunct1] takes_at_once(1)
    by (fastforce simp: NHANDLES_def split: sum.splits)
  moreover have "fst (insert_handle 0x7000 ?h handles_init) = Inr d" using d by simp
  ultimately show ?thesis by (intro exI conjI) (assumption | simp add: map_err_def)+
qed

section \<open>The life of a process handle\<close>

text \<open>
  The handle of a process that was created: its type, its identifier, and the descriptor that the
  child sent.
\<close>

definition running_handle :: "usize \<Rightarrow> u32 \<Rightarrow> u32 \<Rightarrow> handle" where
  "running_handle ty pid fd = \<lparr>h_ty = ty, blob1 = 0, blob2 = scast pid, h_fd = scast fd\<rparr>"

lemma running_handle_eq:
  "(proc_handle ty)\<lparr>h_fd := scast fd, blob2 := scast pid\<rparr> = running_handle ty pid fd"
  by (simp add: proc_handle_def running_handle_def)

lemma close_live:
  assumes "base_ok base" "handles_ok t" "handle_map base t p = Some h" "n < NHANDLES" "p = slot_addr base n"
  obtains t' where "handle_close False n t = (closed_fds False h, t')" "handles_ok t'"
    "handle_map base t' = (handle_map base t)(p := None)"
proof -
  have h: "h_ty (handle_array t ! n) \<noteq> 0" "handle_array t ! n = h"
    using assms(3) handle_map_slot [OF assms(1,4), of t] assms(5) by (auto split: if_splits)
  then have d: "try_deref base p t = Inr n"
    using try_deref_iff [OF assms(1)] assms(4,5) by (simp add: live_slots_def)
  obtain fds t' where c: "handle_close False n t = (fds, t')" by fastforce
  moreover have "fds = closed_fds False h" using c h(2) by (simp add: handle_close_def)
  ultimately show thesis using that handle_close_ok [OF assms(1,2) d c] by blast
qed

lemma join_running:
  assumes "base_ok base" "handles_ok t" "HANDLE_TYPE_PROC A \<noteq> 0" "0 \<le> sint fd"
    and "handle_map base t p = Some (running_handle (HANDLE_TYPE_PROC A) pid fd)"
    and "waitid fd = Inr (Some s)" "join_status_of s = Ret js"
  shows "\<exists>t'. JoinProcess A waitid base p t = Ret (Inr js, t', [WaitPidFd fd, CloseFd fd]) \<and> handles_ok t' \<and>
    handle_map base t' = (handle_map base t)(p := None)"
proof -
  let ?h = "running_handle (HANDLE_TYPE_PROC A) pid fd"
  obtain n where n: "try_deref base p t = Inr n" "handle_array t ! n = ?h"
    using assms(5) by (auto simp: handle_map_def split: sum.splits)
  have "borrow_fd ?h = Some fd" "closed_fds False ?h = [fd]"
    using fd_roundtrip [OF assms(4), of ?h] by (simp_all add: running_handle_def)
  moreover obtain t' where "handle_close False n t = (closed_fds False ?h, t')" "handles_ok t'"
    "handle_map base t' = (handle_map base t)(p := None)"
    using close_live [OF assms(1,2,5)] try_deref_iff [OF assms(1)] n(1) by (auto simp: live_slots_def)
  moreover have "check_type ?h (HANDLE_TYPE_PROC A) 0 = Inr ()" by (simp add: check_type_def running_handle_def)
  ultimately show ?thesis using n assms(6,7) by (simp add: JoinProcess_def)
qed

text \<open>
  The state right before the fork returns: a process handle without a descriptor is in the table.
\<close>

lemma create_process_inserted:
  assumes "base_ok base" "handles_ok t" "HANDLE_TYPE_PROC A \<noteq> 0" "card (dom (handle_map base t)) < NHANDLES"
    and "process_args A base rb path opts t = Inr (ep, argv)"
  obtains p t1 where "insert_handle base (proc_handle (HANDLE_TYPE_PROC A)) t = (Inr p, t1)" "handles_ok t1"
    "handle_map base t p = None" "handle_map base t1 = (handle_map base t)(p \<mapsto> proc_handle (HANDLE_TYPE_PROC A))"
    "deref_unchecked base p < NHANDLES" "slot_addr base (deref_unchecked base p) = p"
    "handle_array t1 ! deref_unchecked base p = proc_handle (HANDLE_TYPE_PROC A)"
    "\<And>fork. CreateProcess A einval True fork C P base rb path opts t =
       (case fork of
          InChild \<Rightarrow> Ret (Child (child_run einval C ep argv))
        | InParent pid \<Rightarrow>
            run_bind (parent_run P (deref_unchecked base p) p pid t1) (\<lambda>(r, t, acts). Ret (Parent r t acts))
        | ForkFailed e \<Rightarrow> Ret (Parent (Inl (linux_error_to_lilium e)) t1 []))"
proof -
  let ?h = "proc_handle (HANDLE_TYPE_PROC A)"
  have ty: "h_ty ?h \<noteq> 0" using assms(3) by (simp add: proc_handle_def)
  obtain p t1 where i: "insert_handle base ?h t = (Inr p, t1)"
    using handle_table.put_room [of base t ?h] assms(1,2,4) ty by blast
  have "CreateProcess A einval True fork C P base rb path opts t =
       (case fork of
          InChild \<Rightarrow> Ret (Child (child_run einval C ep argv))
        | InParent pid \<Rightarrow>
            run_bind (parent_run P (deref_unchecked base p) p pid t1) (\<lambda>(r, t, acts). Ret (Parent r t acts))
        | ForkFailed e \<Rightarrow> Ret (Parent (Inl (linux_error_to_lilium e)) t1 []))" for fork
    by (simp add: CreateProcess_def assms(5) i)
  then show thesis using that i map_fresh_handle [OF assms(1,2) ty i] by blast
qed

lemma parent_receives:
  assumes "base_ok base" "handles_ok t" "ty \<noteq> 0" "n < NHANDLES" "handle_array t ! n = proc_handle ty"
    and "p_recvmsg P = Inr (Rights (fd # fds))"
    and "t1 = t\<lparr>handle_array := (handle_array t)[n := running_handle ty pid fd]\<rparr>"
  shows "handles_ok t1" "handle_map base t1 = (handle_map base t)(slot_addr base n \<mapsto> running_handle ty pid fd)"
    "parent_run P n ptr pid t =
      (case p_read P of
         Inr (c, num) \<Rightarrow>
           if 1 \<le> c
           then (case handle_close False n t1 of
               (fds, t') \<Rightarrow> Ret (Inl (case errno_new P num of None \<Rightarrow> ResourceLimitExhausted | Some e \<Rightarrow> linux_error_to_lilium e),
                 t', map CloseFd fds @ [WaitPidFd fd]))
           else Ret (Inr ptr, t1, [])
       | Inl e \<Rightarrow> Ret (Inr ptr, t1, []))"
proof -
  have l: "n \<in> live_slots t" using assms(3-5) by (simp add: live_slots_def proc_handle_def)
  have ty: "h_ty (running_handle ty pid fd) \<noteq> 0" using assms(3) by (simp add: running_handle_def)
  show "handles_ok t1" "handle_map base t1 = (handle_map base t)(slot_addr base n \<mapsto> running_handle ty pid fd)"
    using set_handle_ok [OF assms(1,2,4) l ty] assms(7) by simp_all
  show "parent_run P n ptr pid t =
      (case p_read P of
         Inr (c, num) \<Rightarrow>
           if 1 \<le> c
           then (case handle_close False n t1 of
               (fds, t') \<Rightarrow> Ret (Inl (case errno_new P num of None \<Rightarrow> ResourceLimitExhausted | Some e \<Rightarrow> linux_error_to_lilium e),
                 t', map CloseFd fds @ [WaitPidFd fd]))
           else Ret (Inr ptr, t1, [])
       | Inl e \<Rightarrow> Ret (Inr ptr, t1, []))"
    unfolding assms(7) by (simp add: parent_run_def assms(5,6) running_handle_eq Let_def)
qed

text \<open>
  C33. A process that was created and joined leaves the handle table as it was. With room in the
  table, a child whose descriptor arrives and whose socket closes without an error number gets a new
  handle with its identifier and descriptor; joining this handle waits for this descriptor, closes
  it, reports the status of the child, and removes the handle.
\<close>

theorem create_then_join:
  assumes "base_ok base" "handles_ok t" "HANDLE_TYPE_PROC A \<noteq> 0" "card (dom (handle_map base t)) < NHANDLES"
    and "process_args A base rb path opts t = Inr (ep, argv)"
    and "p_recvmsg P = Inr (Rights (fd # fds))" "0 \<le> sint fd" "p_read P = Inr (0, num)"
    and "waitid fd = Inr (Some s)" "join_status_of s = Ret js"
  shows "\<exists>p t1 t2. CreateProcess A einval True (InParent pid) C P base rb path opts t = Ret (Parent (Inr p) t1 []) \<and>
    handle_map base t p = None \<and>
    handle_map base t1 = (handle_map base t)(p \<mapsto> running_handle (HANDLE_TYPE_PROC A) pid fd) \<and>
    JoinProcess A waitid base p t1 = Ret (Inr js, t2, [WaitPidFd fd, CloseFd fd]) \<and>
    handles_ok t2 \<and> handle_map base t2 = handle_map base t"
proof -
  obtain p t0 where "insert_handle base (proc_handle (HANDLE_TYPE_PROC A)) t = (Inr p, t0)"
    and c: "handles_ok t0" "handle_map base t p = None"
      "handle_map base t0 = (handle_map base t)(p \<mapsto> proc_handle (HANDLE_TYPE_PROC A))"
      "deref_unchecked base p < NHANDLES" "slot_addr base (deref_unchecked base p) = p"
      "handle_array t0 ! deref_unchecked base p = proc_handle (HANDLE_TYPE_PROC A)"
    and cp: "\<And>fork. CreateProcess A einval True fork C P base rb path opts t =
       (case fork of
          InChild \<Rightarrow> Ret (Child (child_run einval C ep argv))
        | InParent pid \<Rightarrow>
            run_bind (parent_run P (deref_unchecked base p) p pid t0) (\<lambda>(r, t, acts). Ret (Parent r t acts))
        | ForkFailed e \<Rightarrow> Ret (Parent (Inl (linux_error_to_lilium e)) t0 []))"
    by (rule create_process_inserted [where einval = einval and C = C and P = P, OF assms(1-5)]) (rule that)
  define t1 where "t1 = t0\<lparr>handle_array := (handle_array t0)
    [deref_unchecked base p := running_handle (HANDLE_TYPE_PROC A) pid fd]\<rparr>"
  note r = parent_receives [OF assms(1) c(1) assms(3) c(4,6) assms(6) t1_def]
  have m1: "handle_map base t1 = (handle_map base t)(p \<mapsto> running_handle (HANDLE_TYPE_PROC A) pid fd)"
    using r(2) c(3,5) by simp
  obtain t2 where j: "JoinProcess A waitid base p t1 = Ret (Inr js, t2, [WaitPidFd fd, CloseFd fd])" "handles_ok t2"
    "handle_map base t2 = (handle_map base t1)(p := None)"
    using join_running [where waitid = waitid and fd = fd and p = p and pid = pid, OF assms(1) r(1) assms(3,7) _ assms(9,10)] m1 by auto
  have "(handle_map base t1)(p := None) = handle_map base t" using m1 c(2) by (simp add: fun_upd_idem)
  then show ?thesis using c(2) cp m1 j r(3) [of p] assms(8) by auto
qed

text \<open>
  The error paths of process creation. When the fork fails, the call reports the error but leaves
  a process handle without a descriptor in the table. When the child reports that the program could
  not be executed, the handle is removed and the error reported, but the parent closes the
  descriptor of the child before it waits on it, so that it waits on a closed descriptor. When
  nothing arrives from the child, the handle is removed and the parent waits for the identifier.
\<close>

theorem create_process_errors:
  assumes "base_ok base" "handles_ok t" "HANDLE_TYPE_PROC A \<noteq> 0" "card (dom (handle_map base t)) < NHANDLES"
    and "process_args A base rb path opts t = Inr (ep, argv)"
  shows "(\<exists>p t'. CreateProcess A einval True (ForkFailed e) C P base rb path opts t =
        Ret (Parent (Inl (linux_error_to_lilium e)) t' []) \<and> handle_map base t p = None \<and>
        handle_map base t' = (handle_map base t)(p \<mapsto> proc_handle (HANDLE_TYPE_PROC A))) \<and>
    (p_recvmsg P = Inr (Rights (fd # fds)) \<longrightarrow> 0 \<le> sint fd \<longrightarrow> p_read P = Inr (Suc c, num) \<longrightarrow>
      (\<exists>e' t'. CreateProcess A einval True (InParent pid) C P base rb path opts t =
        Ret (Parent (Inl e') t' [CloseFd fd, WaitPidFd fd]) \<and> handles_ok t' \<and> handle_map base t' = handle_map base t)) \<and>
    (p_recvmsg P = Inl e \<or> p_recvmsg P = Inr NoRights \<longrightarrow>
      (\<exists>e' t'. CreateProcess A einval True (InParent pid) C P base rb path opts t =
        Ret (Parent (Inl e') t' [WaitPid pid]) \<and> handles_ok t' \<and> handle_map base t' = handle_map base t))"
proof -
  let ?h = "proc_handle (HANDLE_TYPE_PROC A)"
  obtain p t0 where "insert_handle base (proc_handle (HANDLE_TYPE_PROC A)) t = (Inr p, t0)"
    and c: "handles_ok t0" "handle_map base t p = None"
      "handle_map base t0 = (handle_map base t)(p \<mapsto> ?h)"
      "deref_unchecked base p < NHANDLES" "slot_addr base (deref_unchecked base p) = p"
      "handle_array t0 ! deref_unchecked base p = ?h"
    and cp: "\<And>fork. CreateProcess A einval True fork C P base rb path opts t =
       (case fork of
          InChild \<Rightarrow> Ret (Child (child_run einval C ep argv))
        | InParent pid \<Rightarrow>
            run_bind (parent_run P (deref_unchecked base p) p pid t0) (\<lambda>(r, t, acts). Ret (Parent r t acts))
        | ForkFailed e \<Rightarrow> Ret (Parent (Inl (linux_error_to_lilium e)) t0 []))"
    by (rule create_process_inserted [where einval = einval and C = C and P = P, OF assms]) (rule that)
  let ?n = "deref_unchecked base p" and ?r = "running_handle (HANDLE_TYPE_PROC A) pid fd"
  have undo: "((handle_map base t)(p \<mapsto> h))(p := None) = handle_map base t" for h
    using c(2) by (simp add: fun_upd_idem)
  have exec: "\<exists>e' t'. CreateProcess A einval True (InParent pid) C P base rb path opts t =
        Ret (Parent (Inl e') t' [CloseFd fd, WaitPidFd fd]) \<and> handles_ok t' \<and> handle_map base t' = handle_map base t"
    if "p_recvmsg P = Inr (Rights (fd # fds))" "0 \<le> sint fd" "p_read P = Inr (Suc c, num)"
  proof -
    note r = parent_receives [where pid = pid, OF assms(1) c(1) assms(3) c(4,6) that(1) refl]
    let ?t1 = "t0\<lparr>handle_array := (handle_array t0)[?n := ?r]\<rparr>"
    have m: "handle_map base ?t1 p = Some ?r" using r(2) c(5) by simp
    obtain t' where t': "handle_close False ?n ?t1 = (closed_fds False ?r, t')" "handles_ok t'"
      "handle_map base t' = (handle_map base ?t1)(p := None)"
      by (rule close_live [OF assms(1) r(1) m c(4) c(5) [symmetric]])
    have "closed_fds False ?r = [fd]" using fd_roundtrip(2) [OF that(2), of ?r] by (simp add: running_handle_def)
    then show ?thesis using t' r(2) r(3) [of p] that(3) cp c(3,5) undo by simp
  qed
  have wait: "\<exists>e' t'. CreateProcess A einval True (InParent pid) C P base rb path opts t =
        Ret (Parent (Inl e') t' [WaitPid pid]) \<and> handles_ok t' \<and> handle_map base t' = handle_map base t"
    if "p_recvmsg P = Inl e \<or> p_recvmsg P = Inr NoRights"
  proof -
    have m: "handle_map base t0 p = Some ?h" using c(3) by simp
    obtain t' where "handle_close False ?n t0 = (closed_fds False ?h, t')" "handles_ok t'"
      "handle_map base t' = (handle_map base t0)(p := None)"
      by (rule close_live [OF assms(1) c(1) m c(4) c(5) [symmetric]])
    moreover have "closed_fds False ?h = []" by (simp add: closed_fds_def proc_handle_def)
    ultimately show ?thesis using that cp c(3) undo by (auto simp: parent_run_def Let_def)
  qed
  show ?thesis using c(2,3) cp exec wait by auto
qed

text \<open>A parent whose child sent descriptor 6, and one whose child then reported error number 2.\<close>

definition good_child :: parent_env where
  "good_child = \<lparr>p_recvmsg = Inr (Rights [6]), p_read = Inr (0, 0), errno_new = (\<lambda>_. None)\<rparr>"

definition bad_child :: parent_env where
  "bad_child = \<lparr>p_recvmsg = Inr (Rights [6]), p_read = Inr (2, 2), errno_new = (\<lambda>n. if n = 2 then Some ENOENT else None)\<rparr>"

definition any_child :: child_env where
  "any_child = \<lparr>c_pidfd_open = Inr 6, c_push = True, c_sendmsg = Inr (), c_execve = (\<lambda>_ _. None)\<rparr>"

lemma some_args: "process_args some_io_abi 0x7000 0 (ascii ''/a'') [] handles_init = Inr (ascii ''/a'', [ascii ''/a''])"
  by (simp add: process_args_def exec_path_of_def cstring_def ascii_def)

lemma some_room: "HANDLE_TYPE_PROC some_io_abi \<noteq> 0" "card (dom (handle_map 0x7000 handles_init)) < NHANDLES"
  using handles_init_map [OF some_base] by (simp_all add: some_io_abi_def NHANDLES_def)

theorem create_then_join_witness:
  "\<exists>p t1 t2. CreateProcess some_io_abi 22 True (InParent 77) any_child good_child 0x7000 0 (ascii ''/a'') [] handles_init =
      Ret (Parent (Inr p) t1 []) \<and>
    JoinProcess some_io_abi (\<lambda>fd. Inr (Some \<lparr>terminating_signal = None, exit_status = Some 3\<rparr>)) 0x7000 p t1 =
      Ret (Inr (ExitCode 3), t2, [WaitPidFd 6, CloseFd 6])"
  using create_then_join [OF some_base handles_init_ok(1) some_room some_args, where P = good_child and fd = 6
      and fds = "[]" and num = 0 and s = "\<lparr>terminating_signal = None, exit_status = Some 3\<rparr>" and js = "ExitCode 3"
      and waitid = "\<lambda>fd. Inr (Some \<lparr>terminating_signal = None, exit_status = Some 3\<rparr>)" and pid = 77 and C = any_child and einval = 22]
  by (fastforce simp: good_child_def join_status_of_def)

theorem create_process_errors_witness:
  "\<exists>e t. CreateProcess some_io_abi 22 True (InParent 77) any_child bad_child 0x7000 0 (ascii ''/a'') [] handles_init =
      Ret (Parent (Inl e) t [CloseFd 6, WaitPidFd 6]) \<and> handle_map 0x7000 t = Map.empty"
proof -
  have b: "p_recvmsg bad_child = Inr (Rights [6])" "p_read bad_child = Inr (Suc 1, 2)" "0 \<le> sint (6 :: u32)"
    by (simp_all add: bad_child_def)
  note e = create_process_errors [OF some_base handles_init_ok(1) some_room some_args, where P = bad_child
      and C = any_child and einval = 22 and pid = 77 and fd = 6 and fds = "[]" and c = 1 and num = 2 and e = EINTR]
  from conjunct1 [OF conjunct2 [OF e]] b show ?thesis unfolding handles_init_map [OF some_base] by blast
qed

end
