(* ===== verification/WL_Tls.thy ===== *)
theory WL_Tls
  imports WL_Prelude
begin

text \<open>
  Thread-local storage of the loader (\<open>wl-ld-lilium/src/loader.rs\<close>, \<open>wl-ld-lilium/src/iface.rs\<close>).
  Every thread owns a block of \<open>TLS_BLOCK_SIZE\<close> bytes with its thread control block in the middle; one
  more block, the master copy, holds the initial images. Loading a module takes a range of the master
  block above the control block (or, for the executable, below it), and a thread copies the ranges it
  has not got yet when it finds that its version is behind. The same theory has the other cursor of
  the loader, the base address of the next module. The answer of \<open>mprotect\<close> and \<open>mmap\<close> is a parameter.
\<close>

section \<open>Control blocks and the loader's state\<close>

datatype load_error = AllocError | LoadError | ObjectNotFound | AssumePresent | ReadError

record tcb =
  tls_base :: u64
  load_size :: usize
  dyn_size :: usize
  version :: usize

text \<open>
  Control blocks are kept by address, apart from the bytes of the blocks: the code reads and writes
  them only as values of type \<open>Tcb\<close>. So \<open>tls_mem\<close> says nothing about the 32 bytes of a control block, which \<open>update_tls\<close> writes.
\<close>

record tls_state =
  tls_off :: usize
  tls_mc :: u64
  tcb_at :: "u64 \<Rightarrow> tcb"
  tls_mem :: "u64 \<Rightarrow> u8"

definition TLS_BLOCK_SIZE :: usize where
  "TLS_BLOCK_SIZE = 4096 * 4096 * 4"

definition size_of_Tcb :: usize where
  "size_of_Tcb = 32"

definition get_master_tcb :: "tls_state \<Rightarrow> tcb" where
  "get_master_tcb st = tcb_at st (tls_mc st)"

definition fresh_tcb :: "u64 \<Rightarrow> tcb" where
  "fresh_tcb ptr = \<lparr> tls_base = ptr, load_size = size_of_Tcb, dyn_size = 0, version = 0 \<rparr>"

definition setup_tls_mc :: "u64 \<Rightarrow> tls_state \<Rightarrow> tls_state" where
  "setup_tls_mc mc st = st\<lparr> tls_mc := mc, tcb_at := (tcb_at st)(mc := fresh_tcb mc) \<rparr>"

text \<open>\<open>copy_nonoverlapping(src, dst, len)\<close>; with \<open>write_image\<close> the source is outside the blocks.\<close>

definition copy_block :: "(u64 \<Rightarrow> u8) \<Rightarrow> u64 \<Rightarrow> u64 \<Rightarrow> usize \<Rightarrow> u64 \<Rightarrow> u8" where
  "copy_block m src dst len = (\<lambda>x. if x - dst < len then m (src + (x - dst)) else m x)"

definition write_image :: "(u64 \<Rightarrow> u8) \<Rightarrow> bytes \<Rightarrow> u64 \<Rightarrow> u64 \<Rightarrow> u8" where
  "write_image m img dst = (\<lambda>x. if unat (x - dst) < length img then img ! unat (x - dst) else m x)"

section \<open>Loading a module\<close>

definition tls_next :: "usize \<Rightarrow> usize \<Rightarrow> usize \<Rightarrow> usize option" where
  "tls_next tls_size tls_align v =
     (let next = ((v + (tls_align - 1)) AND NOT (tls_align - 1)) + tls_size
      in if next > drop_bit 1 TLS_BLOCK_SIZE then None else Some next)"

definition alloc_tls ::
  "(u64 \<Rightarrow> usize \<Rightarrow> bool) \<Rightarrow> usize \<Rightarrow> usize \<Rightarrow> bool \<Rightarrow> tls_state \<Rightarrow> (load_error + usize) \<times> tls_state" where
  "alloc_tls mprotect tls_size tls_align exec_tls st =
     (case (if \<not> exec_tls
            then map_option (\<lambda>next. (tls_off st, st\<lparr> tls_off := next \<rparr>)) (tls_next tls_size tls_align (tls_off st))
            else Some ((- tls_size) AND NOT (tls_align - 1), st)) of
        None \<Rightarrow> (Inl AllocError, st)
      | Some (val, st) \<Rightarrow>
          let aligned_val = (val + (tls_align - 1)) AND NOT (tls_align - 1);
              pg = tls_mc st + (val AND NOT 4095);
              map_len = tls_size + (aligned_val - (val AND NOT 4095));
              m = get_master_tcb st
          in if \<not> mprotect pg map_len then (Inl AllocError, st)
             else if \<not> exec_tls
             then (Inr aligned_val,
                   st\<lparr> tcb_at := (tcb_at st)(tls_mc st :=
                       m\<lparr> load_size := load_size m + (tls_size + (aligned_val - val)),
                          version := version m + 1 \<rparr>) \<rparr>)
             else (Inr aligned_val,
                   st\<lparr> tcb_at := (tcb_at st)(tls_mc st :=
                       m\<lparr> dyn_size := - aligned_val, version := version m + 1 \<rparr>) \<rparr>))"

definition tls_direct_offset :: "usize \<Rightarrow> load_error + usize" where
  "tls_direct_offset tls_module = Inr tls_module"

definition load_tls :: "usize \<Rightarrow> bytes \<Rightarrow> tls_state \<Rightarrow> tls_state" where
  "load_tls tls_module img st = st\<lparr> tls_mem := write_image (tls_mem st) img (tls_mc st + tls_module) \<rparr>"

section \<open>Threads\<close>

text \<open>
  \<open>fs\<close> is the base register of the calling thread. A failing \<open>mprotect\<close> crashes the process, which
  is the value None.
\<close>

definition get_tp :: "u64 \<Rightarrow> tls_state \<Rightarrow> u64" where
  "get_tp fs st = tls_base (tcb_at st fs)"

definition update_static :: "(u64 \<Rightarrow> usize \<Rightarrow> bool) \<Rightarrow> u64 \<Rightarrow> tls_state \<Rightarrow> tls_state option" where
  "update_static mprotect tp st =
     (let tcb = tcb_at st tp; mtcb = get_master_tcb st in
      if load_size tcb < load_size mtcb then
        let len = load_size mtcb - load_size tcb;
            pg = tp + (load_size tcb AND NOT 4095);
            map_len = load_size mtcb - (load_size tcb AND NOT 4095)
        in if \<not> mprotect pg map_len then None
           else Some (st\<lparr> tls_mem := copy_block (tls_mem st) (tls_mc st + load_size tcb) (tp + load_size tcb) len,
                          tcb_at := (tcb_at st)(tp := tcb\<lparr> load_size := load_size mtcb \<rparr>) \<rparr>)
      else Some st)"

definition update_dynamic :: "(u64 \<Rightarrow> usize \<Rightarrow> bool) \<Rightarrow> u64 \<Rightarrow> tls_state \<Rightarrow> tls_state option" where
  "update_dynamic mprotect tp st =
     (let tcb = tcb_at st tp; mtcb = get_master_tcb st in
      if dyn_size tcb < dyn_size mtcb then
        let len = dyn_size mtcb - dyn_size tcb;
            pg = tp - ((dyn_size mtcb + 4095) AND NOT 4095);
            map_len = ((dyn_size mtcb + 4095) AND NOT 4095) - dyn_size tcb
        in if \<not> mprotect pg map_len then None
           else Some (st\<lparr> tls_mem := copy_block (tls_mem st) (tls_mc st - dyn_size mtcb) (tp - dyn_size mtcb) len,
                          tcb_at := (tcb_at st)(tp := tcb\<lparr> dyn_size := dyn_size mtcb \<rparr>) \<rparr>)
      else Some st)"

definition update_tls :: "(u64 \<Rightarrow> usize \<Rightarrow> bool) \<Rightarrow> u64 \<Rightarrow> tls_state \<Rightarrow> tls_state option" where
  "update_tls mprotect fs st =
     (let tp = get_tp fs st in
      case update_static mprotect tp st of
        None \<Rightarrow> None
      | Some st \<Rightarrow>
          case update_dynamic mprotect tp st of
            None \<Rightarrow> None
          | Some st \<Rightarrow>
              Some (st\<lparr> tcb_at := (tcb_at st)(tp := (tcb_at st tp)\<lparr> version := version (get_master_tcb st) \<rparr>) \<rparr>))"

definition set_tp :: "(u64 \<Rightarrow> usize \<Rightarrow> bool) \<Rightarrow> u64 \<Rightarrow> tls_state \<Rightarrow> tls_state option" where
  "set_tp mprotect ptr st = update_tls mprotect ptr (st\<lparr> tcb_at := (tcb_at st)(ptr := fresh_tcb ptr) \<rparr>)"

record tls_desc =
  tls_module :: usize
  tls_offset :: usize

definition tls_get_addr ::
  "(u64 \<Rightarrow> usize \<Rightarrow> bool) \<Rightarrow> u64 \<Rightarrow> tls_desc \<Rightarrow> tls_state \<Rightarrow> (u64 \<times> tls_state) option" where
  "tls_get_addr mprotect fs desc st =
     map_option (\<lambda>st. (tls_module desc + tls_offset desc + tls_base (tcb_at st fs), st))
       (if version (get_master_tcb st) = version (tcb_at st fs) then Some st
        else update_tls mprotect fs st)"

definition rtld_get_thread_ptr :: "(u64 \<Rightarrow> usize \<Rightarrow> bool) \<Rightarrow> u64 \<Rightarrow> tls_state \<Rightarrow> (u64 \<times> tls_state) option" where
  "rtld_get_thread_ptr mprotect fs st = map_option (\<lambda>st. (get_tp fs st, st)) (update_tls mprotect fs st)"

definition rtld_update_global_tcb :: "(u64 \<Rightarrow> usize \<Rightarrow> bool) \<Rightarrow> u64 \<Rightarrow> tls_state \<Rightarrow> tls_state option" where
  "rtld_update_global_tcb mprotect fs st = update_tls mprotect fs st"

section \<open>Base addresses of modules\<close>

datatype SearchType = Host | Winter

record bases =
  native_base :: u64
  winter_base :: u64

definition base_of :: "SearchType \<Rightarrow> bases \<Rightarrow> u64" where
  "base_of search b = (case search of Host \<Rightarrow> native_base b | Winter \<Rightarrow> winter_base b)"

definition alloc_base_addr ::
  "(u64 \<Rightarrow> usize \<Rightarrow> load_error + u64) \<Rightarrow> SearchType \<Rightarrow> usize \<Rightarrow> bases \<Rightarrow> (load_error + u64) \<times> bases" where
  "alloc_base_addr mmap search max_pma b =
     (let len = (max_pma + 4095) AND NOT 4095;
          addr = base_of search b;
          b' = (case search of
                  Host \<Rightarrow> b\<lparr> native_base := native_base b + len \<rparr>
                | Winter \<Rightarrow> b\<lparr> winter_base := winter_base b + len \<rparr>)
      in (case mmap addr len of Inl e \<Rightarrow> (Inl AllocError, b') | Inr p \<Rightarrow> (Inr p, b')))"

section \<open>Rounding to a power of two\<close>

definition align_up :: "nat \<Rightarrow> nat \<Rightarrow> nat" where
  "align_up a v = (v + (a - 1)) div a * a"

lemma unat_round_down:
  "unat ((v :: usize) AND NOT (2 ^ k - 1)) = unat v div 2 ^ k * 2 ^ k" if "k < 64"
proof -
  have m: "(2 ^ k - 1 :: usize) = mask k" by (simp add: mask_eq_exp_minus_1)
  have "unat (v AND mask k) = unat v mod 2 ^ k"
    by (metis take_bit_eq_mask take_bit_eq_mod unsigned_take_bit_eq)
  moreover have "v AND mask k \<le> v" by (rule word_and_le2)
  ultimately show ?thesis
    unfolding m and_not_mask_eq by (simp add: unat_sub minus_mod_eq_div_mult)
qed

lemma unat_pow2: "k < 64 \<Longrightarrow> unat (2 ^ k :: usize) = 2 ^ k"
proof -
  assume "k < 64"
  then have "(2 :: nat) ^ k < 2 ^ 64" by (intro power_strict_increasing) auto
  then show ?thesis using unat_of_nat_64 [of "2 ^ k"] by simp
qed

lemma unat_round_up:
  assumes "k < 64" "unat v + 2 ^ k \<le> 2 ^ 64"
  shows "unat ((v + ((2 :: usize) ^ k - 1)) AND NOT (2 ^ k - 1)) = align_up (2 ^ k) (unat v)"
proof -
  have "(1 :: usize) \<le> 2 ^ k" using assms(1) by (simp add: word_le_nat_alt unat_pow2)
  then have s: "unat ((2 :: usize) ^ k - 1) = 2 ^ k - 1" by (simp add: unat_sub unat_pow2 assms(1))
  have p: "0 < (2 :: nat) ^ k" by simp
  have "unat v + (2 ^ k - 1) < 2 ^ 64" using assms(2) p by linarith
  then have "unat (v + ((2 :: usize) ^ k - 1)) = unat v + (2 ^ k - 1)"
    by (simp add: unat_add_64 s)
  then show ?thesis using unat_round_down [OF assms(1), of "v + (2 ^ k - 1)"] by (simp add: align_up_def)
qed

lemma align_up_ge: "0 < a \<Longrightarrow> v \<le> align_up a v"
proof -
  assume a: "0 < a"
  have "v + (a - 1) = align_up a v + (v + (a - 1)) mod a" by (simp add: align_up_def)
  moreover have "(v + (a - 1)) mod a \<le> a - 1" using a by (simp add: less_Suc_eq_le [symmetric])
  ultimately show ?thesis by linarith
qed

lemma align_up_le: "align_up a v \<le> v + (a - 1)"
  by (simp add: align_up_def)

lemma dvd_align_up: "a dvd align_up a v"
  by (simp add: align_up_def)

section \<open>Modules get disjoint ranges of the master block\<close>

definition tls_inv :: "tls_state \<Rightarrow> bool" where
  "tls_inv st \<longleftrightarrow> size_of_Tcb \<le> load_size (get_master_tcb st) \<and>
     load_size (get_master_tcb st) \<le> tls_off st \<and> tls_off st \<le> drop_bit 1 TLS_BLOCK_SIZE"

text \<open>A request for a module above the control block: the kernel's answers, the size and the alignment.\<close>

type_synonym tls_request = "(u64 \<Rightarrow> usize \<Rightarrow> bool) \<times> usize \<times> nat"

text \<open>
  The alignment is a power of two, and the size does not reach the end of the word from it or from half a block: the end of the
  module is then computed without wrapping, whatever the cursor is.
\<close>

definition no_wrap :: "usize \<Rightarrow> nat \<Rightarrow> bool" where
  "no_wrap tls_size k \<longleftrightarrow> k < 64 \<and> max (2 ^ k) (2 ^ 25) + unat tls_size < 2 ^ 64"

definition tls_valid :: "tls_request \<Rightarrow> bool" where
  "tls_valid r = (case r of (mprotect, tls_size, k) \<Rightarrow> no_wrap tls_size k)"

definition tls_request :: "tls_request \<Rightarrow> tls_state \<Rightarrow> (nat \<times> nat) option \<times> tls_state" where
  "tls_request r st =
     (case r of (mprotect, tls_size, k) \<Rightarrow>
        case alloc_tls mprotect tls_size (2 ^ k) False st of
          (Inl e, st') \<Rightarrow> (None, st')
        | (Inr m, st') \<Rightarrow> (Some (unat m, unat m + unat tls_size), st'))"

fun alloc_modules :: "tls_request list \<Rightarrow> tls_state \<Rightarrow> (nat \<times> nat) list \<times> tls_state" where
  "alloc_modules [] st = ([], st)"
| "alloc_modules (r # rs) st =
     (case tls_request r st of (b, st1) \<Rightarrow>
        case alloc_modules rs st1 of (bs, st2) \<Rightarrow> ((case b of None \<Rightarrow> bs | Some x \<Rightarrow> x # bs), st2))"

lemma half_block: "drop_bit 1 TLS_BLOCK_SIZE = 2 ^ 25"
  by (simp add: TLS_BLOCK_SIZE_def drop_bit_eq_div)

lemma unat_half_block: "unat (drop_bit (Suc 0) TLS_BLOCK_SIZE) = 2 ^ 25"
  using half_block by simp

lemma tls_inv_unat:
  "tls_inv st \<longleftrightarrow> 32 \<le> unat (load_size (get_master_tcb st)) \<and>
     unat (load_size (get_master_tcb st)) \<le> unat (tls_off st) \<and> unat (tls_off st) \<le> 2 ^ 25"
  by (simp add: tls_inv_def word_le_nat_alt unat_half_block size_of_Tcb_def)

lemma align_up_half_block:
  assumes "0 < v" "v \<le> 2 ^ 25"
  shows "align_up (2 ^ k) v \<le> max (2 ^ k) (2 ^ 25)"
proof (cases "k \<le> 25")
  case True
  have "(2 :: nat) ^ 25 = 2 ^ (25 - k) * 2 ^ k" using True by (simp flip: power_add)
  then have "(v + (2 ^ k - 1)) div 2 ^ k \<le> (2 ^ (25 - k) * 2 ^ k + (2 ^ k - 1)) div 2 ^ k"
    using assms(2) by (intro div_le_mono) simp
  also have "\<dots> = 2 ^ (25 - k)" by (subst div_mult_self3) simp_all
  finally have "align_up (2 ^ k) v \<le> 2 ^ (25 - k) * 2 ^ k" unfolding align_up_def by (rule mult_le_mono1)
  also have "\<dots> = 2 ^ 25" using True by (simp flip: power_add)
  finally show ?thesis by simp
next
  case False
  then have "(2 :: nat) ^ 25 \<le> 2 ^ k" by (intro power_increasing) simp_all
  then have "v + (2 ^ k - 1) < 2 * 2 ^ k" using assms(2) by simp
  then have "(v + (2 ^ k - 1)) div 2 ^ k < 2" by (simp add: less_mult_imp_div_less)
  then have "(v + (2 ^ k - 1)) div 2 ^ k \<le> 1" by simp
  then have "align_up (2 ^ k) v \<le> 1 * 2 ^ k" unfolding align_up_def by (rule mult_le_mono1)
  then show ?thesis by simp
qed

lemma tls_next_eq:
  assumes "0 < unat v" "unat v \<le> 2 ^ 25" "no_wrap tls_size k"
  shows "unat ((v + ((2 :: usize) ^ k - 1)) AND NOT (2 ^ k - 1)) = align_up (2 ^ k) (unat v)"
    and "align_up (2 ^ k) (unat v) + unat tls_size \<le> 2 ^ 25 \<Longrightarrow>
         tls_next tls_size (2 ^ k) v = Some (((v + (2 ^ k - 1)) AND NOT (2 ^ k - 1)) + tls_size)"
    and "2 ^ 25 < align_up (2 ^ k) (unat v) + unat tls_size \<Longrightarrow> tls_next tls_size (2 ^ k) v = None"
    and "unat (((v + ((2 :: usize) ^ k - 1)) AND NOT (2 ^ k - 1)) + tls_size) =
         align_up (2 ^ k) (unat v) + unat tls_size"
proof -
  have k: "k < 64" "max (2 ^ k) (2 ^ 25) + unat tls_size < 2 ^ 64" using assms(3) by (simp_all add: no_wrap_def)
  then have k63: "(2 :: nat) ^ k \<le> 2 ^ 63" by (intro power_increasing) auto
  show a: "unat ((v + ((2 :: usize) ^ k - 1)) AND NOT (2 ^ k - 1)) = align_up (2 ^ k) (unat v)"
    using assms(2) k(1) k63 by (intro unat_round_up) auto
  have "align_up (2 ^ k) (unat v) + unat tls_size < 2 ^ 64" using align_up_half_block [OF assms(1,2), of k] k(2) by linarith
  then show s: "unat (((v + ((2 :: usize) ^ k - 1)) AND NOT (2 ^ k - 1)) + tls_size) =
      align_up (2 ^ k) (unat v) + unat tls_size"
    by (subst unat_add_64) (simp_all add: a)
  show "tls_next tls_size (2 ^ k) v = Some (((v + (2 ^ k - 1)) AND NOT (2 ^ k - 1)) + tls_size)"
    if "align_up (2 ^ k) (unat v) + unat tls_size \<le> 2 ^ 25"
    using that unfolding tls_next_def Let_def by (simp add: word_less_nat_alt unat_half_block s)
  show "tls_next tls_size (2 ^ k) v = None"
    if "2 ^ 25 < align_up (2 ^ k) (unat v) + unat tls_size"
    using that unfolding tls_next_def Let_def by (simp add: word_less_nat_alt unat_half_block s)
qed

lemma alloc_tls_full:
  assumes "0 < unat (tls_off st)" "unat (tls_off st) \<le> 2 ^ 25" "no_wrap tls_size k"
    and "2 ^ 25 < align_up (2 ^ k) (unat (tls_off st)) + unat tls_size"
  shows "alloc_tls mprotect tls_size (2 ^ k) False st = (Inl AllocError, st)"
  by (simp add: alloc_tls_def tls_next_eq(3) [OF assms])

text \<open>
  The functional behaviour of an allocation that fits: the module starts at the aligned cursor, the
  pages from the cursor's page to the module's end are made accessible, and the master's load size grows
  by as much as the cursor.
\<close>

lemma alloc_tls_fits:
  fixes st :: tls_state and tls_size :: usize and k :: nat
  defines "m \<equiv> (tls_off st + (2 ^ k - 1)) AND NOT (2 ^ k - 1)"
  assumes v: "0 < unat (tls_off st)" "unat (tls_off st) \<le> 2 ^ 25" "no_wrap tls_size k"
    and fits: "align_up (2 ^ k) (unat (tls_off st)) + unat tls_size \<le> 2 ^ 25"
  shows "alloc_tls mprotect tls_size (2 ^ k) False st =
     (if mprotect (tls_mc st + page_down (tls_off st)) (m + tls_size - page_down (tls_off st))
      then (Inr m, st\<lparr> tls_off := m + tls_size,
              tcb_at := (tcb_at st)(tls_mc st := (get_master_tcb st)
                \<lparr> load_size := load_size (get_master_tcb st) + (m + tls_size - tls_off st),
                  version := version (get_master_tcb st) + 1 \<rparr>) \<rparr>)
      else (Inl AllocError, st\<lparr> tls_off := m + tls_size \<rparr>))"
  using tls_next_eq(2) [OF v fits]
  by (simp add: alloc_tls_def m_def Let_def page_down_def get_master_tcb_def algebra_simps)

lemma tls_request_ok:
  assumes "tls_inv st" "tls_valid r" "tls_request r st = (b, st')"
  shows "tls_inv st' \<and> unat (tls_off st) \<le> unat (tls_off st') \<and>
    (case b of None \<Rightarrow> True
     | Some (lo, hi) \<Rightarrow> unat (tls_off st) \<le> lo \<and> lo \<le> hi \<and> hi \<le> unat (tls_off st'))"
proof -
  obtain mp sz k where r: "r = (mp, sz, k)" by (cases r)
  have v: "0 < unat (tls_off st)" "unat (tls_off st) \<le> 2 ^ 25" "no_wrap sz k"
    using assms(1,2) by (auto simp: tls_inv_unat tls_valid_def r)
  let ?m = "(tls_off st + (2 ^ k - 1)) AND NOT (2 ^ k - 1)"
  show ?thesis
  proof (cases "align_up (2 ^ k) (unat (tls_off st)) + unat sz \<le> 2 ^ 25")
    case False
    then have "alloc_tls mp sz (2 ^ k) False st = (Inl AllocError, st)" using v by (intro alloc_tls_full) auto
    then show ?thesis using assms by (auto simp: tls_request_def r)
  next
    case True
    note s = tls_next_eq(4) [OF v] and a = tls_next_eq(1) [OF v]
    have le: "unat (tls_off st) \<le> align_up (2 ^ k) (unat (tls_off st))" by (rule align_up_ge) simp
    have d: "unat (?m + sz - tls_off st) = align_up (2 ^ k) (unat (tls_off st)) + unat sz - unat (tls_off st)"
      using le by (simp add: unat_sub word_le_nat_alt s)
    have l: "unat (load_size (get_master_tcb st) + (?m + sz - tls_off st)) =
        unat (load_size (get_master_tcb st)) + unat (?m + sz - tls_off st)"
      using assms(1) True d by (intro unat_add_64) (auto simp: tls_inv_unat)
    show ?thesis
    proof (cases "mp (tls_mc st + page_down (tls_off st)) (?m + sz - page_down (tls_off st))")
      case t: True
      then have "alloc_tls mp sz (2 ^ k) False st = (Inr ?m, st\<lparr> tls_off := ?m + sz,
              tcb_at := (tcb_at st)(tls_mc st := (get_master_tcb st)
                \<lparr> load_size := load_size (get_master_tcb st) + (?m + sz - tls_off st),
                  version := version (get_master_tcb st) + 1 \<rparr>) \<rparr>)"
        by (subst alloc_tls_fits [OF v True]) simp
      with assms(3) have b: "b = Some (unat ?m, unat ?m + unat sz)"
        and st': "tls_off st' = ?m + sz" "load_size (get_master_tcb st') = load_size (get_master_tcb st) + (?m + sz - tls_off st)"
        by (auto simp: tls_request_def r get_master_tcb_def)
      show ?thesis using assms(1) le True
        unfolding b st' a s tls_inv_unat l d option.case prod.case by linarith
    next
      case False
      then have "alloc_tls mp sz (2 ^ k) False st = (Inl AllocError, st\<lparr> tls_off := ?m + sz \<rparr>)"
        by (subst alloc_tls_fits [OF v True]) simp
      with assms(3) have "b = None" "tls_off st' = ?m + sz" "get_master_tcb st' = get_master_tcb st"
        by (auto simp: tls_request_def r get_master_tcb_def)
      then show ?thesis using assms(1) le True by (simp add: a s tls_inv_unat)
    qed
  qed
qed

interpretation tls: cursor_alloc tls_inv tls_valid "\<lambda>st. unat (tls_off st)" tls_request
  by unfold_locales (rule tls_request_ok)

lemma alloc_modules_eq: "alloc_modules rs st = tls.requests rs st"
  by (induction rs arbitrary: st) (auto split: prod.splits)


lemma add_pow2_round: "(z + 2 ^ k :: usize) AND NOT (mask k) = (z AND NOT (mask k)) + 2 ^ k"
proof -
  have "take_bit k (z + 2 ^ k) = take_bit k z"
  proof (cases "k < 64")
    case True
    then have "(2 :: nat) ^ k dvd 2 ^ 64" by (intro le_imp_power_dvd) simp
    then have "(unat z + 2 ^ k) mod 2 ^ 64 mod 2 ^ k = unat z mod 2 ^ k" by (simp add: mod_mod_cancel)
    then show ?thesis
      using True by (simp add: word_unat_eq_iff unsigned_take_bit_eq take_bit_eq_mod unat_word_ariths unat_pow2)
  next
    case False
    then show ?thesis by (simp add: exp_eq_zero_iff [of k, THEN iffD2])
  qed
  then show ?thesis unfolding and_not_mask_eq by (simp add: take_bit_eq_mask)
qed

lemma minus_round_down: "- ((- s :: usize) AND NOT (mask k)) = (s + mask k) AND NOT (mask k)"
proof -
  let ?z = "NOT (- s)"
  have "(?z AND NOT (mask k)) + mask k = (?z AND NOT (mask k)) OR mask k"
    by (rule disjunctive_add_eq_or) (auto intro!: bit_eqI simp: bit_simps)
  also have "\<dots> = NOT ((- s) AND NOT (mask k))"
    by (rule bit_word_eqI) (auto simp: bit_simps)
  finally have "- ((- s) AND NOT (mask k)) = (?z AND NOT (mask k)) + mask k + 1"
    by (simp add: minus_eq_not_plus_1)
  also have "\<dots> = (?z AND NOT (mask k)) + 2 ^ k" by (simp add: mask_eq_exp_minus_1)
  also have "\<dots> = (?z + 2 ^ k) AND NOT (mask k)" by (rule add_pow2_round [symmetric])
  also have "?z + 2 ^ k = s + mask k" by (simp add: not_eq_complement mask_eq_exp_minus_1)
  finally show ?thesis .
qed

lemma alloc_tls_exec:
  assumes "unat tls_size + 2 ^ k \<le> 2 ^ 25" "k \<le> 25"
  shows "\<exists>m. alloc_tls (\<lambda>a n. True) tls_size (2 ^ k) True st =
      (Inr (- m), st\<lparr> tcb_at := (tcb_at st)(tls_mc st := (get_master_tcb st)
         \<lparr> dyn_size := m, version := version (get_master_tcb st) + 1 \<rparr>) \<rparr>) \<and>
    unat m = align_up (2 ^ k) (unat tls_size)"
proof -
  let ?v = "(- tls_size) AND NOT (2 ^ k - 1)"
  have m: "(2 ^ k - 1 :: usize) = mask k" by (simp add: mask_eq_exp_minus_1)
  have "(?v + (2 ^ k - 1)) AND NOT (2 ^ k - 1) = ?v"
  proof -
    have "?v + mask k = ?v OR mask k"
      unfolding m by (rule disjunctive_add_eq_or) (auto intro!: bit_eqI simp: bit_simps)
    then show ?thesis unfolding m by (auto intro!: bit_eqI simp: bit_simps)
  qed
  moreover have "?v = - ((tls_size + (2 ^ k - 1)) AND NOT (2 ^ k - 1))"
    unfolding m minus_round_down [symmetric] by simp
  moreover have "unat ((tls_size + (2 ^ k - 1)) AND NOT (2 ^ k - 1)) = align_up (2 ^ k) (unat tls_size)"
    using assms by (intro unat_round_up) auto
  ultimately show ?thesis
    by (intro exI [of _ "- ?v"]) (simp add: alloc_tls_def Let_def)
qed


section \<open>Threads catch up with the master block\<close>

definition tls_apart :: "u64 \<Rightarrow> u64 \<Rightarrow> bool" where
  "tls_apart mc tp \<longleftrightarrow> TLS_BLOCK_SIZE \<le> tp - mc \<and> TLS_BLOCK_SIZE \<le> mc - tp"

text \<open>A thread's control block is one that \<open>set_tp\<close> wrote and that is not ahead of the master's.\<close>

definition thread_ok :: "u64 \<Rightarrow> tls_state \<Rightarrow> bool" where
  "thread_ok tp st \<longleftrightarrow> tls_apart (tls_mc st) tp \<and> tls_base (tcb_at st tp) = tp \<and>
     size_of_Tcb \<le> load_size (tcb_at st tp) \<and> load_size (tcb_at st tp) \<le> load_size (get_master_tcb st) \<and>
     dyn_size (tcb_at st tp) \<le> dyn_size (get_master_tcb st) \<and>
     dyn_size (get_master_tcb st) \<le> drop_bit 1 TLS_BLOCK_SIZE \<and>
     version (tcb_at st tp) \<le> version (get_master_tcb st)"

lemma copy_block_hit:
  "lo \<le> x \<Longrightarrow> x < hi \<Longrightarrow> copy_block m (s + lo) (d + lo) (hi - lo) (d + x) = m (s + x)" for x :: u64
proof -
  assume a: "lo \<le> x" "x < hi"
  then have "x - lo < hi - lo"
    by (simp add: word_less_nat_alt word_le_nat_alt unat_sub diff_less_mono)
  then show ?thesis by (simp add: copy_block_def)
qed

lemma copy_block_below:
  "x < lo \<Longrightarrow> lo \<le> hi \<Longrightarrow> copy_block m s (d + lo) (hi - lo) (d + x) = m (d + x)" for x :: u64
proof -
  assume a: "x < lo" "lo \<le> hi"
  have "unat (x - lo) = unat x + 2 ^ 64 - unat lo"
    using a unat_lt_64 [of lo] by (simp add: unat_sub_if' word_less_nat_alt)
  moreover have "unat (hi - lo) = unat hi - unat lo" using a by (simp add: unat_sub)
  ultimately have "\<not> x - lo < hi - lo"
    using unat_lt_64 [of hi] a by (simp add: word_less_nat_alt word_le_nat_alt)
  then show ?thesis by (simp add: copy_block_def)
qed

lemma copy_block_above:
  assumes "unat (x :: u64) \<le> 2 ^ 25" "unat D \<le> 2 ^ 25" "e \<le> D"
  shows "copy_block m s (d - D) (D - e) (d + x) = m (d + x)"
proof -
  have "unat (x + D) = unat x + unat D" using assms by (intro unat_add_64) simp
  moreover have "unat (D - e) = unat D - unat e" using assms(3) by (simp add: unat_sub)
  ultimately have "\<not> x + D < D - e" by (simp add: word_less_nat_alt)
  then show ?thesis by (simp add: copy_block_def)
qed

lemma tls_apart_neq: "tls_apart mc tp \<Longrightarrow> tp \<noteq> mc"
  by (auto simp: tls_apart_def TLS_BLOCK_SIZE_def)

lemma update_tls_granted:
  assumes t: "thread_ok tp st"
  obtains st' where "update_tls (\<lambda>a n. True) tp st = Some st'"
    "tls_base (tcb_at st' tp) = tp"
    "load_size (tcb_at st' tp) = load_size (get_master_tcb st)"
    "dyn_size (tcb_at st' tp) = dyn_size (get_master_tcb st)"
    "version (tcb_at st' tp) = version (get_master_tcb st)"
    "\<And>x. load_size (tcb_at st tp) \<le> x \<Longrightarrow> x < load_size (get_master_tcb st) \<Longrightarrow> unat x \<le> 2 ^ 25 \<Longrightarrow>
       tls_mem st' (tp + x) = tls_mem st (tls_mc st + x)"
    "\<And>x. x < load_size (tcb_at st tp) \<Longrightarrow> unat x \<le> 2 ^ 25 \<Longrightarrow> tls_mem st' (tp + x) = tls_mem st (tp + x)"
proof -
  let ?t = "tcb_at st tp" and ?m = "get_master_tcb st"
  have ne: "tp \<noteq> tls_mc st" using t by (auto simp: thread_ok_def dest: tls_apart_neq)
  have le: "load_size ?t \<le> load_size ?m" "dyn_size ?t \<le> dyn_size ?m" and D: "unat (dyn_size ?m) \<le> 2 ^ 25"
    using t by (auto simp: thread_ok_def word_le_nat_alt [of _ "drop_bit _ _"] unat_half_block)
  define mem1 where "mem1 = (if load_size ?t < load_size ?m
     then copy_block (tls_mem st) (tls_mc st + load_size ?t) (tp + load_size ?t) (load_size ?m - load_size ?t)
     else tls_mem st)"
  define st1 where "st1 = st\<lparr> tls_mem := mem1, tcb_at := (tcb_at st)(tp := ?t\<lparr> load_size := load_size ?m \<rparr>) \<rparr>"
  define mem2 where "mem2 = (if dyn_size ?t < dyn_size ?m
     then copy_block mem1 (tls_mc st - dyn_size ?m) (tp - dyn_size ?m) (dyn_size ?m - dyn_size ?t)
     else mem1)"
  define st2 where "st2 = st\<lparr> tls_mem := mem2,
     tcb_at := (tcb_at st)(tp := ?t\<lparr> load_size := load_size ?m, dyn_size := dyn_size ?m \<rparr>) \<rparr>"
  have s: "load_size ?m = load_size ?t" if "\<not> load_size ?t < load_size ?m" using le(1) that by simp
  have d: "dyn_size ?m = dyn_size ?t" if "\<not> dyn_size ?t < dyn_size ?m" using le(2) that by simp
  have m1: "get_master_tcb st1 = ?m" using ne by (simp add: get_master_tcb_def st1_def)
  have m2: "get_master_tcb st2 = ?m" using ne by (simp add: get_master_tcb_def st2_def)
  have 1: "update_static (\<lambda>a n. True) tp st = Some st1"
    using s by (auto simp: update_static_def Let_def st1_def mem1_def)
  have 2: "update_dynamic (\<lambda>a n. True) tp st1 = Some st2"
    using d m1 by (auto simp: update_dynamic_def Let_def st1_def st2_def mem2_def)
  define st3 where "st3 = st2\<lparr> tcb_at := (tcb_at st2)(tp := (tcb_at st2 tp)\<lparr> version := version ?m \<rparr>) \<rparr>"
  have 3: "update_tls (\<lambda>a n. True) tp st = Some st3"
    using t by (simp add: update_tls_def get_tp_def thread_ok_def 1 2 st3_def m2)
  have above: "mem2 (tp + x) = mem1 (tp + x)" if "unat x \<le> 2 ^ 25" for x
    using copy_block_above [OF that D le(2)] by (simp add: mem2_def)
  show thesis
  proof (rule that [OF 3])
    show "tls_mem st3 (tp + x) = tls_mem st (tls_mc st + x)"
      if "load_size ?t \<le> x" "x < load_size ?m" "unat x \<le> 2 ^ 25" for x
      using order.strict_trans1 [OF that(1,2)] copy_block_hit [OF that(1,2)] above [OF that(3)]
      by (simp add: st3_def st2_def mem1_def)
    show "tls_mem st3 (tp + x) = tls_mem st (tp + x)" if "x < load_size ?t" "unat x \<le> 2 ^ 25" for x
      using that copy_block_below [OF that(1) le(1)] above [OF that(2)]
      by (simp add: st3_def st2_def mem1_def)
  qed (use t in \<open>simp_all add: st3_def st2_def thread_ok_def\<close>)
qed


lemma write_image_hit:
  "i < length img \<Longrightarrow> length img < 2 ^ 64 \<Longrightarrow> write_image m img d (d + of_nat i) = img ! i"
  by (simp add: write_image_def unat_of_nat_64)

lemma write_image_apart:
  assumes "tls_apart mc tp" "unat x \<le> 2 ^ 25" "unat off + length img \<le> 2 ^ 25"
  shows "write_image m img (mc + off) (tp + x) = m (tp + x)"
proof -
  let ?d = "tp - mc"
  have d: "2 ^ 26 \<le> unat ?d" using assms(1) by (simp add: tls_apart_def TLS_BLOCK_SIZE_def word_le_nat_alt)
  have "unat (- ?d) = 2 ^ 64 - unat ?d" using d unat_sub_if' [of 0 ?d] by (auto split: if_splits)
  moreover have "2 ^ 26 \<le> unat (- ?d)" using assms(1) by (simp add: tls_apart_def TLS_BLOCK_SIZE_def word_le_nat_alt)
  ultimately have u: "unat ?d + 2 ^ 26 \<le> 2 ^ 64" using d by simp
  have a: "unat (?d + x) = unat ?d + unat x" using u assms(2) by (intro unat_add_64) simp
  have "unat (?d + x - off) = unat ?d + unat x - unat off"
    using a d assms(3) by (simp add: unat_sub word_le_nat_alt)
  moreover have "unat (tp + x - (mc + off)) = unat (?d + x - off)" by (rule arg_cong) simp
  ultimately have "\<not> unat (tp + x - (mc + off)) < length img" using d assms(3) by simp
  then show ?thesis by (simp add: write_image_def)
qed


section \<open>Properties\<close>

text \<open>
  C36. Modules that are loaded one after the other get ranges of the master block that lie one above
  the other, above the control block and inside the block, whichever of the kernel's answers are refusals and whichever
  requests are too large, as long as each alignment is a power of two and each size leaves the computed end of the module
  within 64 bits; the loader's invariant is kept.
\<close>

theorem alloc_modules_apart:
  assumes "tls_inv st" "list_all tls_valid rs" "alloc_modules rs st = (bs, st')"
  shows "tls_inv st' \<and> sorted_wrt (\<lambda>x y. snd x \<le> fst y) bs \<and>
    (\<forall>(lo, hi) \<in> set bs. unat (tls_off st) \<le> lo \<and> lo \<le> hi \<and> hi \<le> 2 ^ 25)"
proof -
  have a: "tls_inv st'" "sorted_wrt (\<lambda>x y. snd x \<le> fst y) bs"
    "\<forall>(lo, hi) \<in> set bs. unat (tls_off st) \<le> lo \<and> lo \<le> hi \<and> hi \<le> unat (tls_off st')"
    using tls.requests_apart [OF assms(1,2) assms(3) [unfolded alloc_modules_eq]] by blast+
  have "unat (tls_off st') \<le> 2 ^ 25" using a(1) by (simp add: tls_inv_unat)
  then show ?thesis using a by fastforce
qed

definition start_state :: "u64 \<Rightarrow> tls_state" where
  "start_state mc = setup_tls_mc mc \<lparr> tls_off = size_of_Tcb, tls_mc = 0, tcb_at = (\<lambda>a. fresh_tcb 0), tls_mem = (\<lambda>a. 0) \<rparr>"

definition grant :: "u64 \<Rightarrow> usize \<Rightarrow> bool" where
  "grant a n = True"

definition refuse :: "u64 \<Rightarrow> usize \<Rightarrow> bool" where
  "refuse a n = False"

lemmas tls_eval = start_state_def setup_tls_mc_def size_of_Tcb_def fresh_tcb_def get_master_tcb_def
  tls_inv_def TLS_BLOCK_SIZE_def tls_request_def alloc_tls_def tls_next_def grant_def refuse_def Let_def

theorem alloc_modules_apart_witness:
  "fst (alloc_modules [(grant, 100, 4), (refuse, 8, 3), (grant, 4096, 12)] (start_state 0x200000000)) =
     [(32, 132), (4096, 8192)] \<and>
   sorted_wrt (\<lambda>x y. snd x \<le> fst y)
     (fst (alloc_modules [(grant, 100, 4), (refuse, 8, 3), (grant, 4096, 12)] (start_state 0x200000000)))"
  using alloc_modules_apart [of "start_state 0x200000000" "[(grant, 100, 4), (refuse, 8, 3), (grant, 4096, 12)]",
      OF _ _ surjective_pairing]
  by (simp add: tls_eval tls_valid_def no_wrap_def)

text \<open>
  C4. What a module puts into its thread-local image is what a thread reads: after the module got
  its range and its image was copied to the master block, \<open>__tls_get_addr\<close> of a thread that existed before
  returns an address of the thread's own block at which the thread finds the image's byte, and the bytes
  of the modules the thread had already, all above its control block, are as it left them.
\<close>

theorem tls_module_visible:
  assumes inv: "tls_inv st" "load_size (get_master_tcb st) = tls_off st"
    and valid: "unat sz < 2 ^ 63" "k \<le> 25"
    and alloc: "alloc_tls (\<lambda>a n. True) sz (2 ^ k) False st = (Inr m, st1)"
    and img: "length img \<le> unat sz" "i < length img"
    and thr: "thread_ok tp st" "version (get_master_tcb st) < - 1"
  shows "\<exists>st2. tls_get_addr (\<lambda>a n. True) tp \<lparr> tls_module = m, tls_offset = of_nat i \<rparr> (load_tls m img st1) =
        Some (tp + m + of_nat i, st2) \<and>
      tls_mem st2 (tp + m + of_nat i) = img ! i \<and>
      (\<forall>x. x < load_size (tcb_at st tp) \<longrightarrow> tls_mem st2 (tp + x) = tls_mem st (tp + x))"
proof -
  have "(2 :: nat) ^ k \<le> 2 ^ 25" using valid(2) by (intro power_increasing) simp_all
  then have v: "0 < unat (tls_off st)" "unat (tls_off st) \<le> 2 ^ 25" "no_wrap sz k"
    using inv(1) valid by (auto simp: tls_inv_unat no_wrap_def max_def)
  let ?a = "align_up (2 ^ k) (unat (tls_off st))"
  have fits: "?a + unat sz \<le> 2 ^ 25"
    using alloc alloc_tls_full [OF v] by fastforce
  define st3 where "st3 = load_tls m img st1"
  have m: "m = (tls_off st + (2 ^ k - 1)) AND NOT (2 ^ k - 1)"
    and st1: "st1 = st\<lparr> tls_off := m + sz,
              tcb_at := (tcb_at st)(tls_mc st := (get_master_tcb st)
                \<lparr> load_size := m + sz, version := version (get_master_tcb st) + 1 \<rparr>) \<rparr>"
    using alloc unfolding alloc_tls_fits [OF v fits] by (auto simp: inv(2))
  have u: "unat m = ?a" "unat (m + sz) = ?a + unat sz"
    using tls_next_eq(1,4) [OF v] by (simp_all add: m)
  have ge: "unat (tls_off st) \<le> ?a" by (rule align_up_ge) simp
  have ne: "tp \<noteq> tls_mc st" using thr(1) by (auto simp: thread_ok_def dest: tls_apart_neq)
  have g: "get_master_tcb st3 = (get_master_tcb st)\<lparr> load_size := m + sz, version := version (get_master_tcb st) + 1 \<rparr>"
    and c: "tcb_at st3 tp = tcb_at st tp" "tls_mc st3 = tls_mc st"
    using ne by (simp_all add: st3_def load_tls_def st1 get_master_tcb_def)
  have ver: "version (get_master_tcb st) < version (get_master_tcb st) + 1"
    using thr(2) by (simp add: word_less_nat_alt unat_add_64 unat_max_usize)
  have ok: "thread_ok tp st3"
    using thr(1) ver u(2) ge fits inv(2) unfolding thread_ok_def g c
    by (auto simp: word_le_nat_alt [of "load_size _"] intro: order_trans less_imp_le)
  obtain st2 where st2: "update_tls (\<lambda>a n. True) tp st3 = Some st2" "tls_base (tcb_at st2 tp) = tp"
    "\<And>x. load_size (tcb_at st tp) \<le> x \<Longrightarrow> x < m + sz \<Longrightarrow> unat x \<le> 2 ^ 25 \<Longrightarrow> tls_mem st2 (tp + x) = tls_mem st3 (tls_mc st + x)"
    "\<And>x. x < load_size (tcb_at st tp) \<Longrightarrow> unat x \<le> 2 ^ 25 \<Longrightarrow> tls_mem st2 (tp + x) = tls_mem st3 (tp + x)"
    by (rule update_tls_granted [OF ok]) (simp_all add: g c)
  have old: "unat (load_size (tcb_at st tp)) \<le> unat (tls_off st)"
    using thr(1) inv(2) by (simp add: thread_ok_def word_le_nat_alt)
  have mi: "unat (m + of_nat i) = ?a + i"
    using u(1) img fits by (subst unat_add_64) (simp_all add: unat_of_nat_64)
  have "tls_mem st2 (tp + (m + of_nat i)) = tls_mem st3 (tls_mc st + (m + of_nat i))"
    using old ge mi u(2) img fits by (intro st2(3)) (simp_all add: word_le_nat_alt word_less_nat_alt)
  also have "\<dots> = img ! i"
    using img fits by (simp add: st3_def load_tls_def st1 add.assoc [symmetric] write_image_hit)
  finally have hit: "tls_mem st2 (tp + m + of_nat i) = img ! i" by (simp add: add.assoc)
  have keep: "tls_mem st2 (tp + x) = tls_mem st (tp + x)" if x: "x < load_size (tcb_at st tp)" for x
  proof -
    have b: "unat x \<le> 2 ^ 25" using x old v(2) by (simp add: word_less_nat_alt)
    have "tls_mem st3 (tp + x) = tls_mem st (tp + x)"
      using thr(1) b u(1) fits img
      by (simp add: st3_def load_tls_def st1 write_image_apart thread_ok_def)
    then show ?thesis using st2(4) [OF x b] by simp
  qed
  have "version (get_master_tcb st3) \<noteq> version (tcb_at st3 tp)"
    using thr(1) ver by (auto simp: g c thread_ok_def)
  then have "tls_get_addr (\<lambda>a n. True) tp \<lparr> tls_module = m, tls_offset = of_nat i \<rparr> st3 =
      Some (tp + m + of_nat i, st2)"
    by (simp add: tls_get_addr_def st2(1,2) algebra_simps)
  with hit keep show ?thesis unfolding st3_def by blast
qed


definition two_blocks :: tls_state where
  "two_blocks = (let st = start_state 0x200000000
     in st\<lparr> tcb_at := (tcb_at st)(0x300000000 := fresh_tcb 0x300000000) \<rparr>)"

theorem tls_module_visible_witness:
  "\<exists>st2. tls_get_addr (\<lambda>a n. True) 0x300000000 \<lparr> tls_module = 32, tls_offset = 1 \<rparr>
       (load_tls 32 [7, 8, 9] (snd (alloc_tls (\<lambda>a n. True) 16 (2 ^ 4) False two_blocks))) =
     Some (0x300000021, st2) \<and> tls_mem st2 0x300000021 = 8"
proof -
  have a: "alloc_tls (\<lambda>a n. True) 16 (2 ^ 4) False two_blocks =
      (Inr 32, snd (alloc_tls (\<lambda>a n. True) 16 (2 ^ 4) False two_blocks))"
    by (simp add: two_blocks_def tls_eval)
  have "\<exists>st2. tls_get_addr (\<lambda>a n. True) 0x300000000 \<lparr> tls_module = 32, tls_offset = of_nat 1 \<rparr>
       (load_tls 32 [7, 8, 9] (snd (alloc_tls (\<lambda>a n. True) 16 (2 ^ 4) False two_blocks))) =
     Some (0x300000000 + 32 + of_nat 1, st2) \<and> tls_mem st2 (0x300000000 + 32 + of_nat 1) = [7, 8, 9] ! 1 \<and>
     (\<forall>x. x < load_size (tcb_at two_blocks 0x300000000) \<longrightarrow>
        tls_mem st2 (0x300000000 + x) = tls_mem two_blocks (0x300000000 + x))"
    by (rule tls_module_visible [OF _ _ _ _ a])
      (simp_all add: two_blocks_def tls_eval thread_ok_def tls_apart_def word_less_nat_alt unat_max_usize)
  then show ?thesis by auto
qed

section \<open>Further facts\<close>

text \<open>
  A refused \<open>mprotect\<close> moves the cursor but not the master's load size. The next module is then placed
  above the load size its allocation leaves, so threads do not copy its last bytes.
\<close>

theorem load_size_lags:
  "case alloc_modules [(refuse, 64, 3), (grant, 16, 3)] (start_state 0x200000000) of
     (bs, st) \<Rightarrow> bs = [(96, 112)] \<and> load_size (get_master_tcb st) = 48"
  by (simp add: tls_eval)

text \<open>
  Beyond these requests the cursor is lost. The loader is compiled without overflow checks: a size that makes the computed end wrap
  passes the test against the block, so the cursor goes back, even when the kernel then refuses the pages; the next
  module can be placed inside the control block. An alignment of 0, which the ELF format allows, sends the cursor back to the size
  of the module, and the module is placed at the control block itself.
\<close>

theorem tls_cursor_wraps:
  assumes "tls_inv st" "k < 64" "unat (tls_off st) + 2 ^ k \<le> 2 ^ 64"
    and "2 ^ 64 \<le> align_up (2 ^ k) (unat (tls_off st)) + unat sz"
    and "align_up (2 ^ k) (unat (tls_off st)) + unat sz - 2 ^ 64 \<le> 2 ^ 25"
  shows "\<exists>st'. alloc_tls refuse sz (2 ^ k) False st = (Inl AllocError, st') \<and>
      unat (tls_off st') = align_up (2 ^ k) (unat (tls_off st)) + unat sz - 2 ^ 64"
    and "unat n \<le> 2 ^ 25 \<Longrightarrow> \<exists>st'. alloc_tls grant n 0 False st = (Inr 0, st') \<and> tls_off st' = n"
proof -
  let ?m = "(tls_off st + ((2 :: usize) ^ k - 1)) AND NOT (2 ^ k - 1)"
  have m: "unat ?m = align_up (2 ^ k) (unat (tls_off st))" using assms(2,3) by (rule unat_round_up)
  have "unat (?m + sz) = (unat ?m + unat sz) mod 2 ^ 64" by (simp add: unat_word_ariths)
  also have "\<dots> = align_up (2 ^ k) (unat (tls_off st)) + unat sz - 2 ^ 64"
    using assms(4,5) by (simp add: m le_mod_geq)
  finally have s: "unat (?m + sz) = align_up (2 ^ k) (unat (tls_off st)) + unat sz - 2 ^ 64" .
  then have "tls_next sz (2 ^ k) (tls_off st) = Some (?m + sz)"
    using assms(5) unfolding tls_next_def Let_def by (simp add: word_less_nat_alt unat_half_block)
  then show "\<exists>st'. alloc_tls refuse sz (2 ^ k) False st = (Inl AllocError, st') \<and>
      unat (tls_off st') = align_up (2 ^ k) (unat (tls_off st)) + unat sz - 2 ^ 64"
    using s by (simp add: alloc_tls_def refuse_def Let_def)
  have "tls_next n 0 (tls_off st) = Some n" if "unat n \<le> 2 ^ 25"
    using that by (simp add: tls_next_def Let_def word_less_nat_alt unat_half_block)
  then show "unat n \<le> 2 ^ 25 \<Longrightarrow> \<exists>st'. alloc_tls grant n 0 False st = (Inr 0, st') \<and> tls_off st' = n"
    by (simp add: alloc_tls_def grant_def Let_def)
qed

theorem tls_cursor_wraps_example:
  "fst (alloc_modules [(refuse, - 16, 4), (grant, 16, 4)] (start_state 0x200000000)) = [(16, 32)]"
  by (simp add: tls_eval)

text \<open>
  A module gets the old base address when the kernel maps it there; the base moves by the length rounded
  up to pages even when the mapping fails, and the other search type's base stays.
\<close>

theorem alloc_base_addr_behaviour:
  assumes "alloc_base_addr mmap search max_pma b = (r, b')" "unat max_pma + 4095 < 2 ^ 64"
    and "unat (base_of search b) + unat (page_up max_pma) < 2 ^ 64"
    and "\<And>p n q. mmap p n = Inr q \<Longrightarrow> q = p"
  shows "unat (base_of search b') = unat (base_of search b) + (unat max_pma + 4095) div 4096 * 4096"
    and "s \<noteq> search \<Longrightarrow> base_of s b' = base_of s b"
    and "r = Inl AllocError \<or> r = Inr (base_of search b)"
proof -
  have "base_of search b' = base_of search b + page_up max_pma"
    using assms(1) by (auto simp: alloc_base_addr_def base_of_def page_up_def Let_def split: SearchType.splits sum.splits)
  then show "unat (base_of search b') = unat (base_of search b) + (unat max_pma + 4095) div 4096 * 4096"
    using assms(2,3) by (simp add: unat_add_64 unat_page_up)
  show "s \<noteq> search \<Longrightarrow> base_of s b' = base_of s b"
    using assms(1) by (auto simp: alloc_base_addr_def base_of_def Let_def split: SearchType.splits sum.splits)
  show "r = Inl AllocError \<or> r = Inr (base_of search b)"
  proof (cases "mmap (base_of search b) ((max_pma + 4095) AND NOT 4095)")
    case (Inr q)
    then show ?thesis using assms(1) assms(4) [OF Inr] by (simp add: alloc_base_addr_def Let_def)
  qed (use assms(1) in \<open>simp add: alloc_base_addr_def Let_def\<close>)
qed

end
