(* ===== verification/WL_Phdrs.thy ===== *)
theory WL_Phdrs
  imports WL_Tls WL_Io
begin

text \<open>
  Mapping the segments of a module (\<open>map_phdrs\<close> of \<open>wl-ld-lilium/src/loader.rs\<close>). The address space is
  a byte and a protection for every address. The kernel's answers are parameters, and so are the
  protection bits and segment flags, which come from the kernel's headers and from \<open>ld_so_impl\<close>.
\<close>

section \<open>Segments and the address space\<close>

record phdr =
  p_paddr :: u64
  p_memsz :: usize
  p_filesz :: usize
  p_offset :: usize
  p_flags :: u32

record seg_abi =
  prot_read :: u32
  prot_write :: u32
  prot_exec :: u32
  PF_W :: u32
  PF_X :: u32

record image =
  im_mem :: "u64 \<Rightarrow> u8"
  im_prot :: "u64 \<Rightarrow> u32"

text \<open>
  The kernel with an open module: whether it grants \<open>mprotect\<close> and \<open>mmap\<close>, how it answers a seek and
  the reads after it, and what the file holds at an offset (zero behind its end).
\<close>

record load_kernel =
  grants_mprotect :: "u64 \<Rightarrow> usize \<Rightarrow> u32 \<Rightarrow> bool"
  grants_mmap :: "u64 \<Rightarrow> usize \<Rightarrow> usize \<Rightarrow> bool"
  seek_reads :: "u64 \<Rightarrow> errno + read_answer list"
  file_at :: "usize \<Rightarrow> u8"

definition protect :: "u64 \<Rightarrow> usize \<Rightarrow> u32 \<Rightarrow> image \<Rightarrow> image" where
  "protect a len p im = im\<lparr> im_prot := (\<lambda>x. if x - a < page_up len then p else im_prot im x) \<rparr>"

definition map_file :: "(usize \<Rightarrow> u8) \<Rightarrow> u64 \<Rightarrow> usize \<Rightarrow> u32 \<Rightarrow> usize \<Rightarrow> image \<Rightarrow> image" where
  "map_file f a len p off im =
     \<lparr> im_mem = (\<lambda>x. if x - a < page_up len then f (off + (x - a)) else im_mem im x),
       im_prot = (\<lambda>x. if x - a < page_up len then p else im_prot im x) \<rparr>"

definition write_zeros :: "u64 \<Rightarrow> usize \<Rightarrow> image \<Rightarrow> image" where
  "write_zeros a len im = im\<lparr> im_mem := (\<lambda>x. if x - a < len then 0 else im_mem im x) \<rparr>"

definition slice_at :: "image \<Rightarrow> u64 \<Rightarrow> usize \<Rightarrow> bytes" where
  "slice_at im a len = map (\<lambda>i. im_mem im (a + of_nat i)) [0..<unat len]"

definition put_slice :: "u64 \<Rightarrow> bytes \<Rightarrow> image \<Rightarrow> image" where
  "put_slice a bs im = im\<lparr> im_mem := write_image (im_mem im) bs a \<rparr>"

section \<open>The loop over the segments\<close>

definition segment_perms :: "seg_abi \<Rightarrow> phdr \<Rightarrow> u32" where
  "segment_perms A ph =
     (if p_flags ph AND PF_W A \<noteq> 0 then prot_read A OR prot_write A
      else if p_flags ph AND PF_X A \<noteq> 0 then prot_read A OR prot_exec A
      else prot_read A)"

text \<open>The part of a segment that lies on the last page of the one before it.\<close>

definition fill_shared_page ::
  "load_kernel \<Rightarrow> seg_abi \<Rightarrow> phdr \<Rightarrow> u64 \<Rightarrow> u64 \<Rightarrow> u32 \<Rightarrow> image \<Rightarrow> (load_error + image) run" where
  "fill_shared_page K A ph addr last_pg prot im =
     (let rw = prot_read A OR prot_write A in
      if \<not> grants_mprotect K last_pg 4096 rw then Ret (Inl LoadError)
      else let im = protect last_pg 4096 rw im;
               sz = min ((- addr) AND 4095) (p_filesz ph)
           in run_bind (read_offset (seek_reads K) (p_offset ph) (slice_at im addr sz)) (\<lambda>(r, bs).
                case r of
                  Inl _ \<Rightarrow> Ret (Inl ReadError)
                | Inr _ \<Rightarrow>
                    let im = put_slice addr bs im
                    in if \<not> grants_mprotect K last_pg 4096 prot then Ret (Inl LoadError)
                       else Ret (Inr (protect last_pg 4096 prot im))))"

text \<open>The part that is mapped from the file: \<open>todo!()\<close> when file and address are not congruent.\<close>

definition map_segment ::
  "load_kernel \<Rightarrow> seg_abi \<Rightarrow> phdr \<Rightarrow> u64 \<Rightarrow> usize \<Rightarrow> usize \<Rightarrow> usize \<Rightarrow> image \<Rightarrow> (load_error + image) run" where
  "map_segment K A ph addr len file_len off im =
     (if addr AND 4095 \<noteq> p_offset ph AND 4095 then Panic
      else let rw = prot_read A OR prot_write A;
               f_offset = page_down off;
               extra_len = off - f_offset;
               adjusted_len = extra_len + file_len;
               file_start = page_down addr
           in if \<not> grants_mmap K file_start adjusted_len f_offset then Ret (Inl LoadError)
              else let im = map_file (file_at K) file_start adjusted_len rw f_offset im;
                       im = write_zeros file_start (addr - file_start) im;
                       file_end = addr + file_len;
                       seg_end = addr + len;
                       im = write_zeros file_end (seg_end - file_end) im
                   in if \<not> grants_mprotect K file_start (extra_len + len) (segment_perms A ph)
                      then Ret (Inl LoadError)
                      else Ret (Inr (protect file_start (extra_len + len) (segment_perms A ph) im)))"

definition saturating_sub :: "usize \<Rightarrow> usize \<Rightarrow> usize" where
  "saturating_sub a b = (if a < b then 0 else a - b)"

type_synonym load_state = "image \<times> u64 \<times> u32"

definition map_phdr ::
  "load_kernel \<Rightarrow> seg_abi \<Rightarrow> u64 \<Rightarrow> phdr \<Rightarrow> load_state \<Rightarrow> (load_error + load_state) run" where
  "map_phdr K A base ph s =
     (case s of (im, last_addr, last_perms) \<Rightarrow>
      let addr = base + p_paddr ph;
          perms = segment_perms A ph;
          last_pg = page_down last_addr;
          shared = (page_down addr \<le> last_pg)
      in run_bind (if shared then fill_shared_page K A ph addr last_pg (perms OR last_perms) im else Ret (Inr im))
           (\<lambda>r. case r of
              Inl e \<Rightarrow> Ret (Inl e)
            | Inr im \<Rightarrow>
                let len = (if shared then saturating_sub (p_memsz ph) 4096 else p_memsz ph);
                    file_len = (if shared then saturating_sub (p_filesz ph) 4096 else p_filesz ph);
                    addr = (if shared then page_up addr else addr);
                    off = (if shared then page_up (p_offset ph) else p_offset ph)
                in if 0 < file_len
                   then run_bind (map_segment K A ph addr len file_len off im)
                     (\<lambda>r. case r of
                        Inl e \<Rightarrow> Ret (Inl e)
                      | Inr im \<Rightarrow> Ret (Inr (im, addr + len - 1, perms)))
                   else Ret (Inr (im, last_addr, last_perms))))"

fun map_phdrs_loop ::
  "load_kernel \<Rightarrow> seg_abi \<Rightarrow> u64 \<Rightarrow> phdr list \<Rightarrow> load_state \<Rightarrow> (load_error + load_state) run" where
  "map_phdrs_loop K A base [] s = Ret (Inr s)"
| "map_phdrs_loop K A base (ph # phs) s =
     run_bind (map_phdr K A base ph s) (\<lambda>r.
       case r of Inl e \<Rightarrow> Ret (Inl e) | Inr s \<Rightarrow> map_phdrs_loop K A base phs s)"

definition map_phdrs ::
  "load_kernel \<Rightarrow> seg_abi \<Rightarrow> phdr list \<Rightarrow> u64 \<Rightarrow> image \<Rightarrow> (load_error + u64 \<times> image) run" where
  "map_phdrs K A phs base im =
     run_bind (map_phdrs_loop K A base phs (im, 0, 0)) (\<lambda>r.
       case r of Inl e \<Rightarrow> Ret (Inl e) | Inr (im, last_addr, last_perms) \<Rightarrow> Ret (Inr (base, im)))"

section \<open>Ranges of addresses\<close>

lemma in_range_iff:
  "unat a + unat n \<le> 2 ^ 64 \<Longrightarrow> x - a < n \<longleftrightarrow> unat a \<le> unat x \<and> unat x < unat a + unat n"
  for x a n :: u64
proof -
  assume n: "unat a + unat n \<le> 2 ^ 64"
  show ?thesis
  proof (cases "a \<le> x")
    case True
    then have "unat (x - a) = unat x - unat a" by (simp add: unat_sub)
    then show ?thesis using True by (auto simp: word_less_nat_alt word_le_nat_alt)
  next
    case False
    then have "unat (x - a) = unat x + 2 ^ 64 - unat a"
      using unat_lt_64 [of a] by (simp add: unat_sub_if' word_le_nat_alt)
    then show ?thesis using False n by (simp add: word_less_nat_alt word_le_nat_alt)
  qed
qed

text \<open>The kernel grants everything, and the segments come in order on pages of their own.\<close>

definition grants_all :: "load_kernel \<Rightarrow> bool" where
  "grants_all K \<longleftrightarrow> (\<forall>a n p. grants_mprotect K a n p) \<and> (\<forall>a n off. grants_mmap K a n off)"

definition seg_lo :: "u64 \<Rightarrow> phdr \<Rightarrow> nat" where
  "seg_lo base ph = unat base + unat (p_paddr ph)"

definition seg_hi :: "u64 \<Rightarrow> phdr \<Rightarrow> nat" where
  "seg_hi base ph = seg_lo base ph + unat (p_memsz ph)"

definition seg_ok :: "u64 \<Rightarrow> phdr \<Rightarrow> bool" where
  "seg_ok base ph \<longleftrightarrow> 0 < p_filesz ph \<and> p_filesz ph \<le> p_memsz ph \<and>
     seg_lo base ph mod 4096 = unat (p_offset ph) mod 4096 \<and>
     seg_hi base ph + 4096 \<le> 2 ^ 64"

fun spread :: "u64 \<Rightarrow> nat \<Rightarrow> phdr list \<Rightarrow> bool" where
  "spread base prev [] \<longleftrightarrow> True"
| "spread base prev (ph # phs) \<longleftrightarrow> seg_ok base ph \<and> prev div 4096 < seg_lo base ph div 4096 \<and>
     spread base (seg_hi base ph - 1) phs"

definition seg_loaded :: "load_kernel \<Rightarrow> seg_abi \<Rightarrow> u64 \<Rightarrow> phdr \<Rightarrow> image \<Rightarrow> bool" where
  "seg_loaded K A base ph im \<longleftrightarrow>
     (\<forall>i < unat (p_memsz ph).
        im_mem im (base + p_paddr ph + of_nat i) =
          (if i < unat (p_filesz ph) then file_at K (p_offset ph + of_nat i) else 0) \<and>
        im_prot im (base + p_paddr ph + of_nat i) = segment_perms A ph)"

section \<open>One segment\<close>

lemma unat_minus_page_down: "unat (v - page_down v) = unat v mod 4096"
proof -
  have "unat (v - page_down v) = unat v - unat v div 4096 * 4096"
    using page_down_le [of v] by (simp add: unat_sub unat_page_down)
  then show ?thesis by (simp add: minus_div_mult_eq_mod)
qed

lemma seg_facts:
  assumes "seg_ok base ph"
  shows "unat (base + p_paddr ph) = seg_lo base ph"
    and "(base + p_paddr ph) - page_down (base + p_paddr ph) = p_offset ph - page_down (p_offset ph)"
    and "(base + p_paddr ph) AND 4095 = p_offset ph AND 4095"
    and "i < unat (p_memsz ph) \<Longrightarrow> unat (base + p_paddr ph + of_nat i) = seg_lo base ph + i"
proof -
  show a: "unat (base + p_paddr ph) = seg_lo base ph"
    using assms by (simp add: seg_ok_def seg_hi_def seg_lo_def unat_add_64)
  have m: "seg_lo base ph mod 4096 = unat (p_offset ph) mod 4096" using assms by (simp add: seg_ok_def)
  show "(base + p_paddr ph) - page_down (base + p_paddr ph) = p_offset ph - page_down (p_offset ph)"
    using m by (simp add: word_unat_eq_iff unat_minus_page_down a)
  show "(base + p_paddr ph) AND 4095 = p_offset ph AND 4095"
    using m by (simp add: word_unat_eq_iff and_4095 a)
  show "unat (base + p_paddr ph + of_nat i) = seg_lo base ph + i" if "i < unat (p_memsz ph)"
    using that assms unat_lt_64 [of "p_memsz ph"]
    by (subst unat_add_64) (simp_all add: a unat_of_nat_64 seg_ok_def seg_hi_def)
qed

text \<open>The pages that a range of \<open>n\<close> bytes from the page of \<open>a\<close> on covers.\<close>

lemma pages_iff:
  assumes "unat a mod 4096 = d" "unat a + unat n + 4096 \<le> 2 ^ 64" "unat e = d"
  shows "x - page_down a < page_up (e + n) \<longleftrightarrow>
    unat a div 4096 \<le> unat x div 4096 \<and> unat x < unat a div 4096 * 4096 + (d + unat n + 4095) div 4096 * 4096"
proof -
  have d: "d < 4096" "unat a = unat a div 4096 * 4096 + d" using assms(1) by auto
  have e: "unat (e + n) = d + unat n" using assms d by (simp add: unat_add_64)
  have p: "unat (page_up (e + n)) = (d + unat n + 4095) div 4096 * 4096"
    using assms d by (simp add: unat_page_up e)
  have "(d + unat n + 4095) div 4096 * 4096 \<le> d + unat n + 4095" by simp
  then have "unat (page_down a) + unat (page_up (e + n)) \<le> 2 ^ 64"
    using d assms(2) unfolding p unat_page_down by linarith
  note i = in_range_iff [OF this, of x]
  have "unat a div 4096 * 4096 \<le> unat x \<longleftrightarrow> unat a div 4096 \<le> unat x div 4096"
    by (simp add: less_eq_div_iff_mult_less_eq)
  then show ?thesis using i unfolding p unat_page_down by blast
qed

lemma round_up_ge: "(k :: nat) \<le> (k + 4095) div 4096 * 4096"
  using div_mult_mod_eq [of "k + 4095" 4096] mod_less_divisor [of 4096 "k + 4095"] by linarith

lemma below_pages:
  assumes "i < n"
  shows "unat a + i < unat a div 4096 * 4096 + (unat a mod 4096 + n + 4095) div 4096 * 4096"
proof -
  let ?k = "unat a mod 4096 + n"
  have "?k \<le> (?k + 4095) div 4096 * 4096" by (rule round_up_ge)
  moreover have "unat a = unat a div 4096 * 4096 + unat a mod 4096" by simp
  ultimately show ?thesis using assms by linarith
qed

lemma map_segment_loads:
  assumes K: "grants_all K" and s: "seg_ok base ph"
  obtains im' where
    "map_segment K A ph (base + p_paddr ph) (p_memsz ph) (p_filesz ph) (p_offset ph) im = Ret (Inr im')"
    "seg_loaded K A base ph im'"
    "\<And>x. unat x div 4096 < seg_lo base ph div 4096 \<Longrightarrow> im_mem im' x = im_mem im x \<and> im_prot im' x = im_prot im x"
proof -
  let ?a = "base + p_paddr ph" and ?lo = "seg_lo base ph" and ?e = "p_offset ph - page_down (p_offset ph)"
  note f = seg_facts [OF s]
  have fm: "p_filesz ph \<le> p_memsz ph" "unat (p_filesz ph) \<le> unat (p_memsz ph)"
    using s by (simp_all add: seg_ok_def word_le_nat_alt)
  have hi: "?lo + unat (p_memsz ph) + 4096 \<le> 2 ^ 64" using s by (simp add: seg_ok_def seg_hi_def)
  have e: "unat ?e = ?lo mod 4096" using f(1,2) unat_minus_page_down [of ?a] by simp
  have am: "unat ?a mod 4096 = ?lo mod 4096" by (simp add: f(1))
  have head: "x - page_down ?a < ?a - page_down ?a \<longleftrightarrow> ?lo div 4096 * 4096 \<le> unat x \<and> unat x < ?lo" for x
    using in_range_iff [of "page_down ?a" "?a - page_down ?a" x] hi
    by (simp add: unat_page_down unat_minus_page_down f(1))
  have fe: "unat (?a + p_filesz ph) = ?lo + unat (p_filesz ph)" using hi fm by (simp add: unat_add_64 f(1))
  have fz: "?a + p_memsz ph - (?a + p_filesz ph) = p_memsz ph - p_filesz ph" by simp
  have tail: "x - (?a + p_filesz ph) < p_memsz ph - p_filesz ph \<longleftrightarrow>
      ?lo + unat (p_filesz ph) \<le> unat x \<and> unat x < ?lo + unat (p_memsz ph)" for x
    using in_range_iff [of "?a + p_filesz ph" "p_memsz ph - p_filesz ph" x] hi fm
    by (simp add: fe unat_sub)
  have pf: "x - page_down ?a < page_up (?e + p_filesz ph) \<longleftrightarrow> ?lo div 4096 \<le> unat x div 4096 \<and>
      unat x < ?lo div 4096 * 4096 + (?lo mod 4096 + unat (p_filesz ph) + 4095) div 4096 * 4096" for x
    using pages_iff [OF am _ e, of "p_filesz ph" x] hi fm by (simp add: f(1))
  have pm: "x - page_down ?a < page_up (?e + p_memsz ph) \<longleftrightarrow> ?lo div 4096 \<le> unat x div 4096 \<and>
      unat x < ?lo div 4096 * 4096 + (?lo mod 4096 + unat (p_memsz ph) + 4095) div 4096 * 4096" for x
    using pages_iff [OF am _ e, of "p_memsz ph" x] hi by (simp add: f(1))
  let ?rw = "prot_read A OR prot_write A"
  define im1 where "im1 = write_zeros (page_down ?a) (?a - page_down ?a)
    (map_file (file_at K) (page_down ?a) (?e + p_filesz ph) ?rw (page_down (p_offset ph)) im)"
  define im2 where "im2 = protect (page_down ?a) (?e + p_memsz ph) (segment_perms A ph)
    (write_zeros (?a + p_filesz ph) (p_memsz ph - p_filesz ph) im1)"
  have r: "map_segment K A ph ?a (p_memsz ph) (p_filesz ph) (p_offset ph) im = Ret (Inr im2)"
    using K by (simp add: map_segment_def f(3) grants_all_def im2_def im1_def fz Let_def)
  have "seg_loaded K A base ph im2"
    unfolding seg_loaded_def
  proof (intro allI impI conjI)
    fix i assume i: "i < unat (p_memsz ph)"
    let ?x = "?a + of_nat i"
    have x: "unat ?x = ?lo + i" by (rule f(4) [OF i])
    have pg: "?lo div 4096 \<le> (?lo + i) div 4096" by (rule div_le_mono) simp
    show "im_prot im2 ?x = segment_perms A ph"
      using below_pages [OF i, of ?a] by (simp add: im2_def protect_def pm x pg f(1))
    have off: "page_down (p_offset ph) + (?x - page_down ?a) = p_offset ph + of_nat i"
      using f(2) by (simp add: algebra_simps)
    show "im_mem im2 ?x = (if i < unat (p_filesz ph) then file_at K (p_offset ph + of_nat i) else 0)"
      using i below_pages [of i "unat (p_filesz ph)" ?a]
      by (simp add: im2_def im1_def protect_def write_zeros_def map_file_def tail head pf x pg off f(1))
  qed
  moreover have "im_mem im2 x = im_mem im x \<and> im_prot im2 x = im_prot im x"
    if x: "unat x div 4096 < ?lo div 4096" for x
  proof -
    have l: "unat x < ?lo div 4096 * 4096" using x by (simp add: div_less_iff_less_mult)
    then have "unat x < ?lo" using div_times_less_eq_dividend [of ?lo 4096] by linarith
    then show ?thesis using x l
      by (simp add: im2_def im1_def protect_def write_zeros_def map_file_def tail head pf pm)
  qed
  ultimately show thesis by (rule that [OF r])
qed

section \<open>All segments\<close>

lemma map_phdr_loads:
  assumes K: "grants_all K" and s: "seg_ok base ph"
    and fresh: "unat la div 4096 < seg_lo base ph div 4096"
  obtains im' where "map_phdr K A base ph (im, la, lp) = Ret (Inr (im', base + p_paddr ph + p_memsz ph - 1, segment_perms A ph))"
    "unat (base + p_paddr ph + p_memsz ph - 1) = seg_hi base ph - 1"
    "seg_loaded K A base ph im'"
    "\<And>x. unat x div 4096 < seg_lo base ph div 4096 \<Longrightarrow> im_mem im' x = im_mem im x \<and> im_prot im' x = im_prot im x"
proof -
  let ?a = "base + p_paddr ph"
  have a: "unat ?a = seg_lo base ph" by (rule seg_facts(1) [OF s])
  have "\<not> page_down ?a \<le> page_down la"
    using fresh by (simp add: word_le_nat_alt unat_page_down a not_le)
  moreover have "0 < p_filesz ph" using s by (simp add: seg_ok_def)
  moreover obtain im' where im': "map_segment K A ph ?a (p_memsz ph) (p_filesz ph) (p_offset ph) im = Ret (Inr im')"
    "seg_loaded K A base ph im'"
    "\<And>x. unat x div 4096 < seg_lo base ph div 4096 \<Longrightarrow> im_mem im' x = im_mem im x \<and> im_prot im' x = im_prot im x"
    using map_segment_loads [OF K s, of A im] by blast
  ultimately have r: "map_phdr K A base ph (im, la, lp) = Ret (Inr (im', ?a + p_memsz ph - 1, segment_perms A ph))"
    by (simp add: map_phdr_def Let_def)
  have h: "unat (?a + p_memsz ph) = seg_hi base ph"
    using s by (subst unat_add_64) (simp_all add: a seg_ok_def seg_hi_def)
  have "0 < unat (p_memsz ph)"
    using s by (auto simp: seg_ok_def word_less_nat_alt word_le_nat_alt)
  then have "(1 :: u64) \<le> ?a + p_memsz ph" by (simp add: word_le_nat_alt h) (simp add: seg_hi_def)
  then have "unat (?a + p_memsz ph - 1) = seg_hi base ph - 1" by (simp add: unat_sub h)
  then show thesis using that [OF r] im'(2,3) by blast
qed

lemma spread_above:
  "spread base prev phs \<Longrightarrow> ph \<in> set phs \<Longrightarrow> prev div 4096 < seg_lo base ph div 4096"
proof (induction phs arbitrary: prev)
  case (Cons q phs)
  show ?case
  proof (cases "ph = q")
    case False
    then have "(seg_hi base q - 1) div 4096 < seg_lo base ph div 4096" using Cons by simp
    moreover have "0 < unat (p_memsz q)"
      using Cons.prems(1) by (auto simp: seg_ok_def word_less_nat_alt word_le_nat_alt)
    then have "seg_lo base q div 4096 \<le> (seg_hi base q - 1) div 4096"
      by (intro div_le_mono) (simp add: seg_hi_def)
    ultimately show ?thesis using Cons.prems(1) by simp
  qed (use Cons.prems in simp)
qed simp

lemma seg_loaded_cong:
  assumes "seg_loaded K A base ph im" "seg_ok base ph"
    and "\<And>x. seg_lo base ph \<le> unat x \<Longrightarrow> unat x < seg_hi base ph \<Longrightarrow> im_mem im' x = im_mem im x \<and> im_prot im' x = im_prot im x"
  shows "seg_loaded K A base ph im'"
  unfolding seg_loaded_def
proof (intro allI impI)
  fix i assume i: "i < unat (p_memsz ph)"
  let ?x = "base + p_paddr ph + of_nat i"
  have "im_mem im' ?x = im_mem im ?x \<and> im_prot im' ?x = im_prot im ?x"
    using i by (intro assms(3)) (simp_all add: seg_facts(4) [OF assms(2)] seg_hi_def)
  then show "im_mem im' ?x = (if i < unat (p_filesz ph) then file_at K (p_offset ph + of_nat i) else 0) \<and>
      im_prot im' ?x = segment_perms A ph"
    using assms(1) i by (simp add: seg_loaded_def)
qed

lemma map_phdrs_loop_loads:
  assumes K: "grants_all K" and "spread base (unat la) phs"
  shows "\<exists>im' la' lp'. map_phdrs_loop K A base phs (im, la, lp) = Ret (Inr (im', la', lp')) \<and>
    (\<forall>ph \<in> set phs. seg_loaded K A base ph im') \<and>
    (\<forall>x. unat x div 4096 \<le> unat la div 4096 \<longrightarrow> im_mem im' x = im_mem im x \<and> im_prot im' x = im_prot im x)"
  using assms(2)
proof (induction phs arbitrary: im la lp)
  case (Cons ph phs)
  have s: "seg_ok base ph" "unat la div 4096 < seg_lo base ph div 4096" using Cons.prems by auto
  obtain im1 where 1: "map_phdr K A base ph (im, la, lp) = Ret (Inr (im1, base + p_paddr ph + p_memsz ph - 1, segment_perms A ph))"
    "unat (base + p_paddr ph + p_memsz ph - 1) = seg_hi base ph - 1" "seg_loaded K A base ph im1"
    "\<And>x. unat x div 4096 < seg_lo base ph div 4096 \<Longrightarrow> im_mem im1 x = im_mem im x \<and> im_prot im1 x = im_prot im x"
    using map_phdr_loads [OF K s, of A im lp] by blast
  have "spread base (unat (base + p_paddr ph + p_memsz ph - 1)) phs" using Cons.prems by (simp add: 1(2))
  from Cons.IH [OF this, of im1 "segment_perms A ph"] obtain im' la' lp' where
    2: "map_phdrs_loop K A base phs (im1, base + p_paddr ph + p_memsz ph - 1, segment_perms A ph) = Ret (Inr (im', la', lp'))"
    "\<forall>ph \<in> set phs. seg_loaded K A base ph im'"
    "\<And>x. unat x div 4096 \<le> (seg_hi base ph - 1) div 4096 \<Longrightarrow> im_mem im' x = im_mem im1 x \<and> im_prot im' x = im_prot im1 x"
    unfolding 1(2) by blast
  have "seg_loaded K A base ph im'"
    by (rule seg_loaded_cong [OF 1(3) s(1)]) (rule 2(3), rule div_le_mono, simp)
  moreover have "im_mem im' x = im_mem im x \<and> im_prot im' x = im_prot im x"
    if x: "unat x div 4096 \<le> unat la div 4096" for x
  proof -
    have "seg_lo base ph \<le> seg_hi base ph - 1"
      using s(1) by (auto simp: seg_hi_def seg_ok_def word_less_nat_alt word_le_nat_alt)
    then have "seg_lo base ph div 4096 \<le> (seg_hi base ph - 1) div 4096" by (rule div_le_mono)
    then show ?thesis using 1(4) [of x] 2(3) [of x] x s(2) by simp
  qed
  ultimately show ?case using 1(1) 2(1,2) by simp
qed simp

section \<open>Properties\<close>

text \<open>
  C3. Mapping the segments of a module whose segments lie on pages of their own, in ascending order,
  puts every segment in place when the kernel grants the calls: the file's bytes from the segment's
  offset on, zeros from the end of the file part to the end of the segment, and the segment's own
  protection. Loading a later segment leaves the earlier ones
  alone.
\<close>

theorem map_phdrs_loads:
  assumes "grants_all K" "spread base 0 phs"
  shows "\<exists>im'. map_phdrs K A phs base im = Ret (Inr (base, im')) \<and>
    (\<forall>ph \<in> set phs. \<forall>i < unat (p_memsz ph).
       im_mem im' (base + p_paddr ph + of_nat i) =
         (if i < unat (p_filesz ph) then file_at K (p_offset ph + of_nat i) else 0) \<and>
       im_prot im' (base + p_paddr ph + of_nat i) = segment_perms A ph)"
proof -
  have "spread base (unat (0 :: u64)) phs" using assms(2) by simp
  from map_phdrs_loop_loads [OF assms(1) this, of A im 0] show ?thesis
    by (auto simp: map_phdrs_def seg_loaded_def)
qed

definition demo_abi :: seg_abi where
  "demo_abi = \<lparr> prot_read = 1, prot_write = 2, prot_exec = 4, PF_W = 2, PF_X = 1 \<rparr>"

definition demo_kernel :: load_kernel where
  "demo_kernel = \<lparr> grants_mprotect = (\<lambda>a n p. True), grants_mmap = (\<lambda>a n off. True),
     seek_reads = (\<lambda>off. Inr [Data [0xAA, 0xBB]]), file_at = (\<lambda>off. ucast off) \<rparr>"

definition blank :: image where
  "blank = \<lparr> im_mem = (\<lambda>x. 0), im_prot = (\<lambda>x. 3) \<rparr>"

definition text_segment :: phdr where
  "text_segment = \<lparr> p_paddr = 0x1000, p_memsz = 0xFFE, p_filesz = 0xFFE, p_offset = 0x1000, p_flags = 5 \<rparr>"

definition data_segment :: phdr where
  "data_segment = \<lparr> p_paddr = 0x2010, p_memsz = 0x30, p_filesz = 0x20, p_offset = 0x1010, p_flags = 6 \<rparr>"

lemmas phdrs_eval = demo_abi_def demo_kernel_def blank_def text_segment_def data_segment_def
  grants_all_def seg_ok_def seg_lo_def seg_hi_def segment_perms_def

theorem map_phdrs_loads_witness:
  "\<exists>im'. map_phdrs demo_kernel demo_abi [text_segment, data_segment] 0x10000 blank = Ret (Inr (0x10000, im')) \<and>
     im_mem im' 0x11003 = 3 \<and> im_prot im' 0x11003 = 5 \<and>
     im_mem im' 0x12012 = 0x12 \<and> im_mem im' 0x12030 = 0 \<and> im_prot im' 0x12030 = 3"
proof -
  have "grants_all demo_kernel" "spread 0x10000 0 [text_segment, data_segment]"
    by (simp_all add: phdrs_eval word_less_nat_alt word_le_nat_alt)
  from map_phdrs_loads [OF this, of demo_abi blank] obtain im' where
    r: "map_phdrs demo_kernel demo_abi [text_segment, data_segment] 0x10000 blank = Ret (Inr (0x10000, im'))" and
    a: "\<forall>i < unat (p_memsz text_segment). im_mem im' (0x10000 + p_paddr text_segment + of_nat i) =
         (if i < unat (p_filesz text_segment) then file_at demo_kernel (p_offset text_segment + of_nat i) else 0) \<and>
       im_prot im' (0x10000 + p_paddr text_segment + of_nat i) = segment_perms demo_abi text_segment" and
    b: "\<forall>i < unat (p_memsz data_segment). im_mem im' (0x10000 + p_paddr data_segment + of_nat i) =
         (if i < unat (p_filesz data_segment) then file_at demo_kernel (p_offset data_segment + of_nat i) else 0) \<and>
       im_prot im' (0x10000 + p_paddr data_segment + of_nat i) = segment_perms demo_abi data_segment"
    by auto
  show ?thesis
    using r a [rule_format, of 3] b [rule_format, of 2] b [rule_format, of 32]
    by (intro exI [of _ im']) (simp add: phdrs_eval)
qed

section \<open>Segments that share a page\<close>

text \<open>
  A data segment that starts on the last page of the code before it makes that page writable and
  executable; what it has beyond that page is not loaded when it is at most a page long (the two bytes at
  \<open>0x12000\<close> stay as they were); and when it is longer, the loader panics, because it compares the address
  it rounded up with the offset it did not.
\<close>

definition tail_segment :: "usize \<Rightarrow> phdr" where
  "tail_segment n = \<lparr> p_paddr = 0x1FFE, p_memsz = n, p_filesz = n, p_offset = 0x1FFE, p_flags = 6 \<rparr>"

definition after_text :: load_state where
  "after_text = (blank, 0x11FFD, 5)"

theorem shared_page_writable_code:
  "\<exists>im'. map_phdr demo_kernel demo_abi 0x10000 (tail_segment 4) after_text = Ret (Inr (im', 0x11FFD, 5)) \<and>
     im_prot im' 0x11000 = 7 \<and> map (im_mem im') [0x11FFE, 0x11FFF, 0x12000, 0x12001] = [0xAA, 0xBB, 0, 0]"
  by (simp add: map_phdr_def tail_segment_def after_text_def phdrs_eval fill_shared_page_def Let_def
    page_down_def page_up_def saturating_sub_def slice_at_def read_offset_def read_offset_loop.simps overwrite_def put_slice_def
    protect_def write_image_def)

theorem shared_page_panics:
  "map_phdr demo_kernel demo_abi 0x10000 (tail_segment 0x1004) after_text = Panic"
  by (simp add: map_phdr_def tail_segment_def after_text_def phdrs_eval fill_shared_page_def Let_def
    page_down_def page_up_def saturating_sub_def slice_at_def read_offset_def read_offset_loop.simps overwrite_def put_slice_def
    map_segment_def)

end
