(* ===== verification/WL_Env.thy ===== *)
theory WL_Env
  imports WL_Split
begin

text \<open>
  The environment map \<open>EnvMap\<close> (\<open>wl-impl/src/env.rs\<close>): a byte vector of length-prefixed entries, a hash
  map from keys to offsets and a list of free entries. The hash map is modelled as a finite function, its
  constructor as in \<open>wl-impl/src/ministd.rs\<close>. Keys and values are Rust strings; that the bytes \<open>0xFE\<close> and
  \<open>0xFF\<close> never occur in UTF-8 text is the hypothesis the format rests on. The validity check of the
  standard library is the parameter \<open>utf8\<close>.
\<close>

section \<open>The map and its operations\<close>

definition KEY_TERM :: u8 where "KEY_TERM = 0xFE"

definition ENTRY_TERM :: u8 where "ENTRY_TERM = 0xFF"

definition EMPTY :: bytes where "EMPTY = [0xFE, 0xFF]"

definition entry_len :: "bytes \<Rightarrow> bytes \<Rightarrow> nat" where
  "entry_len k v = 8 + 2 + length k + length v"

record env_map_state =
  env :: bytes
  env_map :: "bytes \<rightharpoonup> nat"
  freelist :: "nat list"

text \<open>\<open>RandomState::new()\<close> is \<open>todo!()\<close>, and so is every constructor of the hash map without a hasher.\<close>

definition random_state_new :: "(u64 \<times> u64) run" where
  "random_state_new = Panic"

definition random_state_default :: "(u64 \<times> u64) run" where
  "random_state_default = random_state_new"

text \<open>
  A hash map is its finite function with the hasher; \<open>hashbrown\<close>'s constructors make an empty one. Capacity and allocator
  do not change what it holds.
\<close>

type_synonym ('k, 'v, 's) hash_map = "('k \<rightharpoonup> 'v) \<times> 's"

definition with_hasher_in :: "'s \<Rightarrow> 'a \<Rightarrow> ('k, 'v, 's) hash_map" where
  "with_hasher_in hasher alloc = (Map.empty, hasher)"

definition with_capacity_and_hasher_in :: "usize \<Rightarrow> 's \<Rightarrow> 'a \<Rightarrow> ('k, 'v, 's) hash_map" where
  "with_capacity_and_hasher_in cap hasher alloc = (Map.empty, hasher)"

definition with_hasher :: "'s \<Rightarrow> ('k, 'v, 's) hash_map" where
  "with_hasher hasher = with_hasher_in hasher ()"

definition with_capacity_and_hasher :: "usize \<Rightarrow> 's \<Rightarrow> ('k, 'v, 's) hash_map" where
  "with_capacity_and_hasher cap hasher = with_capacity_and_hasher_in cap hasher ()"

definition new_in :: "'a \<Rightarrow> ('k, 'v, u64 \<times> u64) hash_map run" where
  "new_in alloc = run_bind random_state_new (\<lambda>s. Ret (with_hasher_in s alloc))"

definition with_capacity_in :: "usize \<Rightarrow> 'a \<Rightarrow> ('k, 'v, u64 \<times> u64) hash_map run" where
  "with_capacity_in cap alloc = run_bind random_state_new (\<lambda>s. Ret (with_capacity_and_hasher_in cap s alloc))"

definition with_capacity :: "usize \<Rightarrow> ('k, 'v, u64 \<times> u64) hash_map run" where
  "with_capacity cap = run_bind random_state_new (\<lambda>s. Ret (with_capacity_and_hasher_in cap s ()))"

definition deref_map :: "('k, 'v, 's) hash_map \<Rightarrow> 'k \<rightharpoonup> 'v" where
  "deref_map m = fst m"

definition hash_new :: "('k, 'v, u64 \<times> u64) hash_map run" where
  "hash_new = run_bind random_state_new (\<lambda>s. Ret (with_hasher_in s ()))"

definition hash_map_new :: "(bytes \<rightharpoonup> nat) run" where
  "hash_map_new = run_bind hash_new (\<lambda>m. Ret (deref_map m))"

text \<open>The table of the shared memory allocator (\<open>wl-impl/src/global.rs\<close>) is made the same way.\<close>

definition shmem_alloc_new :: "(u64 \<rightharpoonup> u32) run" where
  "shmem_alloc_new = run_bind hash_new (\<lambda>m. Ret (deref_map m))"

definition push_entry :: "bytes \<Rightarrow> bytes \<Rightarrow> bytes \<Rightarrow> bytes" where
  "push_entry e k v =
     e @ to_ne_bytes (of_nat (entry_len k v)) @ k @ [KEY_TERM] @ v @ [ENTRY_TERM]"

fun from_iter_loop :: "(bytes \<times> bytes) list \<Rightarrow> bytes \<Rightarrow> (bytes \<rightharpoonup> nat) \<Rightarrow> env_map_state run" where
  "from_iter_loop [] e m = Ret \<lparr> env = e, env_map = m, freelist = [] \<rparr>"
| "from_iter_loop ((key, val) # kvs) e m =
     (if m key \<noteq> None then Panic
      else from_iter_loop kvs (push_entry e key val) (m(key \<mapsto> length e)))"

definition from_iter :: "(bytes \<times> bytes) list \<Rightarrow> env_map_state run" where
  "from_iter kvs = run_bind hash_map_new (\<lambda>m. from_iter_loop kvs [] m)"

text \<open>The slice operations: \<open>&s[i..]\<close>, \<open>s[i..].copy_from_slice\<close> and the length prefix at an offset.\<close>

definition slice_from :: "bytes \<Rightarrow> nat \<Rightarrow> bytes run" where
  "slice_from s i = (if i \<le> length s then Ret (drop i s) else Panic)"

definition put_at :: "bytes \<Rightarrow> nat \<Rightarrow> bytes \<Rightarrow> bytes run" where
  "put_at s i bs = (if i + length bs \<le> length s then Ret (overwrite s i bs) else Panic)"

definition len_at :: "bytes \<Rightarrow> nat \<Rightarrow> nat" where
  "len_at s i = unat (from_ne_bytes (take 8 (drop i s)))"

definition read_len :: "bytes \<Rightarrow> nat \<Rightarrow> nat run" where
  "read_len s i = (if i + 8 \<le> length s then Ret (len_at s i) else Panic)"

definition env_var :: "(bytes \<Rightarrow> bool) \<Rightarrow> env_map_state \<Rightarrow> bytes \<Rightarrow> bytes option run" where
  "env_var utf8 st key =
     (case env_map st key of
        None \<Rightarrow> Ret None
      | Some var \<Rightarrow>
          run_bind (slice_from (env st) (var + 8)) (\<lambda>ptr.
          run_bind (slice_from ptr (length key + 1)) (\<lambda>ptr.
            case find_sep ENTRY_TERM ptr of
              None \<Rightarrow> Panic
            | Some e \<Rightarrow> if utf8 (take e ptr) then Ret (Some (take e ptr)) else Panic)))"

definition remove_var :: "bytes \<Rightarrow> env_map_state \<Rightarrow> env_map_state run" where
  "remove_var key st =
     (case env_map st key of
        None \<Rightarrow> Ret st
      | Some var \<Rightarrow>
          run_bind (put_at (env st) (var + 8) EMPTY) (\<lambda>e.
            Ret (st\<lparr> env := e, env_map := (env_map st)(key := None) \<rparr>)))"

text \<open>
  The search of the free list: the index of the first entry whose length is at most the length wanted,
  and the write into it, which goes to the start of the vector instead of to the entry.
\<close>

fun find_free :: "bytes \<Rightarrow> nat \<Rightarrow> nat list \<Rightarrow> nat option run" where
  "find_free e elen [] = Ret None"
| "find_free e elen (elem # fs) =
     run_bind (read_len e elem) (\<lambda>tlen.
       if tlen \<le> elen then Ret (Some 0)
       else run_bind (find_free e elen fs) (\<lambda>i. Ret (map_option Suc i)))"

definition swap_remove :: "nat list \<Rightarrow> nat \<Rightarrow> nat list" where
  "swap_remove xs i = butlast (xs[i := last xs])"

definition use_free :: "bytes \<Rightarrow> bytes \<Rightarrow> nat \<Rightarrow> env_map_state \<Rightarrow> env_map_state run" where
  "use_free key val i st =
     (let elem = freelist st ! i in
      run_bind
        (case env_map st key of
           Some old_off \<Rightarrow>
             run_bind (put_at (env st) (old_off + 8) EMPTY) (\<lambda>e.
               Ret (st\<lparr> env := e, env_map := (env_map st)(key \<mapsto> elem), freelist := (freelist st)[i := old_off] \<rparr>))
         | None \<Rightarrow>
             Ret (st\<lparr> env_map := (env_map st)(key \<mapsto> elem), freelist := swap_remove (freelist st) i \<rparr>))
        (\<lambda>st. run_bind (put_at (take elem (env st)) 8 (key @ [KEY_TERM] @ val @ [ENTRY_TERM])) (\<lambda>e.
           Ret (st\<lparr> env := e @ drop elem (env st) \<rparr>))))"

definition append_var :: "bytes \<Rightarrow> bytes \<Rightarrow> env_map_state \<Rightarrow> env_map_state run" where
  "append_var key val st =
     (let elem = length (env st); e = push_entry (env st) key val in
      case env_map st key of
        Some old_off \<Rightarrow>
          run_bind (put_at e (old_off + 8) EMPTY) (\<lambda>e.
            Ret (st\<lparr> env := e, env_map := (env_map st)(key \<mapsto> elem), freelist := freelist st @ [old_off] \<rparr>))
      | None \<Rightarrow> Ret (st\<lparr> env := e, env_map := (env_map st)(key \<mapsto> elem) \<rparr>))"

definition set_var :: "bytes \<Rightarrow> bytes \<Rightarrow> env_map_state \<Rightarrow> env_map_state run" where
  "set_var key val st =
     (let elen = entry_len key val;
          elsewhere = run_bind (find_free (env st) elen (freelist st)) (\<lambda>i.
            case i of Some i \<Rightarrow> use_free key val i st | None \<Rightarrow> append_var key val st)
      in case env_map st key of
           None \<Rightarrow> elsewhere
         | Some var \<Rightarrow>
             run_bind (read_len (env st) var) (\<lambda>tlen.
               if elen \<le> tlen
               then run_bind (put_at (env st) (var + 8 + 1 + length key) (val @ [ENTRY_TERM])) (\<lambda>e.
                      Ret (st\<lparr> env := e \<rparr>))
               else elsewhere))"

fun env_extend :: "(bytes \<times> bytes) list \<Rightarrow> env_map_state \<Rightarrow> env_map_state run" where
  "env_extend [] st = Ret st"
| "env_extend ((key, val) # kvs) st = run_bind (set_var key val st) (env_extend kvs)"

text \<open>One step of the iterator over the vector, and the pairs that \<open>n\<close> steps yield.\<close>

definition iter_next :: "(bytes \<Rightarrow> bool) \<Rightarrow> bytes \<Rightarrow> ((bytes \<times> bytes) \<times> bytes) option run" where
  "iter_next utf8 s =
     (if length s < 8 then Ret None
      else run_bind (slice_from s (len_at s 0)) (\<lambda>s'.
        let rest = drop 8 s in
        case find_sep KEY_TERM rest of
          None \<Rightarrow> Panic
        | Some off \<Rightarrow>
            (case find_sep ENTRY_TERM (drop off rest) of
               None \<Rightarrow> Panic
             | Some e \<Rightarrow>
                 let key = take off rest; val = take (e - 1) (drop (off + 1) rest)
                 in if e < 1 then Panic
                    else if utf8 key \<and> utf8 val then Ret (Some ((key, val), s')) else Panic)))"

fun iter_collect :: "(bytes \<Rightarrow> bool) \<Rightarrow> nat \<Rightarrow> bytes \<Rightarrow> (bytes \<times> bytes) list run" where
  "iter_collect utf8 0 s = Ret []"
| "iter_collect utf8 (Suc n) s =
     run_bind (iter_next utf8 s) (\<lambda>r.
       case r of
         None \<Rightarrow> Ret []
       | Some (kv, s') \<Rightarrow> run_bind (iter_collect utf8 n s') (\<lambda>kvs. Ret (kv # kvs)))"

section \<open>What the vector represents\<close>

definition text_ok :: "(bytes \<Rightarrow> bool) \<Rightarrow> bool" where
  "text_ok utf8 \<longleftrightarrow> (\<forall>bs. utf8 bs \<longrightarrow> KEY_TERM \<notin> set bs \<and> ENTRY_TERM \<notin> set bs)"

definition entry_at :: "bytes \<Rightarrow> nat \<Rightarrow> bytes \<Rightarrow> bytes \<Rightarrow> bool" where
  "entry_at e off k v \<longleftrightarrow> off + len_at e off \<le> length e \<and> entry_len k v \<le> len_at e off \<and>
     take (length k + length v + 2) (drop (off + 8) e) = k @ [KEY_TERM] @ v @ [ENTRY_TERM]"

definition room_at :: "bytes \<Rightarrow> nat \<Rightarrow> bool" where
  "room_at e off \<longleftrightarrow> off + len_at e off \<le> length e \<and> 10 \<le> len_at e off"

definition apart :: "bytes \<Rightarrow> nat \<Rightarrow> nat \<Rightarrow> bool" where
  "apart e a b \<longleftrightarrow> a + len_at e a \<le> b \<or> b + len_at e b \<le> a"

definition env_rep :: "(bytes \<Rightarrow> bool) \<Rightarrow> env_map_state \<Rightarrow> (bytes \<rightharpoonup> bytes) \<Rightarrow> bool" where
  "env_rep utf8 st m \<longleftrightarrow>
     (\<forall>k. (env_map st k = None) = (m k = None)) \<and>
     (\<forall>k off v. env_map st k = Some off \<longrightarrow> m k = Some v \<longrightarrow> utf8 v \<and> entry_at (env st) off k v) \<and>
     (\<forall>k k' off off'. env_map st k = Some off \<longrightarrow> env_map st k' = Some off' \<longrightarrow> k \<noteq> k' \<longrightarrow> apart (env st) off off') \<and>
     (\<forall>f \<in> set (freelist st). room_at (env st) f \<and> (\<forall>k off. env_map st k = Some off \<longrightarrow> apart (env st) f off))"

text \<open>No free entry is as short as the one wanted, so that the free list is not used.\<close>

definition none_fits :: "env_map_state \<Rightarrow> nat \<Rightarrow> bool" where
  "none_fits st elen \<longleftrightarrow> (\<forall>f \<in> set (freelist st). elen < len_at (env st) f)"

lemma entry_room: "entry_at e off k v \<Longrightarrow> room_at e off"
  by (simp add: entry_at_def room_at_def entry_len_def)

lemma rep_None: "env_rep utf8 st m \<Longrightarrow> env_map st k = None \<longleftrightarrow> m k = None"
  by (simp add: env_rep_def)

lemma rep_entry:
  assumes "env_rep utf8 st m" "env_map st k = Some off"
  obtains v where "m k = Some v" "utf8 v" "entry_at (env st) off k v"
proof -
  from rep_None [OF assms(1), of k] assms(2) obtain v where "m k = Some v" by auto
  with that assms show thesis by (simp add: env_rep_def)
qed

lemma rep_apart:
  "env_rep utf8 st m \<Longrightarrow> env_map st k = Some x \<Longrightarrow> env_map st k' = Some y \<Longrightarrow> k \<noteq> k' \<Longrightarrow> apart (env st) x y"
  by (simp add: env_rep_def)

lemma rep_free:
  "env_rep utf8 st m \<Longrightarrow> f \<in> set (freelist st) \<Longrightarrow> room_at (env st) f"
  "env_rep utf8 st m \<Longrightarrow> f \<in> set (freelist st) \<Longrightarrow> env_map st k = Some x \<Longrightarrow> apart (env st) f x"
  by (simp_all add: env_rep_def)

lemma rep_room:
  assumes "env_rep utf8 st m" "env_map st k = Some x \<or> x \<in> set (freelist st)"
  shows "room_at (env st) x"
  using assms(2)
proof
  assume "env_map st k = Some x"
  with assms(1) obtain v where "entry_at (env st) x k v" by (rule rep_entry)
  then show ?thesis by (rule entry_room)
qed (rule rep_free(1) [OF assms(1)])

section \<open>Writes outside an entry\<close>

lemma take_drop_overwrite:
  assumes "p + length bs \<le> length e" "p + length bs \<le> off \<or> off + n \<le> p"
  shows "take n (drop off (overwrite e p bs)) = take n (drop off e)"
  using assms by (intro nth_equalityI) (auto simp: slice_simps)

lemma len_at_overwrite:
  assumes "p + length bs \<le> length e" "p + length bs \<le> off \<or> off + 8 \<le> p"
  shows "len_at (overwrite e p bs) off = len_at e off"
  using assms by (simp add: len_at_def take_drop_overwrite)

lemma entry_at_overwrite:
  assumes "entry_at e off k v" "p + length bs \<le> length e" "p + length bs \<le> off \<or> off + len_at e off \<le> p"
  shows "entry_at (overwrite e p bs) off k v"
proof -
  have l: "len_at (overwrite e p bs) off = len_at e off"
    using assms by (intro len_at_overwrite) (auto simp: entry_at_def entry_len_def)
  have "take (length k + length v + 2) (drop (off + 8) (overwrite e p bs)) =
      take (length k + length v + 2) (drop (off + 8) e)"
    using assms by (intro take_drop_overwrite) (auto simp: entry_at_def entry_len_def)
  then show ?thesis using assms by (simp add: entry_at_def l slice_simps)
qed

lemma len_at_append: "i + 8 \<le> length e \<Longrightarrow> len_at (e @ x) i = len_at e i"
  by (simp add: len_at_def)

lemma room_append: "room_at e off \<Longrightarrow> room_at (e @ x) off \<and> len_at (e @ x) off = len_at e off"
  using len_at_append [of off e x] by (simp add: room_at_def)

lemma entry_at_append: "entry_at e off k v \<Longrightarrow> entry_at (e @ x) off k v"
  using room_append [OF entry_room, of e off k v x] by (simp add: entry_at_def entry_len_def)

lemma len_at_push:
  assumes "entry_len k v < 2 ^ 64"
  shows "len_at (push_entry e k v) (length e) = entry_len k v"
  using assms by (simp add: len_at_def push_entry_def unat_of_nat_64)

lemma entry_at_push:
  assumes "entry_len k v < 2 ^ 64"
  shows "entry_at (push_entry e k v) (length e) k v"
  using len_at_push [OF assms, of e] by (simp add: entry_at_def) (simp add: push_entry_def entry_len_def)

section \<open>Reading\<close>

lemma entry_split:
  assumes "entry_at e off k v"
  obtains tl where "drop (off + 8) e = k @ KEY_TERM # v @ ENTRY_TERM # tl"
proof
  let ?n = "length k + length v + 2"
  have "drop (off + 8) e = take ?n (drop (off + 8) e) @ drop ?n (drop (off + 8) e)"
    by (rule append_take_drop_id [symmetric])
  then show "drop (off + 8) e = k @ KEY_TERM # v @ ENTRY_TERM # drop ?n (drop (off + 8) e)"
    using assms by (simp add: entry_at_def)
qed

lemma env_var_rep:
  assumes "text_ok utf8" "env_rep utf8 st m"
  shows "env_var utf8 st k = Ret (m k)"
proof (cases "env_map st k")
  case None
  then show ?thesis using rep_None [OF assms(2), of k] by (simp add: env_var_def)
next
  case (Some off)
  from assms(2) Some obtain v where v: "m k = Some v" "utf8 v" "entry_at (env st) off k v" by (rule rep_entry)
  obtain tl where tl: "drop (off + 8) (env st) = k @ KEY_TERM # v @ ENTRY_TERM # tl"
    using entry_split [OF v(3)] by blast
  have "off + 8 \<le> length (env st)" using v(3) by (simp add: entry_at_def entry_len_def)
  moreover have "ENTRY_TERM \<notin> set v" using assms(1) v(2) by (simp add: text_ok_def)
  ultimately show ?thesis
    using tl v by (simp add: env_var_def Some slice_from_def)
qed

section \<open>Writing inside an entry\<close>

lemma inside_write:
  assumes rep: "env_rep utf8 st m" and k: "env_map st k = Some off"
    and p: "off + 8 \<le> p" "p + length bs \<le> off + len_at (env st) off"
  shows "p + length bs \<le> length (env st)"
    and "env_map st k' = Some x \<or> x \<in> set (freelist st) \<Longrightarrow> len_at (overwrite (env st) p bs) x = len_at (env st) x"
    and "env_map st k' = Some x \<Longrightarrow> k' \<noteq> k \<Longrightarrow> entry_at (env st) x k' v \<Longrightarrow> entry_at (overwrite (env st) p bs) x k' v"
proof -
  from rep k obtain v0 where e: "entry_at (env st) off k v0" by (rule rep_entry)
  show b: "p + length bs \<le> length (env st)" using e p by (simp add: entry_at_def)
  have ap: "apart (env st) x off" if "env_map st k' = Some x \<and> k' \<noteq> k \<or> x \<in> set (freelist st)" for k' x
    using that rep_apart [OF rep _ k, of k' x] rep_free(2) [OF rep _ k, of x] by auto
  show "len_at (overwrite (env st) p bs) x = len_at (env st) x" if x: "env_map st k' = Some x \<or> x \<in> set (freelist st)"
  proof (cases "x = off")
    case False
    then have "env_map st k' = Some x \<and> k' \<noteq> k \<or> x \<in> set (freelist st)" using x k by auto
    from ap [OF this] rep_room [OF rep x] show ?thesis
      using p b by (intro len_at_overwrite) (auto simp: apart_def room_at_def)
  qed (use p b in \<open>simp add: len_at_overwrite\<close>)
  show "entry_at (overwrite (env st) p bs) x k' v"
    if "env_map st k' = Some x" "k' \<noteq> k" "entry_at (env st) x k' v"
    using ap [of k' x] that p b by (intro entry_at_overwrite) (auto simp: apart_def)
qed

lemma entry_in_place:
  assumes e: "entry_at s off k v" and n: "entry_len k w \<le> len_at s off"
  shows "entry_at (overwrite s (off + 8 + 1 + length k) (w @ [ENTRY_TERM])) off k w"
proof -
  let ?p = "off + 8 + 1 + length k" and ?bs = "w @ [ENTRY_TERM]"
  have b: "?p + length ?bs \<le> length s" using e n by (simp add: entry_at_def entry_len_def)
  have l: "len_at (overwrite s ?p ?bs) off = len_at s off" using b by (intro len_at_overwrite) auto
  have "take (length k + 1) (drop (off + 8) (overwrite s ?p ?bs)) = take (length k + 1) (drop (off + 8) s)"
    using b by (intro take_drop_overwrite) auto
  also have "\<dots> = k @ [KEY_TERM]" using entry_split [OF e] by force
  finally have 1: "take (length k + 1) (drop (off + 8) (overwrite s ?p ?bs)) = k @ [KEY_TERM]" .
  have 2: "take (length ?bs) (drop ?p (overwrite s ?p ?bs)) = ?bs" by (rule overwrite_hit [OF b])
  have "take (length k + length w + 2) (drop (off + 8) (overwrite s ?p ?bs)) =
      take (length k + 1) (drop (off + 8) (overwrite s ?p ?bs)) @
      take (length ?bs) (drop (length k + 1) (drop (off + 8) (overwrite s ?p ?bs)))"
    using take_add [of "length k + 1" "length ?bs" "drop (off + 8) (overwrite s ?p ?bs)"] by simp
  also have "\<dots> = k @ [KEY_TERM] @ w @ [ENTRY_TERM]"
    using 1 2 by (simp add: add.commute add.left_commute)
  finally show ?thesis using e n unfolding entry_at_def l length_overwrite [OF b] by simp
qed

lemma set_var_in_place:
  assumes rep: "env_rep utf8 st m" and k: "env_map st k = Some off" and w: "utf8 w"
    and n: "entry_len k w \<le> len_at (env st) off"
  shows "\<exists>st'. set_var k w st = Ret st' \<and> env_rep utf8 st' (m(k \<mapsto> w))"
proof -
  let ?p = "off + 8 + 1 + length k" and ?bs = "w @ [ENTRY_TERM]"
  from rep k obtain v0 where v0: "m k = Some v0" and e: "entry_at (env st) off k v0" by (rule rep_entry)
  have p: "off + 8 \<le> ?p" "?p + length ?bs \<le> off + len_at (env st) off" using n by (auto simp: entry_len_def)
  note iw = inside_write [OF rep k p]
  let ?st = "st\<lparr> env := overwrite (env st) ?p ?bs \<rparr>"
  have r: "off + 8 \<le> length (env st)" using e by (simp add: entry_at_def entry_len_def)
  have "set_var k w st = Ret ?st"
    using iw(1) n r by (simp add: set_var_def k read_len_def put_at_def Let_def)
  moreover have "env_rep utf8 ?st (m(k \<mapsto> w))"
    unfolding env_rep_def
  proof (intro conjI allI impI ballI)
    fix k' show "(env_map ?st k' = None) = ((m(k \<mapsto> w)) k' = None)" using rep_None [OF rep, of k'] k v0 by auto
  next
    fix k' x v assume a: "env_map ?st k' = Some x" "(m(k \<mapsto> w)) k' = Some v"
    have "utf8 v \<and> entry_at (env ?st) x k' v"
    proof (cases "k' = k")
      case False
      then show ?thesis using a rep_entry [OF rep, of k' x] iw(3) [of k' x v] by auto
    qed (use a k w entry_in_place [OF e n] in simp)
    then show "utf8 v" "entry_at (env ?st) x k' v" by simp_all
  next
    fix k1 k2 x y assume a: "env_map ?st k1 = Some x" "env_map ?st k2 = Some y" "k1 \<noteq> k2"
    then show "apart (env ?st) x y"
      using rep_apart [OF rep, of k1 x k2 y] iw(2) [of k1 x] iw(2) [of k2 y] by (simp add: apart_def)
  next
    fix f assume f: "f \<in> set (freelist ?st)"
    then show "room_at (env ?st) f"
      using rep_free(1) [OF rep, of f] iw(2) [of k f] iw(1) by (simp add: room_at_def slice_simps)
    fix k' x assume "env_map ?st k' = Some x"
    then show "apart (env ?st) f x"
      using rep_free(2) [OF rep, of f k' x] f iw(2) [of k' f] iw(2) [of k' x] by (simp add: apart_def)
  qed
  ultimately show ?thesis by blast
qed


section \<open>Removing and appending\<close>

lemma remove_var_rep:
  assumes rep: "env_rep utf8 st m"
  shows "\<exists>st'. remove_var k st = Ret st' \<and> env_rep utf8 st' (m(k := None))"
proof (cases "env_map st k")
  case None
  then have "m(k := None) = m" using rep_None [OF rep, of k] by auto
  then show ?thesis using rep None by (simp add: remove_var_def)
next
  case (Some off)
  from rep Some obtain v0 where e: "entry_at (env st) off k v0" by (rule rep_entry)
  have p: "off + 8 \<le> off + 8" "off + 8 + length EMPTY \<le> off + len_at (env st) off"
    using entry_room [OF e] by (auto simp: EMPTY_def room_at_def)
  note iw = inside_write [OF rep Some p]
  let ?st = "st\<lparr> env := overwrite (env st) (off + 8) EMPTY, env_map := (env_map st)(k := None) \<rparr>"
  have "remove_var k st = Ret ?st" using iw(1) by (simp add: remove_var_def Some put_at_def)
  moreover have "env_rep utf8 ?st (m(k := None))"
    unfolding env_rep_def
  proof (intro conjI allI impI ballI)
    fix k' show "(env_map ?st k' = None) = ((m(k := None)) k' = None)" using rep_None [OF rep, of k'] by simp
  next
    fix k' x v assume a: "env_map ?st k' = Some x" "(m(k := None)) k' = Some v"
    then show "utf8 v" "entry_at (env ?st) x k' v"
      using rep_entry [OF rep, of k' x] iw(3) [of k' x v] by (auto split: if_splits)
  next
    fix k1 k2 x y assume a: "env_map ?st k1 = Some x" "env_map ?st k2 = Some y" "k1 \<noteq> k2"
    then show "apart (env ?st) x y"
      using rep_apart [OF rep, of k1 x k2 y] iw(2) [of k1 x] iw(2) [of k2 y] by (simp add: apart_def split: if_splits)
  next
    fix f assume f: "f \<in> set (freelist ?st)"
    then show "room_at (env ?st) f"
      using rep_free(1) [OF rep, of f] iw(2) [of k f] iw(1) by (simp add: room_at_def slice_simps)
    fix k' x assume "env_map ?st k' = Some x"
    then show "apart (env ?st) f x"
      using rep_free(2) [OF rep, of f k' x] f iw(2) [of k' f] iw(2) [of k' x] by (simp add: apart_def split: if_splits)
  qed
  ultimately show ?thesis by blast
qed

text \<open>Appending bytes changes nothing that is represented.\<close>

lemma rep_append:
  assumes rep: "env_rep utf8 st m"
  shows "env_rep utf8 (st\<lparr> env := env st @ x \<rparr>) m"
    and "env_map st k = Some y \<or> y \<in> set (freelist st) \<Longrightarrow> y + len_at (env st @ x) y \<le> length (env st)"
proof -
  have l: "len_at (env st @ x) y = len_at (env st) y \<and> y + len_at (env st) y \<le> length (env st)"
    if "env_map st k = Some y \<or> y \<in> set (freelist st)" for k y
    using room_append [OF rep_room [OF rep that], of x] rep_room [OF rep that] by (simp add: room_at_def)
  show "env_map st k = Some y \<or> y \<in> set (freelist st) \<Longrightarrow> y + len_at (env st @ x) y \<le> length (env st)"
    using l by simp
  show "env_rep utf8 (st\<lparr> env := env st @ x \<rparr>) m"
    unfolding env_rep_def
  proof (intro conjI allI impI ballI)
    fix k show "(env_map (st\<lparr> env := env st @ x \<rparr>) k = None) = (m k = None)" using rep_None [OF rep, of k] by simp
  next
    fix k' y v assume "env_map (st\<lparr> env := env st @ x \<rparr>) k' = Some y" "m k' = Some v"
    then show "utf8 v" "entry_at (env (st\<lparr> env := env st @ x \<rparr>)) y k' v"
      using rep_entry [OF rep, of k' y] by (auto intro: entry_at_append)
  next
    fix k1 k2 y z assume "env_map (st\<lparr> env := env st @ x \<rparr>) k1 = Some y" "env_map (st\<lparr> env := env st @ x \<rparr>) k2 = Some z" "k1 \<noteq> k2"
    then show "apart (env (st\<lparr> env := env st @ x \<rparr>)) y z"
      using rep_apart [OF rep, of k1 y k2 z] l [of k1 y] l [of k2 z] by (simp add: apart_def)
  next
    fix f assume f: "f \<in> set (freelist (st\<lparr> env := env st @ x \<rparr>))"
    then show "room_at (env (st\<lparr> env := env st @ x \<rparr>)) f"
      using room_append [OF rep_free(1) [OF rep, of f], of x] by simp
    fix k' y assume "env_map (st\<lparr> env := env st @ x \<rparr>) k' = Some y"
    then show "apart (env (st\<lparr> env := env st @ x \<rparr>)) f y"
      using rep_free(2) [OF rep, of f k' y] f l [of k' f] l [of k' y] by (simp add: apart_def)
  qed
qed

text \<open>Entering an entry at the end of the vector, for a key that has none.\<close>

lemma rep_insert:
  assumes rep: "env_rep utf8 st m" and e: "entry_at (env st) off k v" and v: "utf8 v"
    and k: "env_map st k = None"
    and above: "\<And>k' y. env_map st k' = Some y \<or> y \<in> set (freelist st) \<Longrightarrow> y + len_at (env st) y \<le> off"
  shows "env_rep utf8 (st\<lparr> env_map := (env_map st)(k \<mapsto> off) \<rparr>) (m(k \<mapsto> v))"
  unfolding env_rep_def
proof (intro conjI allI impI ballI)
  let ?st = "st\<lparr> env_map := (env_map st)(k \<mapsto> off) \<rparr>"
  fix k' show "(env_map ?st k' = None) = ((m(k \<mapsto> v)) k' = None)" using rep_None [OF rep, of k'] by simp
next
  let ?st = "st\<lparr> env_map := (env_map st)(k \<mapsto> off) \<rparr>"
  fix k' x w assume "env_map ?st k' = Some x" "(m(k \<mapsto> v)) k' = Some w"
  then show "utf8 w" "entry_at (env ?st) x k' w"
    using rep_entry [OF rep, of k' x] e v by (auto split: if_splits)
next
  let ?st = "st\<lparr> env_map := (env_map st)(k \<mapsto> off) \<rparr>"
  fix k1 k2 x y assume "env_map ?st k1 = Some x" "env_map ?st k2 = Some y" "k1 \<noteq> k2"
  then show "apart (env ?st) x y"
    using rep_apart [OF rep, of k1 x k2 y] above [of k1 x] above [of k2 y] by (auto simp: apart_def split: if_splits)
next
  let ?st = "st\<lparr> env_map := (env_map st)(k \<mapsto> off) \<rparr>"
  fix f assume f: "f \<in> set (freelist ?st)"
  then show "room_at (env ?st) f" using rep_free(1) [OF rep, of f] by simp
  fix k' x assume "env_map ?st k' = Some x"
  then show "apart (env ?st) f x"
    using rep_free(2) [OF rep, of f k' x] f above [of k f] by (auto simp: apart_def split: if_splits)
qed

lemma rep_add_free:
  assumes rep: "env_rep utf8 st m" and f: "room_at (env st) f"
    and ap: "\<And>k x. env_map st k = Some x \<Longrightarrow> apart (env st) f x"
  shows "env_rep utf8 (st\<lparr> freelist := freelist st @ [f] \<rparr>) m"
  using rep f ap by (auto simp: env_rep_def)

lemma find_free_none:
  "\<forall>f \<in> set fs. room_at e f \<and> elen < len_at e f \<Longrightarrow> find_free e elen fs = Ret None"
  by (induction fs) (auto simp: read_len_def room_at_def)

lemma push_entry_append:
  obtains x where "push_entry e k v = e @ x" "\<And>e. push_entry e k v = e @ x"
  by (rule that [of "to_ne_bytes (of_nat (entry_len k v)) @ k @ [KEY_TERM] @ v @ [ENTRY_TERM]"])
    (simp_all add: push_entry_def)

lemma append_var_rep:
  assumes rep: "env_rep utf8 st m" and v: "utf8 v" and n: "entry_len k v < 2 ^ 64"
  shows "\<exists>st'. append_var k v st = Ret st' \<and> env_rep utf8 st' (m(k \<mapsto> v))"
proof -
  obtain x where x: "push_entry (env st) k v = env st @ x" by (rule push_entry_append)
  define st1 where "st1 = st\<lparr> env := env st @ x \<rparr>"
  have rep1: "env_rep utf8 st1 m" unfolding st1_def by (rule rep_append(1) [OF rep])
  have e: "entry_at (env st1) (length (env st)) k v" using entry_at_push [OF n, of "env st"] by (simp add: st1_def x)
  have below: "y + len_at (env st1) y \<le> length (env st)" if "env_map st1 k' = Some y \<or> y \<in> set (freelist st1)" for k' y
    using rep_append(2) [OF rep, of k' y x] that by (simp add: st1_def)
  show ?thesis
  proof (cases "env_map st k")
    case None
    then have "append_var k v st = Ret (st1\<lparr> env_map := (env_map st1)(k \<mapsto> length (env st)) \<rparr>)"
      by (simp add: append_var_def Let_def st1_def x)
    moreover have "env_rep utf8 (st1\<lparr> env_map := (env_map st1)(k \<mapsto> length (env st)) \<rparr>) (m(k \<mapsto> v))"
      using None by (intro rep_insert [OF rep1 e v]) (simp add: st1_def, rule below)
    ultimately show ?thesis by blast
  next
    case (Some old)
    then have k1: "env_map st1 k = Some old" by (simp add: st1_def)
    have r: "room_at (env st1) old" using rep_room [OF rep1] k1 by blast
    have p: "old + 8 \<le> old + 8" "old + 8 + length EMPTY \<le> old + len_at (env st1) old"
      using r by (auto simp: EMPTY_def room_at_def)
    note iw = inside_write [OF rep1 k1 p]
    let ?e = "overwrite (env st1) (old + 8) EMPTY"
    define st2 where "st2 = st1\<lparr> env := ?e, env_map := (env_map st1)(k := None) \<rparr>"
    have "remove_var k st1 = Ret st2" using iw(1) by (simp add: remove_var_def k1 put_at_def st2_def)
    then have rep2: "env_rep utf8 st2 (m(k := None))" using remove_var_rep [OF rep1, of k] by simp
    have old2: "len_at ?e old = len_at (env st1) old" using iw(2) k1 by blast
    define st3 where "st3 = st2\<lparr> freelist := freelist st2 @ [old] \<rparr>"
    have rep3: "env_rep utf8 st3 (m(k := None))"
      unfolding st3_def
    proof (rule rep_add_free [OF rep2])
      show "room_at (env st2) old" using r iw(1) old2 by (simp add: room_at_def st2_def slice_simps)
      fix k' x assume a: "env_map st2 k' = Some x"
      then have "env_map st1 k' = Some x" "k' \<noteq> k" by (auto simp: st2_def split: if_splits)
      then show "apart (env st2) old x"
        using rep_apart [OF rep1 k1, of k' x] iw(2) [of k' x] old2 by (simp add: apart_def st2_def)
    qed
    have "old + len_at (env st1) old \<le> length (env st)" using below k1 by blast
    then have e3: "entry_at (env st3) (length (env st)) k v"
      using p(2) iw(1) by (auto simp: st3_def st2_def intro!: entry_at_overwrite [OF e])
    have "y + len_at (env st3) y \<le> length (env st)" if y: "env_map st3 k' = Some y \<or> y \<in> set (freelist st3)" for k' y
    proof -
      have l: "env_map st1 k' = Some y \<or> y \<in> set (freelist st1) \<or> y = old" using y by (auto simp: st3_def st2_def split: if_splits)
      then have "y + len_at (env st1) y \<le> length (env st)" using below k1 by blast
      moreover have "len_at (env st3) y = len_at (env st1) y"
        using l iw(2) [of k' y] old2 by (auto simp: st3_def st2_def)
      ultimately show ?thesis by simp
    qed
    then have "env_rep utf8 (st3\<lparr> env_map := (env_map st3)(k \<mapsto> length (env st)) \<rparr>) ((m(k := None))(k \<mapsto> v))"
      by (intro rep_insert [OF rep3 e3 v]) (simp add: st3_def st2_def)
    moreover have "append_var k v st = Ret (st3\<lparr> env_map := (env_map st3)(k \<mapsto> length (env st)) \<rparr>)"
      using iw(1) by (simp add: append_var_def Some Let_def x put_at_def st3_def st2_def st1_def)
    ultimately show ?thesis by simp
  qed
qed

lemma set_var_rep:
  assumes rep: "env_rep utf8 st m" and v: "utf8 v" and n: "entry_len k v < 2 ^ 64"
    and nf: "none_fits st (entry_len k v)"
  shows "\<exists>st'. set_var k v st = Ret st' \<and> env_rep utf8 st' (m(k \<mapsto> v))"
proof -
  have f: "find_free (env st) (entry_len k v) (freelist st) = Ret None"
    using nf rep_free(1) [OF rep] by (intro find_free_none) (auto simp: none_fits_def)
  show ?thesis
  proof (cases "env_map st k")
    case None
    then have "set_var k v st = append_var k v st" by (simp add: set_var_def f Let_def)
    then show ?thesis using append_var_rep [OF rep v n] by simp
  next
    case (Some off)
    have r: "room_at (env st) off" using rep_room [OF rep] Some by blast
    show ?thesis
    proof (cases "entry_len k v \<le> len_at (env st) off")
      case True
      then show ?thesis by (rule set_var_in_place [OF rep Some v])
    next
      case False
      then have "set_var k v st = append_var k v st"
        using r by (simp add: set_var_def f Some read_len_def room_at_def Let_def)
      then show ?thesis using append_var_rep [OF rep v n] by simp
    qed
  qed
qed

section \<open>Building the map and iterating over it\<close>

definition fresh_env :: env_map_state where
  "fresh_env = \<lparr> env = [], env_map = Map.empty, freelist = [] \<rparr>"

lemma from_iter_loop_rep:
  assumes "env_rep utf8 \<lparr> env = e, env_map = f, freelist = [] \<rparr> m"
    and "distinct (map fst kvs)" "\<forall>(k, v) \<in> set kvs. utf8 v \<and> entry_len k v < 2 ^ 64 \<and> f k = None"
  shows "\<exists>st. from_iter_loop kvs e f = Ret st \<and> env_rep utf8 st (m ++ map_of kvs) \<and>
    env st = e @ concat (map (\<lambda>(k, v). push_entry [] k v) kvs)"
  using assms
proof (induction kvs arbitrary: e f m)
  case (Cons kv kvs)
  obtain k v where kv: "kv = (k, v)" by fastforce
  let ?s = "\<lparr> env = e, env_map = f, freelist = [] \<rparr>"
  have h: "utf8 v" "entry_len k v < 2 ^ 64" "f k = None" using Cons.prems(3) by (auto simp: kv)
  have a: "append_var k v ?s = Ret \<lparr> env = push_entry e k v, env_map = f(k \<mapsto> length e), freelist = [] \<rparr>"
    by (simp add: append_var_def h(3) Let_def)
  have 1: "env_rep utf8 \<lparr> env = push_entry e k v, env_map = f(k \<mapsto> length e), freelist = [] \<rparr> (m(k \<mapsto> v))"
    using append_var_rep [OF Cons.prems(1) h(1,2)] a by simp
  have 2: "\<forall>(k', v') \<in> set kvs. utf8 v' \<and> entry_len k' v' < 2 ^ 64 \<and> (f(k \<mapsto> length e)) k' = None"
    using Cons.prems(2,3) by (force simp: kv)
  have d: "distinct (map fst kvs)" using Cons.prems(2) by simp
  from Cons.IH [OF 1 d 2] obtain st where
    st: "from_iter_loop kvs (push_entry e k v) (f(k \<mapsto> length e)) = Ret st"
    "env_rep utf8 st (m(k \<mapsto> v) ++ map_of kvs)"
    "env st = push_entry e k v @ concat (map (\<lambda>(k, v). push_entry [] k v) kvs)" by blast
  have "map_of kvs k = None" using Cons.prems(2) by (simp add: kv map_of_eq_None_iff)
  then have "m ++ map_of (kv # kvs) = m(k \<mapsto> v) ++ map_of kvs"
    by (auto simp: kv map_add_def split: option.split)
  then have "env_rep utf8 st (m ++ map_of (kv # kvs))" using st(2) by (simp only:)
  moreover have "from_iter_loop (kv # kvs) e f = Ret st" using st(1) h(3) by (simp add: kv)
  moreover have "env st = e @ concat (map (\<lambda>(k, v). push_entry [] k v) (kv # kvs))"
    by (simp add: st(3) kv push_entry_def)
  ultimately show ?case by blast
qed simp

lemma from_iter_loop_duplicate:
  "f k \<noteq> None \<Longrightarrow> k \<in> fst ` set kvs \<Longrightarrow> from_iter_loop kvs e f = Panic"
proof (induction kvs arbitrary: e f)
  case (Cons kv kvs)
  obtain a b where kv: "kv = (a, b)" by fastforce
  show ?case
  proof (cases "f a = None")
    case True
    then have "k \<in> fst ` set kvs" using Cons.prems by (auto simp: kv)
    then have "from_iter_loop kvs (push_entry e a b) (f(a \<mapsto> length e)) = Panic"
      using Cons.prems(1) True by (intro Cons.IH) auto
    then show ?thesis using True by (simp add: kv)
  qed (simp add: kv)
qed simp

lemma from_iter_loop_not_distinct:
  "\<not> distinct (map fst kvs) \<Longrightarrow> from_iter_loop kvs e f = Panic"
proof (induction kvs arbitrary: e f)
  case (Cons kv kvs)
  show ?case
  proof (cases "fst kv \<in> fst ` set kvs")
    case True
    then show ?thesis using from_iter_loop_duplicate [of "f(fst kv \<mapsto> length e)" "fst kv"] by (cases kv) simp
  next
    case False
    then show ?thesis using Cons by (cases kv) auto
  qed
qed simp

lemma iter_next_entry:
  assumes "text_ok utf8" "utf8 k" "utf8 v" "entry_len k v < 2 ^ 64"
  shows "iter_next utf8 (push_entry [] k v @ s) = Ret (Some ((k, v), s))"
proof -
  have l: "len_at (push_entry [] k v @ s) 0 = entry_len k v"
    using len_at_push [OF assms(4), of "[]"] len_at_append [of 0 "push_entry [] k v" s] by (simp add: push_entry_def)
  have n: "KEY_TERM \<notin> set k" "ENTRY_TERM \<notin> set v" "KEY_TERM \<noteq> ENTRY_TERM" using assms by (auto simp: text_ok_def KEY_TERM_def ENTRY_TERM_def)
  have d: "drop 8 (push_entry [] k v @ s) = k @ KEY_TERM # v @ ENTRY_TERM # s" by (simp add: push_entry_def)
  have s: "drop (entry_len k v) (push_entry [] k v @ s) = s" by (simp add: push_entry_def entry_len_def)
  have b: "entry_len k v \<le> length (push_entry [] k v @ s)" "\<not> length (push_entry [] k v @ s) < 8"
    by (auto simp: push_entry_def entry_len_def)
  show ?thesis
    unfolding iter_next_def Let_def l d slice_from_def
    using b s n assms(2,3) by simp
qed

lemma iter_collect_entries:
  assumes "text_ok utf8" "\<forall>(k, v) \<in> set kvs. utf8 k \<and> utf8 v \<and> entry_len k v < 2 ^ 64"
  shows "iter_collect utf8 (Suc (length kvs)) (concat (map (\<lambda>(k, v). push_entry [] k v) kvs)) = Ret kvs"
  using assms(2)
proof (induction kvs)
  case Nil
  then show ?case by (simp add: iter_next_def)
next
  case (Cons kv kvs)
  then show ?case using iter_next_entry [OF assms(1)] by (cases kv) simp
qed

section \<open>Properties\<close>

text \<open>
  C7. The environment map refines a map from keys to values: looking up a key returns the value of the
  map, setting a key updates the map at the key and removing one deletes it, and none of them panics. Setting
  needs that no free entry is as short as the entry wanted: an entry is reused only then.
\<close>

theorem env_map_refines:
  assumes "text_ok utf8" "env_rep utf8 st m" "utf8 v" "entry_len k v < 2 ^ 64" "none_fits st (entry_len k v)"
  shows "env_var utf8 st q = Ret (m q) \<and>
    (\<exists>st'. set_var k v st = Ret st' \<and> env_rep utf8 st' (m(k \<mapsto> v)) \<and>
       env_var utf8 st' k = Ret (Some v) \<and> (q \<noteq> k \<longrightarrow> env_var utf8 st' q = Ret (m q))) \<and>
    (\<exists>st'. remove_var k st = Ret st' \<and> env_rep utf8 st' (m(k := None)) \<and> env_var utf8 st' k = Ret None)"
  using set_var_rep [OF assms(2-5)] remove_var_rep [OF assms(2), of k] env_var_rep [OF assms(1)] assms(2)
  by fastforce

definition ascii :: "bytes \<Rightarrow> bool" where
  "ascii bs = list_all (\<lambda>b. b < 0x80) bs"

lemma text_ok_ascii: "text_ok ascii"
  by (auto simp: text_ok_def ascii_def list_all_iff KEY_TERM_def ENTRY_TERM_def)

lemma fresh_env_rep: "env_rep utf8 fresh_env Map.empty"
  by (simp add: env_rep_def fresh_env_def)

text \<open>\<open>HOME=/\<close>, set in the fresh map.\<close>

theorem env_map_refines_witness:
  "\<exists>st'. set_var [72, 79, 77, 69] [47] fresh_env = Ret st' \<and> env_var ascii st' [72, 79, 77, 69] = Ret (Some [47]) \<and>
     env_var ascii st' [80] = Ret None"
proof -
  have "ascii [47]" "none_fits fresh_env (entry_len [72, 79, 77, 69] [47])" "entry_len [72, 79, 77, 69] [47] < 2 ^ 64"
    by (simp_all add: ascii_def none_fits_def fresh_env_def entry_len_def)
  from env_map_refines [OF text_ok_ascii fresh_env_rep this(1,3,2), of "[80]"] show ?thesis by auto
qed

text \<open>
  Building the map from pairs with distinct keys yields a vector that represents exactly these pairs
  and that the iterator reads back in order; a repeated key panics.
\<close>

theorem env_from_iter_roundtrip:
  assumes "text_ok utf8" "\<forall>(k, v) \<in> set kvs. utf8 k \<and> utf8 v \<and> entry_len k v < 2 ^ 64"
  shows "if distinct (map fst kvs)
    then \<exists>st. from_iter_loop kvs [] Map.empty = Ret st \<and> (\<forall>k. env_var utf8 st k = Ret (map_of kvs k)) \<and>
           iter_collect utf8 (Suc (length kvs)) (env st) = Ret kvs
    else from_iter_loop kvs [] Map.empty = Panic"
proof (cases "distinct (map fst kvs)")
  case True
  have "\<forall>(k, v) \<in> set kvs. utf8 v \<and> entry_len k v < 2 ^ 64 \<and> Map.empty k = None" using assms(2) by auto
  from from_iter_loop_rep [OF fresh_env_rep [unfolded fresh_env_def] True this] obtain st where
    st: "from_iter_loop kvs [] Map.empty = Ret st" "env_rep utf8 st (map_of kvs)"
      "env st = concat (map (\<lambda>(k, v). push_entry [] k v) kvs)" by auto
  then show ?thesis using True env_var_rep [OF assms(1) st(2)] iter_collect_entries [OF assms] by simp
qed (simp add: from_iter_loop_not_distinct)

theorem env_from_iter_roundtrip_witness:
  "(\<exists>st. from_iter_loop [([72], [47]), ([80], [])] [] Map.empty = Ret st \<and>
      env_var ascii st [72] = Ret (Some [47]) \<and>
      iter_collect ascii 3 (env st) = Ret [([72], [47]), ([80], [])])"
proof -
  have "\<forall>(k, v) \<in> set [([72], [47]), ([80], [])]. ascii k \<and> ascii v \<and> entry_len k v < 2 ^ 64"
    by (simp add: ascii_def entry_len_def)
  from env_from_iter_roundtrip [OF text_ok_ascii this] show ?thesis by (force simp: numeral_3_eq_3)
qed

section \<open>Free entries\<close>

text \<open>
  The first value of \<open>A\<close> is outgrown, so its entry goes to the free list; a new key whose entry is at
  least as long takes it, and its text is written to the start of the vector, which is the entry of
  \<open>Z\<close>: looking up \<open>Z\<close> no longer gives its value.
\<close>

definition reuse_run :: "env_map_state run" where
  "reuse_run = run_bind (from_iter_loop [([90], [49, 49, 49, 49, 49, 49]), ([65], [50])] [] Map.empty)
     (env_extend [([65], [51, 51, 51, 51]), ([66], [52])])"

theorem reused_entry_corrupts:
  "run_bind reuse_run (\<lambda>st. env_var ascii st [90]) = Ret (Some [52])"
  by code_simp

text \<open>The hash map cannot be built at all, because its random state is not implemented.\<close>

theorem from_iter_panics: "from_iter kvs = Panic"
  by (simp add: from_iter_def hash_map_new_def hash_new_def random_state_new_def)

text \<open>
  A hash map can only be made with a hasher of one's own: the constructors that draw one panic, the others give an
  empty map with that hasher.
\<close>

theorem hash_map_constructors:
  "new_in a = Panic" "with_capacity_in cap a = Panic" "with_capacity cap = Panic" "hash_map_new = Panic" "shmem_alloc_new = Panic"
  "random_state_default = Panic"
  "deref_map (with_hasher s) = Map.empty" "deref_map (with_capacity_and_hasher cap s) = Map.empty"
  by (simp_all add: shmem_alloc_new_def new_in_def with_capacity_in_def with_capacity_def hash_map_new_def hash_new_def random_state_new_def
      random_state_default_def run_simps deref_map_def with_hasher_def with_capacity_and_hasher_def with_hasher_in_def
      with_capacity_and_hasher_in_def)

end
