(* ===== verification/WL_Ldso.thy ===== *)
theory WL_Ldso
  imports WL_Print WL_Tls
begin

text \<open>
  Finding modules (\<open>wl-ld-lilium/src/ldso.rs\<close>, with \<open>open_sysroot_rdonly\<close> and \<open>expand_glob\<close> of
  \<open>wl-ld-lilium/src/helpers.rs\<close> and \<open>get_cenv\<close> of \<open>wl-ld-lilium/src/env.rs\<close>): the search list is made of the
  directories of an environment variable and of a configuration file, which may include others; a
  module is the first file on the list with a suitable ELF header. The file system is a parameter. The code
  caches the sysroot descriptor and the two search lists; as the file system's answers are fixed here,
  computing them again gives what the cache holds, unless computing fails: \<open>WL_Caches\<close> threads the caches through and shows
  both.
\<close>

section \<open>The file system and path names\<close>

record filesys =
  AT_FDCWD :: u32
  fs_open :: "bytes \<Rightarrow> errno + u32"
  fs_openat :: "u32 \<Rightarrow> bytes \<Rightarrow> errno + u32"
  fs_reads :: "u32 \<Rightarrow> read_answer list"
  fs_dents :: "u32 \<Rightarrow> (errno + bytes) list"
  fs_lseek :: "u32 \<Rightarrow> seek_from \<Rightarrow> errno + u64"
  fs_close :: "u32 \<Rightarrow> errno + unit"

text \<open>The C string at the start of a buffer.\<close>

definition cstr :: "bytes \<Rightarrow> bytes" where
  "cstr bs = takeWhile (\<lambda>b. b \<noteq> 0) bs"

text \<open>
  \<open>get_cenv\<close> stops at an entry that is not UTF-8 and panics when the variable's entry has no \<open>=\<close>, because it
  slices behind the entry's end. \<open>utf8\<close> is the check of the standard library.
\<close>

fun get_cenv_loop :: "(bytes \<Rightarrow> bool) \<Rightarrow> bytes list \<Rightarrow> bytes \<Rightarrow> bytes option run" where
  "get_cenv_loop utf8 [] var = Ret None"
| "get_cenv_loop utf8 (bs # bss) var =
     (if \<not> utf8 bs then Ret None
      else case split_once \<lparr>rest = bs, sepb = 0x3D\<rparr> of
        (key, val) \<Rightarrow>
          let pos = length key + 1 in
          if key = var then (if length bs < pos then Panic else Ret (Some (drop pos bs)))
          else get_cenv_loop utf8 bss var)"

definition get_cenv :: "(bytes \<Rightarrow> bool) \<Rightarrow> bytes list option \<Rightarrow> bytes \<Rightarrow> bytes option run" where
  "get_cenv utf8 envs var = (case envs of None \<Rightarrow> Ret None | Some bss \<Rightarrow> get_cenv_loop utf8 bss var)"

record host =
  files :: filesys
  envs :: "bytes list option"
  utf8 :: "bytes \<Rightarrow> bool"

definition sysroot_fd :: "host \<Rightarrow> (errno + u32) run" where
  "sysroot_fd h =
     run_bind (get_cenv (utf8 h) (envs h) (lit ''WL_SYSROOT'')) (\<lambda>v.
       Ret (fs_open (files h) (case v of Some p \<Rightarrow> p | None \<Rightarrow> lit ''/'')))"

definition open_sysroot_rdonly :: "host \<Rightarrow> u32 \<Rightarrow> bytes \<Rightarrow> (errno + u32) run" where
  "open_sysroot_rdonly h at_fd st =
     (if 256 \<le> length st then Panic
      else let path = cstr st in
        if take 1 path = lit ''/''
        then run_bind (sysroot_fd h) (\<lambda>r.
               Ret (and_then r (\<lambda>at_fd. fs_openat (files h) at_fd (drop 1 path))))
        else Ret (fs_openat (files h) at_fd path))"

section \<open>Globs\<close>

text \<open>
  A step with a state returns its result with the new state, panics, or does not return (None).
  The directory buffer holds records with their length in bytes 16 and 17 and the name from byte 19 on; a
  record of length zero would be visited for ever.
\<close>

type_synonym 'a eff = "((errno + unit) \<times> 'a) run option"

definition eff_then :: "'a eff \<Rightarrow> ('a \<Rightarrow> 'a eff) \<Rightarrow> 'a eff" where
  "eff_then m k = (case m of Some (Ret (Inr u, a)) \<Rightarrow> k a | r \<Rightarrow> r)"

function dirent_names :: "bytes \<Rightarrow> bytes list option" where
  "dirent_names buf =
     (if buf = [] then Some []
      else let rlen = le_value (take 2 (drop 16 buf)) in
        if rlen = 0 then None
        else map_option ((#) (cstr (drop 19 buf))) (dirent_names (drop rlen buf)))"
  by pat_completeness auto

termination
  by (relation "measure length") auto

declare dirent_names.simps [simp del]

fun glob_names :: "(u32 \<Rightarrow> bytes \<Rightarrow> 'a \<Rightarrow> 'a eff) \<Rightarrow> u32 \<Rightarrow> bytes \<Rightarrow> bytes \<Rightarrow> bytes list \<Rightarrow> 'a \<Rightarrow> 'a eff" where
  "glob_names f fd prefix suffix [] a = Some (Ret (Inr (), a))"
| "glob_names f fd prefix suffix (name # names) a =
     (if has_prefix name prefix \<and> has_suffix name suffix
      then eff_then (f fd name a) (glob_names f fd prefix suffix names)
      else glob_names f fd prefix suffix names a)"

fun glob_batches ::
  "(u32 \<Rightarrow> bytes \<Rightarrow> 'a \<Rightarrow> 'a eff) \<Rightarrow> u32 \<Rightarrow> bytes \<Rightarrow> bytes \<Rightarrow> (errno + bytes) list \<Rightarrow> 'a \<Rightarrow> 'a eff" where
  "glob_batches f fd prefix suffix [] a = Some (Ret (Inr (), a))"
| "glob_batches f fd prefix suffix (Inl e # bs) a = Some (Ret (Inl e, a))"
| "glob_batches f fd prefix suffix (Inr buf # bs) a =
     (if buf = [] then Some (Ret (Inr (), a))
      else case dirent_names buf of
             None \<Rightarrow> None
           | Some names \<Rightarrow>
               eff_then (glob_names f fd prefix suffix names a) (glob_batches f fd prefix suffix bs))"

definition expand_glob :: "host \<Rightarrow> bytes \<Rightarrow> (u32 \<Rightarrow> bytes \<Rightarrow> 'a \<Rightarrow> 'a eff) \<Rightarrow> 'a \<Rightarrow> 'a eff" where
  "expand_glob h path f a =
     (case split_once \<lparr>rest = path, sepb = 0x2A\<rparr> of
        (prefix, suffix) \<Rightarrow>
          case rsplit_once \<lparr>rest = prefix, sepb = 0x2F\<rparr> of
            (dir, prefix) \<Rightarrow>
              case open_sysroot_rdonly h (AT_FDCWD (files h)) dir of
                Panic \<Rightarrow> Some Panic
              | Ret (Inl e) \<Rightarrow> Some (Ret (Inl e, a))
              | Ret (Inr fd) \<Rightarrow> glob_batches f fd prefix suffix (fs_dents (files h) fd) a)"

section \<open>Configuration files\<close>

definition is_ascii_space :: "u8 \<Rightarrow> bool" where
  "is_ascii_space b \<longleftrightarrow> b = 9 \<or> b = 10 \<or> b = 12 \<or> b = 13 \<or> b = 32"

definition trim_ascii :: "bytes \<Rightarrow> bytes" where
  "trim_ascii bs = rev (dropWhile is_ascii_space (rev (dropWhile is_ascii_space bs)))"

text \<open>
  The lines a reader yields one after the other, and how that ends. A line is a prefix of the buffer
  that the call has just written, so the buffer's earlier contents do not matter.
\<close>

datatype lines_end = Done | Failed errno | Panicked

lemma read_line_loop_pending:
  "read_line_loop n pos s = Ret (Inr (Some l), n', s') \<Longrightarrow>
   pending s' \<le> pending s \<and> (pos < length n \<longrightarrow> pending s' < pending s)"
proof (induction n pos s rule: read_line_loop.induct)
  case (1 n pos s)
  obtain x s1 where x: "fill_buf s = (x, s1)" by (cases "fill_buf s")
  then obtain buf where b: "fill_buf s = (Inr buf, s1)" "buf \<noteq> []"
    using 1(2) by (cases x) (auto simp: read_line_loop.simps [of n pos s] split: if_splits)
  obtain found m where le: "line_end buf = (found, m)" by fastforce
  let ?k = "min m (length n - pos)"
  let ?n = "take pos n @ overwrite (drop pos n) 0 (take ?k buf)"
  obtain s2 where c: "consume (?k + of_bool found) s1 = Ret s2"
    using 1(2) b le by (cases "consume (?k + of_bool found) s1") (auto simp: read_line_loop.simps [of n pos s] Let_def)
  have p: "pending s2 + (?k + of_bool found) \<le> pending s"
    using fill_buf_pending [OF b(1)] consume_pending [OF c] by simp
  have pos: "0 < ?k + of_bool found" if "pos < length n"
    using le b(2) that by (cases found) (auto simp: line_end_def split: option.splits)
  show ?case
  proof (cases "length n - pos < m \<or> found")
    case True
    then have "s' = s2" using 1(2) b le c by (simp add: read_line_loop.simps [of n pos s] Let_def)
    then show ?thesis using p pos by auto
  next
    case False
    then have "read_line_loop ?n (pos + ?k) s2 = Ret (Inr (Some l), n', s')"
      using 1(2) b le c by (simp add: read_line_loop.simps [of n pos s] Let_def)
    from 1(1) [OF b(1) [symmetric] refl b(2) refl le [symmetric] refl refl c False this]
    have "pending s' \<le> pending s2" by simp
    then show ?thesis using p pos by auto
  qed
qed

function config_lines :: "source \<Rightarrow> bytes list \<times> lines_end" where
  "config_lines s =
     (case read_line_static (replicate 256 0) s of
        Panic \<Rightarrow> ([], Panicked)
      | Ret (Inl e, v, s') \<Rightarrow> ([], Failed e)
      | Ret (Inr None, v, s') \<Rightarrow> ([], Done)
      | Ret (Inr (Some str), v, s') \<Rightarrow> (case config_lines s' of (ls, fin) \<Rightarrow> (str # ls, fin)))"
  by pat_completeness auto

termination
  by (relation "measure pending") (auto simp: read_line_static_def dest!: read_line_loop_pending)

declare config_lines.simps [simp del]

definition clean_line :: "bytes \<Rightarrow> bytes" where
  "clean_line str = trim_ascii (fst (split_once \<lparr>rest = str, sepb = 0x23\<rparr>))"

fun config_items :: "(u32 \<Rightarrow> bytes \<Rightarrow> bytes eff) \<Rightarrow> host \<Rightarrow> bytes list \<Rightarrow> bytes \<Rightarrow> bytes eff" where
  "config_items read_file h [] buf = Some (Ret (Inr (), buf))"
| "config_items read_file h (str # strs) buf =
     (let st = clean_line str in
      if st = [] then config_items read_file h strs buf
      else if take 8 st = lit ''include ''
      then let path = drop 8 st in
        case open_sysroot_rdonly h (AT_FDCWD (files h)) path of
          Panic \<Rightarrow> Some Panic
        | Ret (Inr fd) \<Rightarrow> eff_then (read_file fd buf) (config_items read_file h strs)
        | Ret (Inl e) \<Rightarrow>
            if split_find \<lparr>rest = path, sepb = 0x2A\<rparr> \<noteq> None
            then eff_then
              (expand_glob h path
                (\<lambda>dirfd name buf.
                   case open_sysroot_rdonly h dirfd name of
                     Panic \<Rightarrow> Some Panic
                   | Ret (Inl e) \<Rightarrow> Some (Ret (Inl e, buf))
                   | Ret (Inr fd) \<Rightarrow> read_file fd buf) buf)
              (config_items read_file h strs)
            else Some (Ret (Inl e, buf))
      else config_items read_file h strs (buf @ st @ [0x1E]))"

text \<open>A file may include itself: \<open>None\<close> when the includes are nested deeper than the fuel.\<close>

fun read_config_file :: "nat \<Rightarrow> host \<Rightarrow> u32 \<Rightarrow> bytes \<Rightarrow> bytes eff" where
  "read_config_file 0 h fd buf = None"
| "read_config_file (Suc n) h fd buf =
     (case config_lines (reader_new fd, fs_reads (files h) fd) of
        (ls, fin) \<Rightarrow>
          eff_then (config_items (read_config_file n h) h ls buf) (\<lambda>buf.
            case fin of
              Panicked \<Rightarrow> Some Panic
            | Failed e \<Rightarrow> Some (Ret (Inl e, buf))
            | Done \<Rightarrow> Some (Ret (fs_close (files h) fd, buf))))"

definition init_cache_slow :: "nat \<Rightarrow> host \<Rightarrow> bytes \<Rightarrow> bytes \<Rightarrow> (errno + bytes) run option" where
  "init_cache_slow n h env_name config_path =
     (let vs = (case get_env (envs h) env_name of None \<Rightarrow> [] | Some v \<Rightarrow> split_items 0x3A v);
          buf = concat (map (\<lambda>v. v @ [0x1E]) vs)
      in case open_sysroot_rdonly h (AT_FDCWD (files h)) config_path of
           Panic \<Rightarrow> Some Panic
         | Ret (Inl e) \<Rightarrow> Some (Ret (Inr buf))
         | Ret (Inr fd) \<Rightarrow>
             (case read_config_file n h fd buf of
                None \<Rightarrow> None
              | Some Panic \<Rightarrow> Some Panic
              | Some (Ret (Inl e, buf)) \<Rightarrow> Some (Ret (Inl e))
              | Some (Ret (Inr u, buf)) \<Rightarrow> Some (Ret (Inr buf))))"

section \<open>Opening a module\<close>

definition env_or :: "host \<Rightarrow> string \<Rightarrow> string \<Rightarrow> bytes" where
  "env_or h var dflt = (case get_env (envs h) (lit var) of Some v \<Rightarrow> v | None \<Rightarrow> lit dflt)"

definition search_list :: "nat \<Rightarrow> host \<Rightarrow> SearchType \<Rightarrow> (errno + bytes) run option" where
  "search_list n h search =
     (case search of
        Host \<Rightarrow> init_cache_slow n h (lit ''LD_LIBRARY_PATH_WL_HOST'') (env_or h ''WL_NATIVE_LD_SO_CONF'' ''/etc/ld.so.conf'')
      | Winter \<Rightarrow> init_cache_slow n h (lit ''LD_LIBRARY_PATH_WL_LILIUM'')
          (env_or h ''WL_SYSROOT_LD_SO_CONF'' ''/etc/ld-lilium.so.conf''))"

text \<open>The ELF header's layout and the host's constants come from \<open>ld_so_impl\<close>.\<close>

record elf_host =
  header_len :: nat
  class_of :: "bytes \<Rightarrow> u8"
  machine_of :: "bytes \<Rightarrow> u16"
  EI_CLASS :: u8
  EM_HOST :: u16

text \<open>What an iteration of the loop comes to: go on (with the descriptor that stays open), or leave.\<close>

datatype attempt = Absent | Unsuitable u32 | Leave "errno + u32" | Aborted

definition check_header :: "host \<Rightarrow> elf_host \<Rightarrow> u32 \<Rightarrow> attempt" where
  "check_header h E fd =
     (case read_exact (replicate 16 0) (reader_new fd, fs_reads (files h) fd) of
        Panic \<Rightarrow> Aborted
      | Ret (Inl e, d, s) \<Rightarrow> Unsuitable fd
      | Ret (Inr u, ident, s) \<Rightarrow>
          if class_of E ident \<noteq> EI_CLASS E then Unsuitable fd
          else (case read_exact (replicate (header_len E - 16) 0) s of
                  Panic \<Rightarrow> Aborted
                | Ret (Inl e, d, s) \<Rightarrow> Unsuitable fd
                | Ret (Inr u, rst, s) \<Rightarrow>
                    if machine_of E (ident @ rst) \<noteq> EM_HOST E then Unsuitable fd
                    else (case fst (reader_seek (fs_lseek (files h) fd) (Start 0) (fst s)) of
                            Inl e \<Rightarrow> Leave (Inl e)
                          | Inr _ \<Rightarrow> Leave (Inr fd))))"

definition try_directory :: "host \<Rightarrow> elf_host \<Rightarrow> bytes \<Rightarrow> bytes \<Rightarrow> attempt" where
  "try_directory h E name p =
     (if 4096 \<le> length p + 1 + length name then Aborted
      else case open_sysroot_rdonly h (AT_FDCWD (files h)) (p @ [0x2F] @ name) of
             Panic \<Rightarrow> Aborted
           | Ret (Inl e) \<Rightarrow> if e = ENOENT \<or> e = EACCES then Absent else Leave (Inl e)
           | Ret (Inr fd) \<Rightarrow> check_header h E fd)"

text \<open>The second component collects the descriptors of unsuitable files, which nothing closes.\<close>

fun open_module_loop :: "host \<Rightarrow> elf_host \<Rightarrow> bytes \<Rightarrow> bytes list \<Rightarrow> ((errno + u32) \<times> u32 list) run" where
  "open_module_loop h E name [] = Ret (Inl ENOENT, [])"
| "open_module_loop h E name (p # ps) =
     (case try_directory h E name p of
        Aborted \<Rightarrow> Panic
      | Leave r \<Rightarrow> Ret (r, [])
      | Absent \<Rightarrow> open_module_loop h E name ps
      | Unsuitable fd \<Rightarrow> run_bind (open_module_loop h E name ps) (\<lambda>(r, fds). Ret (r, fd # fds)))"

definition open_module :: "nat \<Rightarrow> host \<Rightarrow> elf_host \<Rightarrow> SearchType \<Rightarrow> bytes \<Rightarrow> ((errno + u32) \<times> u32 list) run option" where
  "open_module n h E search name =
     (case search_list n h search of
        None \<Rightarrow> None
      | Some Panic \<Rightarrow> Some Panic
      | Some (Ret (Inl e)) \<Rightarrow> Some (Ret (Inl e, []))
      | Some (Ret (Inr path)) \<Rightarrow> Some (open_module_loop h E name (split_items 0x1E path)))"

definition default_subsystems :: "bytes list" where
  "default_subsystems = map lit [''libusi-base.so'', ''libusi-thread.so'', ''libusi-io.so'', ''libusi-process.so'',
     ''libusi-debug.so'', ''libusi-kmgmt.so'']"

definition loader_find :: "nat \<Rightarrow> host \<Rightarrow> elf_host \<Rightarrow> bytes \<Rightarrow> SearchType \<Rightarrow> (load_error + u32) run option" where
  "loader_find n h E soname search =
     (if search = Winter \<and> soname \<in> set default_subsystems then Some (Ret (Inl AssumePresent))
      else map_option (\<lambda>r. run_bind r (\<lambda>(x, fds).
             Ret (case x of Inl e \<Rightarrow> Inl ObjectNotFound | Inr fd \<Rightarrow> Inr fd)))
           (open_module n h E search soname))"

section \<open>Loading a subsystem\<close>

text \<open>
  The handle of a subsystem's library. Names are built in buffers of 96 bytes; a name that does not fit
  panics. A handle that cannot be found ends the process through \<open>resolve_error\<close>, the left summand.
\<close>

definition name_buffer :: "bytes list \<Rightarrow> bytes \<Rightarrow> bytes run" where
  "name_buffer parts dest = copy_to_slice_head dest (concat parts)"

definition until_nul :: "bytes \<Rightarrow> bytes run" where
  "until_nul bs = (if 0 \<in> set bs then Ret (cstr bs) else Panic)"

definition or_exit :: "(load_error + u32) run option \<Rightarrow> (unit + u32) run option" where
  "or_exit r = map_option (\<lambda>r. run_bind r (\<lambda>x. Ret (case x of Inl e \<Rightarrow> Inl () | Inr fd \<Rightarrow> Inr fd))) r"

definition subsystem_handle :: "nat \<Rightarrow> host \<Rightarrow> elf_host \<Rightarrow> bytes \<Rightarrow> (unit + u32) run option" where
  "subsystem_handle n h E name =
     (case name_buffer [lit ''libusi-'', name, lit ''.so''] (replicate 96 0) of
        Panic \<Rightarrow> Some Panic
      | Ret _ \<Rightarrow>
          case name_buffer [lit ''WL_SUBSYS_'', name] (replicate 96 0) of
            Panic \<Rightarrow> Some Panic
          | Ret var_name \<Rightarrow>
              let env_name = take (10 + length name) var_name in
              case get_env (envs h) env_name of
                Some var \<Rightarrow>
                  if 0x2F \<in> set var
                  then (case open_sysroot_rdonly h (AT_FDCWD (files h)) var of
                          Panic \<Rightarrow> Some Panic
                        | Ret (Inl e) \<Rightarrow> Some (Ret (Inl ()))
                        | Ret (Inr fd) \<Rightarrow> Some (Ret (Inr fd)))
                  else (case get_cenv (utf8 h) (envs h) env_name of
                          Panic \<Rightarrow> Some Panic
                        | Ret None \<Rightarrow> Some Panic
                        | Ret (Some override_soname) \<Rightarrow> or_exit (loader_find n h E override_soname Host))
              | None \<Rightarrow>
                  (case run_bind (name_buffer [lit ''libwl-usi-'', name, lit ''.so''] var_name) until_nul of
                     Panic \<Rightarrow> Some Panic
                   | Ret soname \<Rightarrow> or_exit (loader_find n h E soname Host)))"

section \<open>The lines of a file\<close>

lemma line_result_line:
  assumes "line_result (l @ 10 # r) room out left" "10 \<notin> set l" "length l \<le> room"
  shows "out = Some l \<and> left = r"
proof -
  have u: "L = l \<and> t = r" if "l @ 10 # r = L @ 10 # t" "10 \<notin> set L" for L t
  proof -
    have "takeWhile (\<lambda>b. b \<noteq> 10) (l @ 10 # r) = l" "takeWhile (\<lambda>b. b \<noteq> 10) (L @ 10 # t) = L"
      using assms(2) that(2) by (auto simp: takeWhile_tail)
    then show ?thesis using that(1) by simp
  qed
  have "10 \<in> set (take (Suc room) (l @ 10 # r))" using assms(3) by (simp add: Suc_diff_le)
  then show ?thesis using assms(1) u unfolding line_result_def by auto
qed

lemma line_result_rest:
  "line_result t room out left \<Longrightarrow> 10 \<notin> set t \<Longrightarrow> length t \<le> room \<Longrightarrow> out = None"
  by (auto simp: line_result_def)

lemma read_line_static_result:
  assumes "source_ok False s"
  obtains out n' s' where "read_line_static n s = Ret (Inr out, n', s')" "source_ok False s'"
    "line_result (stream s) (length n) out (stream s')"
proof -
  have "map_option ((@) (take 0 n)) out = out" for out by (cases out) auto
  then show thesis using read_line_loop_result [OF assms, of 0 n] that by (auto simp: read_line_static_def)
qed

text \<open>A last line without its line end is lost.\<close>

lemma config_lines_spec:
  assumes "source_ok False s" "stream s = terminate_all 10 ls @ t"
    and "\<forall>l \<in> set ls. 10 \<notin> set l \<and> length l \<le> 256" "10 \<notin> set t" "length t \<le> 256"
  shows "config_lines s = (ls, Done)"
  using assms
proof (induction ls arbitrary: s)
  case Nil
  obtain out n' s' where r: "read_line_static (replicate 256 0) s = Ret (Inr out, n', s')"
    "line_result (stream s) (length (replicate 256 (0 :: u8))) out (stream s')"
    by (rule read_line_static_result [OF Nil(1)])
  have "out = None" using line_result_rest [OF r(2)] Nil by simp
  then show ?case using r(1) by (simp add: config_lines.simps [of s])
next
  case (Cons l ls)
  obtain out n' s' where r: "read_line_static (replicate 256 0) s = Ret (Inr out, n', s')" "source_ok False s'"
    "line_result (stream s) (length (replicate 256 (0 :: u8))) out (stream s')"
    by (rule read_line_static_result [OF Cons.prems(1)])
  have "line_result (l @ 10 # (terminate_all 10 ls @ t)) 256 out (stream s')" using r(3) Cons.prems(2) by simp
  then have "out = Some l \<and> stream s' = terminate_all 10 ls @ t"
    by (rule line_result_line) (use Cons.prems(3) in auto)
  moreover from this have "config_lines s' = (ls, Done)" using Cons r(2) by simp
  ultimately show ?case using r(1) by (simp add: config_lines.simps [of s])
qed

definition plain_lines :: "bytes list \<Rightarrow> bool" where
  "plain_lines ls \<longleftrightarrow> list_all (\<lambda>l. take 8 (clean_line l) \<noteq> lit ''include '') ls"

lemma config_items_plain:
  "plain_lines ls \<Longrightarrow>
   config_items rf h ls buf = Some (Ret (Inr (), buf @ terminate_all 0x1E (filter (\<lambda>l. l \<noteq> []) (map clean_line ls))))"
  by (induction ls arbitrary: buf) (auto simp: plain_lines_def Let_def)

section \<open>Headers\<close>

definition suits :: "host \<Rightarrow> elf_host \<Rightarrow> u32 \<Rightarrow> bool" where
  "suits h E fd \<longleftrightarrow> (let S = stream (reader_new fd, fs_reads (files h) fd) in
     header_len E \<le> length S \<and> class_of E (take 16 S) = EI_CLASS E \<and> machine_of E (take (header_len E) S) = EM_HOST E)"

definition readable :: "host \<Rightarrow> u32 \<Rightarrow> bool" where
  "readable h fd \<longleftrightarrow> source_ok True (reader_new fd, fs_reads (files h) fd) \<and> fs_lseek (files h) fd (Start 0) = Inr 0"

lemma read_exact_enough:
  assumes "source_ok True s" "length dest \<le> length (stream s)"
  obtains s' where "read_exact dest s = Ret (Inr (), take (length dest) (stream s), s')" "source_ok True s'"
    "stream s' = drop (length dest) (stream s)"
  using read_exact_loop_spec [OF assms(1), of 0 dest] assms(2) that
  by (auto simp: read_exact_def overwrite_def)

lemma read_exact_short:
  assumes "source_ok True s" "length (stream s) < length dest"
  obtains d s' where "read_exact dest s = Ret (Inl ENODATA, d, s')"
  using read_exact_loop_spec [OF assms(1), of 0 dest] assms(2) that by (auto simp: read_exact_def)

lemma check_header_spec:
  assumes "readable h fd" "16 \<le> header_len E"
  shows "check_header h E fd = (if suits h E fd then Leave (Inr fd) else Unsuitable fd)"
proof -
  let ?s = "(reader_new fd, fs_reads (files h) fd)"
  let ?S = "stream ?s"
  have ok: "source_ok True ?s" using assms(1) by (simp add: readable_def)
  show ?thesis
  proof (cases "16 \<le> length ?S")
    case False
    then obtain d s' where "read_exact (replicate 16 0) ?s = Ret (Inl ENODATA, d, s')"
      using read_exact_short [OF ok, of "replicate 16 0"] by auto
    moreover have "\<not> suits h E fd" using False assms(2) by (simp add: suits_def Let_def)
    ultimately show ?thesis by (simp add: check_header_def)
  next
    case True
    then obtain s1 where 1: "read_exact (replicate 16 0) ?s = Ret (Inr (), take 16 ?S, s1)" "source_ok True s1"
      "stream s1 = drop 16 ?S"
      using read_exact_enough [OF ok, of "replicate 16 0"] by auto
    let ?d = "replicate (header_len E - 16) (0 :: u8)"
    show ?thesis
    proof (cases "header_len E \<le> length ?S")
      case False
      then have "length (stream s1) < length ?d" using True by (simp add: 1(3) diff_less_mono)
      then obtain d s' where "read_exact ?d s1 = Ret (Inl ENODATA, d, s')"
        by (rule read_exact_short [OF 1(2)])
      then show ?thesis using False 1(1) by (simp add: check_header_def suits_def Let_def)
    next
      case len: True
      then have "length ?d \<le> length (stream s1)" by (simp add: 1(3) diff_le_mono)
      then obtain s2 where "read_exact ?d s1 = Ret (Inr (), take (length ?d) (stream s1), s2)"
        by (rule read_exact_enough [OF 1(2)])
      then have 2: "read_exact ?d s1 = Ret (Inr (), take (header_len E - 16) (drop 16 ?S), s2)" by (simp add: 1(3))
      have "take 16 ?S @ take (header_len E - 16) (drop 16 ?S) = take (header_len E) ?S"
        using assms(2) take_add [of 16 "header_len E - 16" ?S] by simp
      then show ?thesis using 1(1) 2 assms(1) len
        by (simp add: check_header_def suits_def readable_def reader_seek_def Let_def)
    qed
  qed
qed

definition module_at :: "host \<Rightarrow> bytes \<Rightarrow> bytes \<Rightarrow> u32 option" where
  "module_at h name p =
     (case open_sysroot_rdonly h (AT_FDCWD (files h)) (p @ [0x2F] @ name) of Ret (Inr fd) \<Rightarrow> Some fd | _ \<Rightarrow> None)"

text \<open>Directories that can be searched: the path is short, and the file is absent or can be read.\<close>

definition searchable :: "host \<Rightarrow> bytes \<Rightarrow> bytes \<Rightarrow> bool" where
  "searchable h name p \<longleftrightarrow> length p + 1 + length name < 4096 \<and>
     (case open_sysroot_rdonly h (AT_FDCWD (files h)) (p @ [0x2F] @ name) of
        Panic \<Rightarrow> False
      | Ret (Inl e) \<Rightarrow> e = ENOENT \<or> e = EACCES
      | Ret (Inr fd) \<Rightarrow> readable h fd)"

lemma try_directory_spec:
  assumes "searchable h name p" "16 \<le> header_len E"
  shows "try_directory h E name p =
    (case module_at h name p of None \<Rightarrow> Absent
     | Some fd \<Rightarrow> if suits h E fd then Leave (Inr fd) else Unsuitable fd)"
  using assms check_header_spec [OF _ assms(2)]
  by (auto simp: searchable_def module_at_def try_directory_def split: run.splits sum.splits)

lemma open_module_loop_spec:
  assumes "list_all (searchable h name) ps" "16 \<le> header_len E"
  shows "open_module_loop h E name ps =
    (let fds = List.map_filter (module_at h name) ps in
     Ret (case find (suits h E) fds of None \<Rightarrow> Inl ENOENT | Some fd \<Rightarrow> Inr fd, takeWhile (\<lambda>fd. \<not> suits h E fd) fds))"
  using assms(1)
proof (induction ps)
  case Nil
  then show ?case by (simp add: map_filter_simps)
next
  case (Cons p ps)
  then show ?case
    using try_directory_spec [OF _ assms(2), of h name p]
    by (auto simp: map_filter_simps Let_def split: option.splits)
qed

section \<open>Properties\<close>

text \<open>
  C37. The search list is what the environment variable and the configuration file say: its entries
  are the directories of the variable, in order, followed by the lines of the file without comments, blanks
  around them and empty lines. The read ends, and it ends without an error when the kernel closes the file. A last line
  without a line end is not read.
\<close>

theorem search_list_contents:
  assumes open_ok: "open_sysroot_rdonly h (AT_FDCWD (files h)) conf = Ret (Inr fd)"
    and source: "source_ok False (reader_new fd, fs_reads (files h) fd)"
    and lines: "stream (reader_new fd, fs_reads (files h) fd) = terminate_all 10 ls @ t"
    and short: "list_all (\<lambda>l. 10 \<notin> set l \<and> length l \<le> 256) (t # ls)"
    and plain: "plain_lines ls"
    and close: "fs_close (files h) fd = Inr ()"
    and dirs: "ds = (case get_env (envs h) var of None \<Rightarrow> [] | Some v \<Rightarrow> split_items 0x3A v)"
    and clean: "list_all (\<lambda>d. 0x1E \<notin> set d) (ds @ map clean_line ls)"
  shows "\<exists>path. init_cache_slow (Suc n) h var conf = Some (Ret (Inr path)) \<and>
    split_items 0x1E path = ds @ filter (\<lambda>l. l \<noteq> []) (map clean_line ls)"
proof -
  let ?cs = "filter (\<lambda>l. l \<noteq> []) (map clean_line ls)"
  have "config_lines (reader_new fd, fs_reads (files h) fd) = (ls, Done)"
    using short by (intro config_lines_spec [OF source lines]) (auto simp: list_all_iff)
  then have "init_cache_slow (Suc n) h var conf = Some (Ret (Inr (terminate_all 0x1E ds @ terminate_all 0x1E ?cs)))"
    using open_ok close
    by (simp add: init_cache_slow_def Let_def dirs [symmetric] terminate_all_def [symmetric] config_items_plain [OF plain]
        eff_then_def)
  moreover have "split_items 0x1E (terminate_all 0x1E ds @ terminate_all 0x1E ?cs @ []) = ds @ ?cs @ split_items 0x1E []"
    using clean by (subst split_items_terminated, force simp: list_all_iff)
      (subst split_items_terminated, auto simp: list_all_iff)
  ultimately show ?thesis by simp
qed

text \<open>
  C9. A module is the first file along the search list whose ELF header suits the host: directories in
  which the file is missing or may not be read are passed over, and so are files that are too short or made
  for another class or machine; with none left the error is \<open>ENOENT\<close>. The descriptors of the files that
  were passed over stay open.
\<close>

theorem open_module_first:
  assumes "search_list n h search = Some (Ret (Inr (terminate_all 0x1E ps)))"
    and "list_all (\<lambda>p. 0x1E \<notin> set p \<and> searchable h name p) ps" "16 \<le> header_len E"
  shows "open_module n h E search name = Some (Ret
    (let fds = List.map_filter (module_at h name) ps in
     (case find (suits h E) fds of None \<Rightarrow> Inl ENOENT | Some fd \<Rightarrow> Inr fd, takeWhile (\<lambda>fd. \<not> suits h E fd) fds)))"
proof -
  have "split_items 0x1E (terminate_all 0x1E ps) = ps"
    using split_items_terminated [of ps "0x1E" "[]"] assms(2) by (simp add: list_all_iff)
  moreover have "list_all (searchable h name) ps" using assms(2) by (simp add: list_all_iff)
  ultimately show ?thesis
    using assms(1) open_module_loop_spec [OF _ assms(3), of h name ps] by (simp add: open_module_def Let_def)
qed

text \<open>A host with the library in \<open>/lib\<close> (descriptor 5) and an empty file of that name in \<open>/opt\<close> (descriptor 4).\<close>

definition demo_files :: filesys where
  "demo_files = \<lparr> AT_FDCWD = 100, fs_open = (\<lambda>p. Inr 3),
     fs_openat = (\<lambda>fd p. if p = lit ''etc/ld.so.conf'' then Inr 6
        else if p = lit ''opt/a'' then Inr 4 else if p = lit ''lib/a'' then Inr 5 else Inl ENOENT),
     fs_reads = (\<lambda>fd. if fd = 6 then [Data (lit ''/lib # x''), Data [10]]
        else if fd = 5 then [Data (replicate 20 2)] else []),
     fs_dents = (\<lambda>fd. []), fs_lseek = (\<lambda>fd p. Inr 0), fs_close = (\<lambda>fd. Inr ()) \<rparr>"

definition demo_host :: host where
  "demo_host = \<lparr> files = demo_files, envs = Some [lit ''LD_LIBRARY_PATH_WL_HOST=/opt:/usr''], utf8 = (\<lambda>bs. True) \<rparr>"

definition demo_elf :: elf_host where
  "demo_elf = \<lparr> header_len = 20, class_of = (\<lambda>bs. bs ! 4), machine_of = (\<lambda>bs. ucast (bs ! 18)), EI_CLASS = 2, EM_HOST = 2 \<rparr>"

lemma demo_opens:
  "open_sysroot_rdonly demo_host 100 (lit ''/etc/ld.so.conf'') = Ret (Inr 6)"
  "open_sysroot_rdonly demo_host 100 (lit ''/opt'' @ [0x2F] @ lit ''a'') = Ret (Inr 4)"
  "open_sysroot_rdonly demo_host 100 (lit ''/usr'' @ [0x2F] @ lit ''a'') = Ret (Inl ENOENT)"
  "open_sysroot_rdonly demo_host 100 (lit ''/lib'' @ [0x2F] @ lit ''a'') = Ret (Inr 5)"
  by code_simp+

lemma demo_env:
  "get_env (envs demo_host) (lit ''LD_LIBRARY_PATH_WL_HOST'') = Some (lit ''/opt:/usr'')"
  "split_items 0x3A (lit ''/opt:/usr'') = [lit ''/opt'', lit ''/usr'']"
  "clean_line (lit ''/lib # x'') = lit ''/lib''" "take 8 (lit ''/lib'') \<noteq> lit ''include ''"
  "lit ''/lib'' \<noteq> []"
  by code_simp+

lemma demo_bytes:
  "list_all (\<lambda>d. 0x1E \<notin> set d) [lit ''/opt'', lit ''/usr'', lit ''/lib'']"
  "10 \<notin> set (lit ''/lib # x'') \<and> length (lit ''/lib # x'') = 8" "lit ''/lib # x'' \<noteq> []"
  by code_simp+

lemma demo_config:
  "source_ok False (reader_new 6, fs_reads demo_files 6) \<and>
     stream (reader_new 6, fs_reads demo_files 6) = terminate_all 10 [lit ''/lib # x''] @ []"
  using demo_bytes by (simp add: demo_files_def source_ok_def reader_new_def stream_def reader_buf_def)

lemma demo_search:
  "search_list 1 demo_host Host = Some (Ret (Inr (terminate_all 0x1E [lit ''/opt'', lit ''/usr'', lit ''/lib''])))"
  by code_simp

theorem search_list_contents_witness:
  "\<exists>path. init_cache_slow 1 demo_host (lit ''LD_LIBRARY_PATH_WL_HOST'') (lit ''/etc/ld.so.conf'') = Some (Ret (Inr path)) \<and>
     split_items 0x1E path = [lit ''/opt'', lit ''/usr'', lit ''/lib'']"
proof -
  have f: "files demo_host = demo_files" "AT_FDCWD demo_files = 100" "fs_close demo_files 6 = Inr ()"
    by (simp_all add: demo_host_def demo_files_def)
  have "\<exists>path. init_cache_slow (Suc 0) demo_host (lit ''LD_LIBRARY_PATH_WL_HOST'') (lit ''/etc/ld.so.conf'') = Some (Ret (Inr path)) \<and>
     split_items 0x1E path = [lit ''/opt'', lit ''/usr''] @ filter (\<lambda>l. l \<noteq> []) (map clean_line [lit ''/lib # x''])"
    using demo_config demo_bytes
    by (intro search_list_contents [where fd = 6 and t = "[]"])
      (simp_all add: f demo_opens demo_env plain_lines_def)
  then show ?thesis by (simp add: demo_env)
qed

theorem open_module_first_witness:
  "open_module 1 demo_host demo_elf Host (lit ''a'') = Some (Ret (Inr 5, [4]))"
proof -
  have f: "files demo_host = demo_files" "AT_FDCWD demo_files = 100" by (simp_all add: demo_host_def demo_files_def)
  have s: "stream (reader_new 5, fs_reads demo_files 5) = replicate 20 2" "stream (reader_new 4, fs_reads demo_files 4) = []"
    by (simp_all add: demo_files_def reader_new_def stream_def reader_buf_def)
  have r: "readable demo_host 4" "readable demo_host 5"
    by (simp_all add: readable_def f) (simp_all add: demo_files_def source_ok_def reader_new_def)
  have m: "module_at demo_host (lit ''a'') (lit ''/opt'') = Some 4" "module_at demo_host (lit ''a'') (lit ''/usr'') = None"
    "module_at demo_host (lit ''a'') (lit ''/lib'') = Some 5"
    using demo_opens by (simp_all add: module_at_def f)
  have u: "\<not> suits demo_host demo_elf 4" "suits demo_host demo_elf 5"
    by (simp_all add: suits_def f s demo_elf_def Let_def)
  have l: "list_all (\<lambda>p. 0x1E \<notin> set p \<and> searchable demo_host (lit ''a'') p) [lit ''/opt'', lit ''/usr'', lit ''/lib'']"
    using demo_bytes(1) demo_opens r by (simp add: searchable_def f) (simp add: lit_def)
  show ?thesis
    using open_module_first [OF demo_search l, of demo_elf] u
    by (simp add: demo_elf_def [THEN arg_cong, of header_len] m map_filter_simps)
qed

end
