(* ===== verification/WL_Entry.thy ===== *)
theory WL_Entry
  imports WL_Ldso
begin

text \<open>
  Program start (\<open>wl-ld-lilium/src/entry.rs\<close>, \<open>wl-ld-lilium/src/entry/x86_64.rs\<close>, with \<open>NullTerm\<close> of
  \<open>wl-ld-lilium/src/helpers.rs\<close> and the generator of \<open>wl-helpers/src/rand.rs\<close>): taking the kernel's start-up
  stack apart, reading the auxiliary vector, choosing the program from the arguments, laying out the
  address space, setting up thread-local storage and building the stack for the program.
\<close>

section \<open>Null-terminated arrays\<close>

text \<open>
  \<open>is_zero\<close> compares the bytes of a value with zero. \<open>m\<close> gives the bytes of the elements from a
  pointer on; the scan for the end may not find one, which is the value None.
\<close>

fun is_zero :: "bytes \<Rightarrow> bool" where
  "is_zero [] = True"
| "is_zero (b # bs) = (if b \<noteq> 0 then False else is_zero bs)"

fun null_term_next :: "('t \<Rightarrow> bytes) \<Rightarrow> 't list \<Rightarrow> ('t \<times> 't list) option" where
  "null_term_next key [] = None"
| "null_term_next key (x # xs) = (if is_zero (key x) then None else Some (x, xs))"

fun as_slice :: "('t \<Rightarrow> bytes) \<Rightarrow> 't list \<Rightarrow> 't list option" where
  "as_slice key [] = None"
| "as_slice key (x # xs) = (if is_zero (key x) then Some [] else map_option ((#) x) (as_slice key xs))"

section \<open>The start-up stack\<close>

text \<open>
  \<open>_start\<close> pops the argument count, finds the arguments above it, the environment above their null and
  the auxiliary vector above the null of the environment. The stack is the list of its words.
\<close>

fun find_auxv :: "u64 list \<Rightarrow> u64 list" where
  "find_auxv [] = []"
| "find_auxv (w # ws) = (if w = 0 then ws else find_auxv ws)"

record start_args =
  sa_argc :: u64
  sa_argv :: "u64 list"
  sa_envp :: "u64 list"
  sa_auxv :: "u64 list"

definition start :: "u64 list \<Rightarrow> start_args" where
  "start stack =
     (let argc = hd stack; argv = tl stack; envp = drop (unat argc + 1) argv
      in \<lparr> sa_argc = argc, sa_argv = argv, sa_envp = envp, sa_auxv = find_auxv envp \<rparr>)"

text \<open>
  \<open>__call_entry_point\<close>: copying loops that count their index down and push a word each; the auxiliary
  vector is moved in pairs of words below the stack pointer.
\<close>

fun push_words :: "u64 list \<Rightarrow> nat \<Rightarrow> u64 list \<Rightarrow> u64 list" where
  "push_words src 0 stack = stack"
| "push_words src (Suc n) stack = push_words src n (src ! n # stack)"

definition call_entry_point ::
  "u64 \<Rightarrow> u64 list \<Rightarrow> u64 list \<Rightarrow> u64 \<Rightarrow> u64 list \<Rightarrow> u64 \<Rightarrow> u64 \<Rightarrow> u64 list" where
  "call_entry_point argc argv envp numenv auxv numaux ret_addr =
     (let s0 = (if (argc + numenv) AND 1 = 0 then [] else [ret_addr]);
          s1 = 0 # 0 # s0;
          s2 = take (2 * unat numaux) auxv @ s1;
          s3 = push_words envp (unat numenv) (0 # s2);
          s4 = push_words argv (unat argc) (0 # s3)
      in argc # s4)"

text \<open>
  The number of environment words the loader passes on: the distance of the two pointers, which counts the
  null at the end of the environment.
\<close>

definition env_count :: "start_args \<Rightarrow> u64" where
  "env_count a = of_nat (length (sa_envp a) - length (sa_auxv a))"

section \<open>The auxiliary vector\<close>

record aux_ent =
  at_tag :: usize
  at_val :: u64

text \<open>The tags are the kernel's; as match patterns they are pairwise different.\<close>

record aux_abi =
  AT_BASE :: u32
  AT_RANDOM :: u32
  AT_SECURE :: u32
  AT_EXECFD :: u32
  AT_EXECFN :: u32

record aux_info =
  at_base :: u64
  at_random :: "u64 option"
  execfd :: u32
  execfn :: u64

definition no_aux :: aux_info where
  "no_aux = \<lparr> at_base = 0, at_random = None, execfd = - 1, execfn = 0 \<rparr>"

text \<open>A process in secure mode exits with status 1: the left summand.\<close>

fun scan_auxv :: "aux_abi \<Rightarrow> aux_ent list \<Rightarrow> aux_info \<Rightarrow> nat + aux_info" where
  "scan_auxv A [] i = Inr i"
| "scan_auxv A (e # es) i =
     (let tag = ucast (at_tag e) in
      if tag = AT_BASE A then scan_auxv A es (i\<lparr> at_base := at_val e \<rparr>)
      else if tag = AT_RANDOM A then scan_auxv A es (i\<lparr> at_random := Some (at_val e) \<rparr>)
      else if tag = AT_SECURE A then (if at_val e \<noteq> 0 then Inl 1 else scan_auxv A es i)
      else if tag = AT_EXECFD A then scan_auxv A es (i\<lparr> execfd := ucast (at_val e) \<rparr>)
      else if tag = AT_EXECFN A then scan_auxv A es (i\<lparr> execfn := at_val e \<rparr>)
      else scan_auxv A es i)"

section \<open>Stages\<close>

text \<open>
  A step of the start panics, does not end (None), ends the process at once (the left summand: \<open>crash_unrecoverably\<close>), or gives a result.
\<close>

type_synonym 'a stage = "(unit + 'a) run option"

definition stage_bind :: "'a stage \<Rightarrow> ('a \<Rightarrow> 'b stage) \<Rightarrow> 'b stage" where
  "stage_bind x f =
     (case x of
        None \<Rightarrow> None
      | Some Panic \<Rightarrow> Some Panic
      | Some (Ret (Inl u)) \<Rightarrow> Some (Ret (Inl u))
      | Some (Ret (Inr a)) \<Rightarrow> f a)"

definition stage_run :: "'a run \<Rightarrow> 'a stage" where
  "stage_run x = Some (run_bind x (\<lambda>a. Ret (Inr a)))"

definition stage_crash :: "'a option \<Rightarrow> 'a stage" where
  "stage_crash x = (case x of None \<Rightarrow> Some (Ret (Inl ())) | Some a \<Rightarrow> Some (Ret (Inr a)))"

named_theorems stage_simps

lemma stage_bind_simps [stage_simps]:
  "stage_bind None f = None" "stage_bind (Some Panic) f = Some Panic"
  "stage_bind (Some (Ret (Inl u))) f = Some (Ret (Inl u))" "stage_bind (Some (Ret (Inr a))) f = f a"
  by (simp_all add: stage_bind_def)

lemma stage_lift_simps [stage_simps]:
  "stage_run (Ret a) = Some (Ret (Inr a))" "stage_run Panic = Some Panic"
  "stage_crash None = Some (Ret (Inl ()))" "stage_crash (Some b) = Some (Ret (Inr b))"
  by (simp_all add: stage_run_def stage_crash_def)

lemma stage_bind_eq_Ret:
  "stage_bind x f = Some (Ret (Inr b)) \<longleftrightarrow> (\<exists>a. x = Some (Ret (Inr a)) \<and> f a = Some (Ret (Inr b)))"
  by (auto simp: stage_bind_def split: option.splits run.splits sum.splits)

section \<open>Messages\<close>

text \<open>
  The lines the entry prints, to standard output or standard error; \<open>k i\<close> are the kernel's answers to the \<open>i\<close>-th. A line that cannot be
  written panics, and the following ones are not printed. The architecture and the version come from the build, the debug
  text of an error number from its crate. An argument that is a string literal is part of the piece it stands in.
\<close>

datatype message = Out "piece list" | Err "piece list"

fun say :: "(nat \<Rightarrow> u32 \<Rightarrow> answers) \<Rightarrow> nat \<Rightarrow> message list \<Rightarrow> unit stage" where
  "say k i [] = Some (Ret (Inr ()))"
| "say k i (m # ms) =
     (case (case m of Out ps \<Rightarrow> ld_println (k i) ps | Err ps \<Rightarrow> ld_eprintln (k i) ps) of
        None \<Rightarrow> None
      | Some Panic \<Rightarrow> Some Panic
      | Some (Ret out) \<Rightarrow> say k (Suc i) ms)"

record ld_texts =
  LD_ARCH :: string
  LD_VERSION :: string
  show_errno :: "errno \<Rightarrow> bytes list"

definition tab :: char where "tab = CHR 0x09"

definition USAGE_TAIL :: string where
  "USAGE_TAIL = ''[OPTION]... <binary file> [args...]''"

definition usage_text :: "bytes \<Rightarrow> piece list" where
  "usage_text prg_name = [Lit ''Usage: '', Arg [prg_name], Lit '' '', Arg [lit USAGE_TAIL]]"

definition help_text :: "bytes \<Rightarrow> message list" where
  "help_text prg_name =
     [Out [Lit ''Usage: '', Arg [prg_name], Lit '' '', Arg [lit USAGE_TAIL]],
      Out [Lit ''Usage: [binary name] [args...] (requires having the sysroot be the root directory)''],
      Out [],
      Out [Lit ''Entry point for winter-lily - allows executing most Lilium Programs on Linux''],
      Out [Lit ''Options:''],
      Out [Lit (tab # ''--help: Print this message and exit'')],
      Out [Lit (tab # ''--version: Print version information and exit'')],
      Out [Lit (tab # ''--argv0 [name]: Report <name> (instead of <binary name>) as argv0 passed to the process'')],
      Out [Lit (tab # ''--preload-lilium <module>: Causes <module> to be loaded as a Lilium library before the program or any library in the context of Lilium code.'')],
      Out [Lit (tab # tab # ''<module> is either a library name (looked up in the lilium search path) or a path to a library.'')],
      Out [Lit (tab # ''--preload-native <module>, --preload-subsys <module>: Causes <module> to be loaded as a native library before any library other than ld.so.'')],
      Out [Lit (tab # tab # ''<module> is either a library name (looked up in the native search path) or a path to a library.'')],
      Out [Lit (tab # tab # ''--preload-subsys differs from --preload-native in that, after the library is loaded, a symbol named __wl_init_subsystem_v0 is found and executed.'')],
      Out [],
      Out [Lit ''Environment Variables:''],
      Out [Lit (tab # ''LD_LIBRARY_PATH_WL_LILIUM: If set to a non-empty string, it contains a list of paths (separated by ':') that are searched when looking for lilium libraries'')],
      Out [Lit (tab # ''LD_LIBRARY_PATH_WL_NATIVE: If set to a non-empty string, it contains a list of paths (separated by ':') that are searched when looking for native libraries'')],
      Out [Lit (tab # ''WL_SYSROOT: Treats absolute paths used to lookup libraries and configuration files as if they are prefixed by the path in this string'')],
      Out [Lit (tab # ''WL_NATIVE_LD_SO_CONF: Look in this file, instead of /etc/ld.so.conf, for the paths to search for native libraries'')],
      Out [Lit (tab # ''WL_LILIUM_LD_SO_CONF: Look in this file, instead of /etc/ld-lilium.so.conf, for paths to search for lilium libraries'')],
      Out [Lit (tab # ''WL_SUBSYS_<name>: Specifies an **absolute path** to use when loading the subsystem with name <name>.'')],
      Out [],
      Out [Lit ''Secure Mode:''],
      Out [Lit (tab # ''Linux and ld.so support something called Secure Mode, which is used when running programs with higher capabilities or with setuid'')],
      Out [Lit (tab # ''Properly supporting Secure Mode requires adjusting substantial party of the behaviour of ''), Arg [prg_name], Lit ''.''],
      Out [Lit (tab # ''For simplicitly and security, Secure Mode support is not implemented for winter-lily programs.'')],
      Out [Lit (tab # ''If a Lilium program is run in Secure Mode (according to the `AT_SECURE` auxv entry), ''), Arg [prg_name], Lit '' will print an error message and exit immediately'']]"

definition version_text :: "ld_texts \<Rightarrow> message list" where
  "version_text C =
     [Out [Lit ''wl-ld-lilium-'', Arg [lit (LD_ARCH C)], Lit (''.so (VERSION '' @ LD_VERSION C @ '')'')],
      Out [Lit ''winter-lily compatibility layer for linux''],
      Out [Lit ''(C) 2025 Lilium Project Developers. This Project is released under the terms of the MIT and Apache-2.0 License'']]"

definition unknown_text :: "bytes \<Rightarrow> piece list" where
  "unknown_text x =
     [Lit ''Unknown Option '', Arg [x], Lit ''. Note that if this is a relative program name, use `./'', Arg [x], Lit ''` instead'']"

definition open_failed_text :: "ld_texts \<Rightarrow> bytes \<Rightarrow> errno \<Rightarrow> piece list" where
  "open_failed_text C name e = [Lit ''Failed to open '', Arg [name], Lit '': '', Arg (show_errno C e)]"

section \<open>Arguments\<close>

text \<open>
  The arguments are the C strings of the argument vector. \<open>argv\<close> is the position of the pointer that is
  handed to the program and \<open>argc\<close> the count; \<open>args\<close> is what the iterator has not visited, which advances
  on its own. The override of the program's name is the position its pointer is read from. An end comes with its status and the
  lines that are printed before.
\<close>

datatype choice = Exit nat "message list" | Died | Open bytes nat nat "nat option"

fun scan_args :: "ld_texts \<Rightarrow> (bytes \<Rightarrow> bool) \<Rightarrow> bytes \<Rightarrow> bytes list \<Rightarrow> nat \<Rightarrow> nat \<Rightarrow> nat option \<Rightarrow> choice" where
  "scan_args C valid prg_name [] argv argc argv0 = Exit 1 [Err (usage_text prg_name)]"
| "scan_args C valid prg_name (arg # args) argv argc argv0 =
     (let argc = argc - 1 in
      if \<not> valid arg then Open arg argv (argc + 1) argv0
      else if arg = lit ''--help'' then Exit 0 (help_text prg_name)
      else if arg = lit ''--version'' then Exit 0 (version_text C)
      else if arg = lit ''--argv0'' then scan_args C valid prg_name args (argv + 2) argc (Some (argv + 1))
      else if arg = lit ''--preload-subsystem'' \<or> arg = lit ''--preload-native'' \<or> arg = lit ''--preload-lilium''
      then Died
      else if take 2 arg = lit ''--'' then Exit 1 [Err (unknown_text arg)]
      else Open arg argv (argc + 1) argv0)"

text \<open>
  The program's descriptor with the argument vector and count it gets. \<open>open_path\<close> is the kernel's answer
  as a signed 32-bit value; the one for \<open>AT_EXECFN\<close> is not checked.
\<close>

record program =
  pr_fd :: u32
  pr_argv :: nat
  pr_argc :: nat
  pr_argv0 :: "nat option"

definition exit_saying :: "(nat \<Rightarrow> u32 \<Rightarrow> answers) \<Rightarrow> nat \<Rightarrow> message list \<Rightarrow> (nat + program) stage" where
  "exit_saying k n ms = stage_bind (say k 0 ms) (\<lambda>_. Some (Ret (Inr (Inl n))))"

definition choose_program ::
  "ld_texts \<Rightarrow> (nat \<Rightarrow> u32 \<Rightarrow> answers) \<Rightarrow> (bytes \<Rightarrow> bool) \<Rightarrow> (u64 \<Rightarrow> bytes) \<Rightarrow> (bytes \<Rightarrow> errno + u32) \<Rightarrow> (u64 \<Rightarrow> u32) \<Rightarrow>
   aux_info \<Rightarrow> bytes list \<Rightarrow> (nat + program) stage" where
  "choose_program C k valid str_at openat open_raw i args =
     (if execfd i \<noteq> - 1
      then Some (Ret (Inr (Inr \<lparr> pr_fd = execfd i, pr_argv = 0, pr_argc = length args, pr_argv0 = None \<rparr>)))
      else if execfn i \<noteq> 0 \<and> \<not> valid (str_at (execfn i)) then Some Panic
      else if execfn i \<noteq> 0 \<and> at_base i \<noteq> 0
      then Some (Ret (Inr (Inr \<lparr> pr_fd = open_raw (execfn i), pr_argv = 0, pr_argc = length args, pr_argv0 = None \<rparr>)))
      else case args of
             [] \<Rightarrow> Some (Ret (Inl ()))
           | prg_name # args' \<Rightarrow>
               if \<not> valid prg_name then Some Panic
               else (case scan_args C valid prg_name args' 1 (length args - 1) None of
                       Exit n ms \<Rightarrow> exit_saying k n ms
                     | Died \<Rightarrow> Some Panic
                     | Open name argv argc argv0 \<Rightarrow>
                         (case openat name of
                            Inl e \<Rightarrow> exit_saying k 1 [Err (open_failed_text C name e)]
                          | Inr fd \<Rightarrow>
                              Some (Ret (Inr (Inr \<lparr> pr_fd = fd, pr_argv = argv, pr_argc = argc, pr_argv0 = argv0 \<rparr>))))))"

text \<open>
  The argument vector the program sees, for a position inside the vector: the pointers from there on, the
  first one overridden.
\<close>

definition program_args :: "bytes list \<Rightarrow> program \<Rightarrow> bytes list" where
  "program_args args p =
     (let argv = drop (pr_argv p) args
      in case pr_argv0 p of None \<Rightarrow> argv | Some i \<Rightarrow> if i < length args then argv[0 := args ! i] else argv)"

section \<open>Random numbers and the address space\<close>

text \<open>The hash function is from \<open>lccc_siphash\<close>: its state, how keys start it, an update and the result.\<close>

record 'h siphash =
  from_keys :: "u64 \<Rightarrow> u64 \<Rightarrow> 'h"
  sip_update :: "u64 \<Rightarrow> 'h \<Rightarrow> 'h"
  sip_finish :: "'h \<Rightarrow> u64"

definition gen_seed :: "'h siphash \<Rightarrow> bytes \<Rightarrow> 'h" where
  "gen_seed H k = from_keys H (from_ne_bytes (take 8 k)) (from_ne_bytes (drop 8 k))"

definition gen_next :: "'h siphash \<Rightarrow> 'h \<Rightarrow> u64 \<times> 'h" where
  "gen_next H g =
     (let g1 = sip_update H 0x6a09e667f3bcc908 g
      in (sip_finish H g1, sip_update H 0xbb67ae8584caa73b g1))"

definition MMAP_REGION_SIZE :: usize where
  "MMAP_REGION_SIZE = 4096 * 256"

definition SLIDE_MASK :: usize where
  "SLIDE_MASK = push_bit 12 (4096 * 8 - 1)"

definition NATIVE_REGION_SIZE :: usize where
  "NATIVE_REGION_SIZE = 4096 * 4096 * 64"

record address_plan =
  native_region :: u64
  mmap_region :: u64
  tls_hint :: u64
  lilium_base :: u64

definition plan_addresses :: "u64 \<Rightarrow> u64 \<Rightarrow> address_plan" where
  "plan_addresses vaddr_end rnd =
     (let end_addr = vaddr_end + ((- vaddr_end) AND 4095);
          native = end_addr - NATIVE_REGION_SIZE
      in \<lparr> native_region = native, mmap_region = native - MMAP_REGION_SIZE,
           tls_hint = native - MMAP_REGION_SIZE - TLS_BLOCK_SIZE,
           lilium_base = (rnd AND SLIDE_MASK) + 4096 * 4096 \<rparr>)"

section \<open>Thread-local storage at start-up\<close>

text \<open>
  Two blocks are mapped without access, the control block in the middle of each is made accessible, the
  first becomes the master copy and the second the block of the first thread. Every failure ends the
  process (None). \<open>mmap\<close> answers the two calls one after the other.
\<close>

definition setup_tls ::
  "(nat \<Rightarrow> u64 \<Rightarrow> usize \<Rightarrow> errno + u64) \<Rightarrow> (u64 \<Rightarrow> usize \<Rightarrow> bool) \<Rightarrow> address_plan \<Rightarrow> tls_state \<Rightarrow> (u64 \<times> tls_state) option" where
  "setup_tls mmap mprotect plan st =
     (case mmap 0 (tls_hint plan) TLS_BLOCK_SIZE of
        Inl e \<Rightarrow> None
      | Inr init_tls_block \<Rightarrow>
          let tlsmc = init_tls_block + drop_bit 1 TLS_BLOCK_SIZE in
          if \<not> mprotect tlsmc size_of_Tcb then None
          else let st = setup_tls_mc tlsmc st in
            case mmap 1 (tls_hint plan) TLS_BLOCK_SIZE of
              Inl e \<Rightarrow> None
            | Inr tls_block \<Rightarrow>
                let tp = tls_block + drop_bit 1 TLS_BLOCK_SIZE in
                if \<not> mprotect tp size_of_Tcb then None
                else map_option (\<lambda>st. (tp, st)) (set_tp mprotect tp st))"

section \<open>The program's auxiliary vector\<close>

text \<open>The tags and the layout of handles are the guest's; \<open>random_addr\<close> is where the two words are kept.\<close>

record lilium_abi =
  LILIUM_AT_RANDOM :: usize
  AT_LILIUM_INIT_HANDLES :: usize
  AT_LILIUM_INIT_HANDLES_LEN :: usize

definition setup_auxv :: "lilium_abi \<Rightarrow> u64 \<Rightarrow> u64 \<Rightarrow> usize \<Rightarrow> aux_ent list" where
  "setup_auxv L random_addr handles_addr handles_len =
     [\<lparr> at_tag = LILIUM_AT_RANDOM L, at_val = random_addr \<rparr>,
      \<lparr> at_tag = AT_LILIUM_INIT_HANDLES L, at_val = handles_addr \<rparr>,
      \<lparr> at_tag = AT_LILIUM_INIT_HANDLES_LEN L, at_val = handles_len \<rparr>]"

definition aux_words :: "aux_ent list \<Rightarrow> u64 list" where
  "aux_words es = concat (map (\<lambda>e. [at_tag e, at_val e]) es)"

definition enter_program ::
  "lilium_abi \<Rightarrow> u64 \<Rightarrow> u64 list \<Rightarrow> u64 list \<Rightarrow> u64 \<Rightarrow> u64 \<Rightarrow> u64 \<Rightarrow> usize \<Rightarrow> u64 \<Rightarrow> u64 list" where
  "enter_program L argc argv envp envpc random_addr handles_addr handles_len ret_addr =
     call_entry_point argc argv envp envpc (aux_words (setup_auxv L random_addr handles_addr handles_len)) 3 ret_addr"

section \<open>Stacks\<close>

lemma push_words_eq: "n \<le> length src \<Longrightarrow> push_words src n stack = take n src @ stack"
  by (induction n arbitrary: stack) (simp_all add: take_Suc_conv_app_nth)

lemma find_auxv_append: "0 \<notin> set ws \<Longrightarrow> find_auxv (ws @ 0 # xs) = xs"
  by (induction ws) auto

lemma even_and_1: "(w AND 1 :: u64) = 0 \<longleftrightarrow> even (unat w)"
proof -
  have "unat (w AND 1) = unat w mod 2" by (simp add: and_one_eq unat_mod_distrib)
  then show ?thesis by (auto simp: word_unat_eq_iff)
qed

lemma setup_tls_total: "\<exists>tp st'. setup_tls (\<lambda>i hint n. Inr (blocks i)) (\<lambda>a n. True) plan st = Some (tp, st')"
  by (auto simp: setup_tls_def set_tp_def update_tls_def update_static_def update_dynamic_def Let_def)

lemma scan_args_argv0_kept: "scan_args C valid prg_name args argv argc (Some k) \<noteq> Open name argv' argc' None"
  by (induction args arbitrary: argv argc k) (auto simp: Let_def)

lemma scan_args_counts:
  "scan_args C valid prg_name args argv (length args) None = Open name argv' argc' None \<Longrightarrow> argv' = argv \<and> argc' = length args"
  by (cases args) (auto simp: Let_def scan_args_argv0_kept split: if_splits)

text \<open>Without \<open>--argv0\<close> the arguments from the program's position on are as many as it is told.\<close>

lemma choose_program_counts:
  assumes "choose_program C k valid str_at openat open_raw i args = Some (Ret (Inr (Inr p)))" "pr_argv0 p = None"
  shows "pr_argv p + pr_argc p = length args"
  using assms
  by (auto simp: choose_program_def exit_saying_def stage_bind_eq_Ret split: if_splits list.splits choice.splits sum.splits
      dest!: scan_args_counts [of C valid])

section \<open>Properties\<close>

text \<open>
  The stack the loader builds for the program passes on what the kernel gave it: a start code like
  the loader's own reads back the argument count, the arguments and the environment, each terminated by
  null. The count of the environment includes its null, so a second null follows, and such a start code finds a
  null tag where the auxiliary vector begins: the vector lies one word further up. The stack has an odd number
  of words, which together with the word of the entry address keeps it aligned to 16 bytes.
\<close>

theorem entry_stack_roundtrip:
  assumes kernel: "start (n # args @ 0 # env @ 0 # hostaux) = a" "length args = unat n" "0 \<notin> set env" "length env < 2 ^ 63"
    and argv: "unat argc \<le> length argv" "unat argc < 2 ^ 63"
    and aux: "length auxv = 2 * unat numaux"
    and s: "s = call_entry_point argc argv (sa_envp a) (env_count a) auxv numaux ret_addr"
  shows "sa_argc (start s) = argc \<and>
    take (Suc (unat argc)) (sa_argv (start s)) = take (unat argc) argv @ [0] \<and>
    take (Suc (length env)) (sa_envp (start s)) = env @ [0] \<and>
    take (Suc (length auxv + 2)) (sa_auxv (start s)) = 0 # auxv @ [0, 0] \<and>
    odd (length s)"
proof -
  have a: "sa_envp a = env @ 0 # hostaux" "sa_auxv a = hostaux"
    using kernel find_auxv_append [OF kernel(3), of hostaux] by (auto simp: start_def Let_def)
  have c: "unat (env_count a) = Suc (length env)"
    using kernel(4) by (simp add: env_count_def a unat_of_nat_64 del: of_nat_Suc)
  define pad where "pad = (if (argc + env_count a) AND 1 = 0 then [] else [ret_addr])"
  have s': "s = argc # take (unat argc) argv @ 0 # env @ 0 # 0 # auxv @ 0 # 0 # pad"
    using argv aux by (simp add: s call_entry_point_def push_words_eq a c Let_def pad_def)
  have "unat (argc + env_count a) = unat argc + Suc (length env)"
    using kernel(4) argv(2) by (subst unat_add_64) (simp_all add: c)
  then have "odd (length s)"
    using argv aux unfolding s' pad_def even_and_1 by simp
  moreover have e: "sa_envp (start s) = env @ 0 # 0 # auxv @ 0 # 0 # pad"
    using argv by (simp add: start_def s' Let_def)
  moreover have "sa_auxv (start s) = 0 # auxv @ 0 # 0 # pad"
    using find_auxv_append [OF kernel(3)] e by (simp add: start_def Let_def)
  ultimately show ?thesis using argv aux by (simp add: start_def s' Let_def)
qed

theorem entry_stack_roundtrip_witness:
  "start (1 # [10] @ 0 # [12] @ 0 # [5, 6]) = \<lparr> sa_argc = 1, sa_argv = [10, 0, 12, 0, 5, 6], sa_envp = [12, 0, 5, 6], sa_auxv = [5, 6] \<rparr> \<and>
   take 5 (sa_auxv (start (call_entry_point 1 [10] [12, 0, 5, 6] 2 [1, 2] 1 99))) = [0, 1, 2, 0, 0]"
proof -
  let ?a = "\<lparr> sa_argc = 1, sa_argv = [10, 0, 12, 0, 5, 6], sa_envp = [12, 0, 5, 6], sa_auxv = [5, 6] \<rparr>"
  have k: "start (1 # [10] @ 0 # [12] @ 0 # [5, 6]) = ?a" by (simp add: start_def Let_def)
  have e: "env_count ?a = 2" by (simp add: env_count_def)
  have "take (Suc (length [1, 2] + 2)) (sa_auxv (start (call_entry_point 1 [10] [12, 0, 5, 6] 2 [1, 2] 1 99))) = 0 # [1, 2] @ [0, 0]"
    using entry_stack_roundtrip [OF k _ _ _ _ _ _ refl, of 1 "[10]" "[1, 2]" 1 99] by (simp add: e)
  moreover have "Suc (length [1 :: u64, 2] + 2) = 5" by simp
  ultimately have "take 5 (sa_auxv (start (call_entry_point 1 [10] [12, 0, 5, 6] 2 [1, 2] 1 99))) = 0 # [1, 2] @ [0, 0]"
    by metis
  then show ?thesis using k by simp
qed

definition plain_arg :: "bytes \<Rightarrow> bool" where
  "plain_arg a \<longleftrightarrow> take 2 a \<noteq> lit ''--''"

definition unknown_option :: "bytes \<Rightarrow> bool" where
  "unknown_option u \<longleftrightarrow> take 2 u = lit ''--'' \<and>
     u \<notin> set (map lit [''--help'', ''--version'', ''--argv0'', ''--preload-subsystem'', ''--preload-native'', ''--preload-lilium''])"

text \<open>
  The start by name: the kernel passes no descriptor, and it has not loaded the loader as the interpreter of a program (then
  \<open>AT_BASE\<close> is null), as when the loader is run as a command. Linux gives the file name in \<open>AT_EXECFN\<close> also then.
\<close>

definition run_as_command :: "(bytes \<Rightarrow> bool) \<Rightarrow> (u64 \<Rightarrow> bytes) \<Rightarrow> aux_info \<Rightarrow> bool" where
  "run_as_command valid str_at i \<longleftrightarrow>
     execfd i = - 1 \<and> (execfn i = 0 \<or> valid (str_at (execfn i)) \<and> at_base i = 0)"

lemma lit_options:
  "take 2 (lit ''--help'') = lit ''--''" "take 2 (lit ''--version'') = lit ''--''" "take 2 (lit ''--argv0'') = lit ''--''"
  "take 2 (lit ''--preload-subsystem'') = lit ''--''" "take 2 (lit ''--preload-native'') = lit ''--''"
  "take 2 (lit ''--preload-lilium'') = lit ''--''" "lit ''--argv0'' \<noteq> lit ''--help''" "lit ''--argv0'' \<noteq> lit ''--version''"
  "lit ''--version'' \<noteq> lit ''--help''"
  by code_simp+

lemma scan_args_plain:
  "plain_arg a \<Longrightarrow> scan_args C valid ld (a # as) argv argc argv0 = Open a argv (argc - 1 + 1) argv0"
  by (auto simp: plain_arg_def Let_def lit_options)

lemma scan_args_argv0:
  "valid (lit ''--argv0'') \<Longrightarrow>
   scan_args C valid ld (lit ''--argv0'' # as) argv argc argv0 = scan_args C valid ld as (argv + 2) (argc - 1) (Some (argv + 1))"
  by (simp add: lit_options)

lemma scan_args_exit:
  "valid (lit ''--help'') \<Longrightarrow> scan_args C valid ld (lit ''--help'' # as) argv argc argv0 = Exit 0 (help_text ld)"
  "valid (lit ''--version'') \<Longrightarrow> scan_args C valid ld (lit ''--version'' # as) argv argc argv0 = Exit 0 (version_text C)"
  "valid u \<Longrightarrow> unknown_option u \<Longrightarrow> scan_args C valid ld (u # as) argv argc argv0 = Exit 1 [Err (unknown_text u)]"
  by (auto simp: unknown_option_def Let_def lit_options)

lemma choose_by_args:
  assumes "run_as_command valid str_at i" "valid ld"
  shows "choose_program C k valid str_at openat open_raw i (ld # as) =
    (case scan_args C valid ld as 1 (length as) None of
       Exit n ms \<Rightarrow> exit_saying k n ms
     | Died \<Rightarrow> Some Panic
     | Open name argv argc argv0 \<Rightarrow>
         (case openat name of
            Inl e \<Rightarrow> exit_saying k 1 [Err (open_failed_text C name e)]
          | Inr fd \<Rightarrow> Some (Ret (Inr (Inr \<lparr> pr_fd = fd, pr_argv = argv, pr_argc = argc, pr_argv0 = argv0 \<rparr>)))))"
  using assms by (auto simp: choose_program_def run_as_command_def)

text \<open>Descriptors that take the lines, and that refuse the first one.\<close>

fun takes_line :: "(u32 \<Rightarrow> answers) \<Rightarrow> message \<Rightarrow> bool" where
  "takes_line k (Out ps) = takes_whole (k stdout) (format_args_nl ps)"
| "takes_line k (Err ps) = takes_whole (k stderr) (format_args_nl ps)"

definition takes_lines :: "(nat \<Rightarrow> u32 \<Rightarrow> answers) \<Rightarrow> nat \<Rightarrow> message list \<Rightarrow> bool" where
  "takes_lines k i ms \<longleftrightarrow> (\<forall>j < length ms. takes_line (k (i + j)) (ms ! j))"

lemma say_takes: "takes_lines k i ms \<Longrightarrow> say k i ms = Some (Ret (Inr ()))"
proof (induction ms arbitrary: i)
  case (Cons m ms)
  have "takes_line (k i) m" using Cons.prems unfolding takes_lines_def by fastforce
  moreover have "takes_line (k (Suc i + j)) (ms ! j)" if "j < length ms" for j
    using Cons.prems that unfolding takes_lines_def by (metis Suc_less_eq add_Suc_shift length_Cons nth_Cons_Suc)
  ultimately show ?case using Cons.IH [of "Suc i"] by (cases m) (simp_all add: ld_print_takes takes_lines_def)
qed simp

lemma say_refused:
  assumes "refuses (k i stdout)" "refuses (k i stderr)" "s \<noteq> []"
  shows "say k i (Out (Lit s # ps) # ms) = Some Panic" "say k i (Err (Lit s # ps) # ms) = Some Panic"
  using print_refused [of "k i" stdout s ps] print_refused [of "k i" stderr s ps] assms by simp_all

text \<open>The command lines that end the loader, with the status and the lines printed.\<close>

definition endings :: "ld_texts \<Rightarrow> bytes \<Rightarrow> bytes \<Rightarrow> bytes \<Rightarrow> errno \<Rightarrow> bytes list \<Rightarrow> (bytes list \<times> nat \<times> message list) list" where
  "endings C ld u b e as =
     [([ld], 1, [Err (usage_text ld)]),
      (ld # u # as, 1, [Err (unknown_text u)]),
      (ld # b # as, 1, [Err (open_failed_text C b e)]),
      (ld # lit ''--help'' # as, 0, help_text ld),
      (ld # lit ''--version'' # as, 0, version_text C)]"

text \<open>
  C11. Run as a command, the loader takes its first argument as the program, which gets the arguments
  from there on with their count. Without an argument, for an unknown option and for a program that cannot be opened it prints a message
  and ends with status 1, for \<open>--help\<close> and \<open>--version\<close> it prints the texts and ends with status 0, provided that the descriptors
  take the lines; when they refuse the first line it panics instead of ending with its status. The option \<open>--argv0\<close> does not do what
  the help text says: the name behind it is opened as the program, and the count is one more than the arguments that are left.
\<close>

theorem program_choice:
  assumes "run_as_command valid str_at i" "plain_arg a" "plain_arg b" "unknown_option u" "openat a = Inr fd" "openat b = Inl e"
    and "list_all valid [ld, u, lit ''--argv0'', lit ''--help'', lit ''--version'']" "(args, n, ms) \<in> set (endings C ld u b e as)"
  shows "choose_program C k valid str_at openat open_raw i (ld # a # as) =
      Some (Ret (Inr (Inr \<lparr> pr_fd = fd, pr_argv = 1, pr_argc = length (a # as), pr_argv0 = None \<rparr>))) \<and>
    program_args (ld # a # as) \<lparr> pr_fd = fd, pr_argv = 1, pr_argc = length (a # as), pr_argv0 = None \<rparr> = a # as \<and>
    (takes_lines k 0 ms \<longrightarrow> choose_program C k valid str_at openat open_raw i args = Some (Ret (Inr (Inl n)))) \<and>
    (refuses (k 0 stdout) \<and> refuses (k 0 stderr) \<longrightarrow> choose_program C k valid str_at openat open_raw i args = Some Panic) \<and>
    choose_program C k valid str_at openat open_raw i (ld # lit ''--argv0'' # a # c # as) =
      Some (Ret (Inr (Inr \<lparr> pr_fd = fd, pr_argv = 3, pr_argc = length (a # c # as), pr_argv0 = Some 2 \<rparr>))) \<and>
    program_args (ld # lit ''--argv0'' # a # c # as)
      \<lparr> pr_fd = fd, pr_argv = 3, pr_argc = length (a # c # as), pr_argv0 = Some 2 \<rparr> = a # as"
proof -
  let ?as = "lit ''--argv0'' # a # c # as"
  have v: "valid ld" "valid u" "valid (lit ''--argv0'')" "valid (lit ''--help'')" "valid (lit ''--version'')"
    using assms(7) by simp_all
  have s: "scan_args C valid ld (a # as) 1 (length (a # as)) None = Open a 1 (length (a # as)) None"
    unfolding scan_args_plain [OF assms(2)] by simp
  have o: "scan_args C valid ld ?as 1 (length ?as) None = Open a 3 (length (a # c # as)) (Some 2)"
    unfolding scan_args_argv0 [where valid = valid, OF v(3)] scan_args_plain [OF assms(2)] by simp
  note choose = choose_by_args [where valid = valid and str_at = str_at and i = i and ld = ld, OF assms(1) v(1)]
  note e = scan_args_exit(1) [where valid = valid, OF v(4)] scan_args_exit(2) [where valid = valid, OF v(5)]
    scan_args_exit(3) [where valid = valid and u = u, OF v(2) assms(4)]
  have ends: "choose_program C k valid str_at openat open_raw i args = exit_saying k n ms"
    using assms(8) unfolding endings_def
    by (auto simp: choose e scan_args_plain [OF assms(3)] assms(6) simp del: scan_args.simps(2))
  have "\<exists>s ps ms'. s \<noteq> [] \<and> (ms = Out (Lit s # ps) # ms' \<or> ms = Err (Lit s # ps) # ms')"
    using assms(8) unfolding endings_def
    by (auto simp: usage_text_def unknown_text_def open_failed_text_def help_text_def version_text_def)
  then have "refuses (k 0 stdout) \<Longrightarrow> refuses (k 0 stderr) \<Longrightarrow> say k 0 ms = Some Panic"
    using say_refused [of k 0] by blast
  moreover have "program_args (ld # ?as) \<lparr> pr_fd = fd, pr_argv = 3, pr_argc = length (a # c # as), pr_argv0 = Some 2 \<rparr> = a # as"
    by (simp add: program_args_def)
  ultimately show ?thesis
    unfolding ends exit_saying_def choose s o using assms(5) say_takes [of k 0 ms] by (simp add: program_args_def stage_simps)
qed

definition some_texts :: ld_texts where
  "some_texts = \<lparr> LD_ARCH = ''x86_64'', LD_VERSION = ''0.1.0'', show_errno = (\<lambda>e. [lit ''?'']) \<rparr>"

text \<open>A command as Linux starts it: the file name is there, the base is null.\<close>

definition command_aux :: aux_info where
  "command_aux = no_aux\<lparr> execfn := 0x500 \<rparr>"

theorem program_choice_witness:
  "choose_program some_texts (\<lambda>i fd. at_once (format_args_nl (unknown_text (lit ''--x'')))) (\<lambda>bs. True) (\<lambda>p. [])
     (\<lambda>p. if p = lit ''ls'' then Inr 7 else Inl ENOENT) (\<lambda>p. 0) command_aux [lit ''ld'', lit ''--x''] = Some (Ret (Inr (Inl 1))) \<and>
   choose_program some_texts (\<lambda>i fd. at_once (format_args_nl (unknown_text (lit ''--x'')))) (\<lambda>bs. True) (\<lambda>p. [])
     (\<lambda>p. if p = lit ''ls'' then Inr 7 else Inl ENOENT) (\<lambda>p. 0) command_aux [lit ''ld'', lit ''--argv0'', lit ''ls'', lit ''x''] =
   Some (Ret (Inr (Inr \<lparr> pr_fd = 7, pr_argv = 3, pr_argc = 2, pr_argv0 = Some 2 \<rparr>)))"
proof -
  let ?k = "\<lambda>i fd. at_once (format_args_nl (unknown_text (lit ''--x'')))"
  let ?open = "\<lambda>p. if p = lit ''ls'' then Inr (7 :: u32) else Inl ENOENT"
  have h: "run_as_command (\<lambda>bs. True) (\<lambda>p. []) command_aux" "plain_arg (lit ''ls'')" "plain_arg (lit ''x'')" "unknown_option (lit ''--x'')"
    by (simp add: run_as_command_def command_aux_def no_aux_def) code_simp+
  have "lit ''x'' \<noteq> lit ''ls''" by code_simp
  then have "?open (lit ''ls'') = Inr 7" "?open (lit ''x'') = Inl ENOENT" by simp_all
  moreover have "([lit ''ld'', lit ''--x''], 1, [Err (unknown_text (lit ''--x''))]) \<in>
      set (endings some_texts (lit ''ld'') (lit ''--x'') (lit ''x'') ENOENT [])" by (simp add: endings_def)
  moreover have "takes_lines ?k 0 [Err (unknown_text (lit ''--x''))]" by (simp add: takes_lines_def takes_at_once)
  moreover have "length [lit ''ls'', lit ''x''] = 2" by simp
  ultimately show ?thesis
    using program_choice [OF h, where openat = ?open and C = some_texts and k = ?k and c = "lit ''x''" and ld = "lit ''ld''" and
        open_raw = "\<lambda>p. 0"]
    by auto
qed

text \<open>
  Start-up leaves thread-local storage in a state in which modules can be loaded: when the kernel
  gives two blocks that do not overlap, the loader's invariant holds, the master's load size is the
  cursor, and the first thread's control block is in step with the master.
\<close>

theorem setup_tls_ready:
  assumes "setup_tls (\<lambda>i hint n. Inr (if i = 0 then b0 else b1)) (\<lambda>a n. True) plan st = Some (tp, st')"
    and "tls_off st = size_of_Tcb" "TLS_BLOCK_SIZE \<le> b1 - b0" "TLS_BLOCK_SIZE \<le> b0 - b1"
  shows "tls_inv st' \<and> load_size (get_master_tcb st') = tls_off st' \<and> thread_ok tp st' \<and>
    tp = b1 + drop_bit 1 TLS_BLOCK_SIZE \<and> version (tcb_at st' tp) = version (get_master_tcb st')"
proof -
  let ?h = "drop_bit 1 TLS_BLOCK_SIZE"
  let ?mc = "b0 + ?h" and ?tp = "b1 + ?h"
  have ne: "?tp \<noteq> ?mc" using assms(3) by (auto simp: TLS_BLOCK_SIZE_def)
  have st': "tp = ?tp" "st' = st\<lparr> tls_mc := ?mc, tcb_at := (tcb_at st)(?mc := fresh_tcb ?mc, ?tp := fresh_tcb ?tp) \<rparr>"
    using assms(1) ne
    by (auto simp: setup_tls_def setup_tls_mc_def set_tp_def update_tls_def update_static_def update_dynamic_def
        get_tp_def get_master_tcb_def fresh_tcb_def Let_def)
  show ?thesis
    using assms(2-4) ne unfolding st'
    by (simp add: tls_inv_def get_master_tcb_def fresh_tcb_def thread_ok_def tls_apart_def)
      (simp add: size_of_Tcb_def TLS_BLOCK_SIZE_def)
qed

definition blank_tls :: tls_state where
  "blank_tls = \<lparr> tls_off = size_of_Tcb, tls_mc = 0, tcb_at = (\<lambda>a. fresh_tcb 0), tls_mem = (\<lambda>a. 0) \<rparr>"

theorem setup_tls_ready_witness:
  "\<exists>tp st'. setup_tls (\<lambda>i hint n. Inr (if i = 0 then 0x40000000 else 0x80000000)) (\<lambda>a n. True)
      (plan_addresses 0x100000000 0) blank_tls = Some (tp, st') \<and> tls_inv st' \<and> thread_ok tp st'"
proof -
  obtain tp st' where r: "setup_tls (\<lambda>i hint n. Inr (if i = 0 then 0x40000000 else 0x80000000)) (\<lambda>a n. True)
      (plan_addresses 0x100000000 0) blank_tls = Some (tp, st')"
    by (auto simp: setup_tls_def setup_tls_mc_def set_tp_def update_tls_def update_static_def update_dynamic_def
        get_tp_def get_master_tcb_def fresh_tcb_def Let_def TLS_BLOCK_SIZE_def drop_bit_eq_div)
  have "tls_inv st' \<and> thread_ok tp st'"
    using setup_tls_ready [OF r] by (auto simp: blank_tls_def TLS_BLOCK_SIZE_def)
  with r show ?thesis by blast
qed

text \<open>
  C38. The regions of the address space do not overlap and lie on page boundaries: the loader's own
  region ends at the page after its image, the mapping region lies directly below it and the hint for
  the thread-local blocks below that; programs start at a page between 16 and 144 megabytes.
\<close>

theorem address_plan_regions:
  assumes "p = plan_addresses vaddr_end rnd" "2 ^ 31 \<le> unat vaddr_end" "unat vaddr_end + 4096 \<le> 2 ^ 64"
  shows "unat (tls_hint p) + unat TLS_BLOCK_SIZE = unat (mmap_region p) \<and>
    unat (mmap_region p) + unat MMAP_REGION_SIZE = unat (native_region p) \<and>
    unat vaddr_end \<le> unat (native_region p) + unat NATIVE_REGION_SIZE \<and>
    unat (native_region p) + unat NATIVE_REGION_SIZE < unat vaddr_end + 4096 \<and>
    unat (tls_hint p) mod 4096 = 0 \<and> unat (lilium_base p) mod 4096 = 0 \<and>
    2 ^ 24 \<le> unat (lilium_base p) \<and> unat (lilium_base p) < 2 ^ 24 + 2 ^ 27"
proof -
  have "vaddr_end + ((- vaddr_end) AND 4095) = page_up vaddr_end"
    using minus_round_down [of vaddr_end 12] unfolding page_up_def page_mask and_not_mask_eq [of "- vaddr_end"] by (simp add: add.commute)
  then have p: "p = \<lparr> native_region = page_up vaddr_end - 2 ^ 30, mmap_region = page_up vaddr_end - 2 ^ 30 - 2 ^ 20,
      tls_hint = page_up vaddr_end - 2 ^ 30 - 2 ^ 20 - 2 ^ 26, lilium_base = (rnd AND SLIDE_MASK) + 2 ^ 24 \<rparr>"
    using assms(1) by (simp add: plan_addresses_def Let_def NATIVE_REGION_SIZE_def MMAP_REGION_SIZE_def TLS_BLOCK_SIZE_def)
  have e: "unat (page_up vaddr_end) = (unat vaddr_end + 4095) div 4096 * 4096"
    using assms(3) by (intro unat_page_up) simp
  define q where "q = (unat vaddr_end + 4095) div 4096"
  have q: "unat vaddr_end \<le> q * 4096" "q * 4096 < unat vaddr_end + 4096"
    using div_mult_mod_eq [of "unat vaddr_end + 4095" 4096] mod_less_divisor [of 4096 "unat vaddr_end + 4095"]
    unfolding q_def by linarith+
  have eq: "unat (page_up vaddr_end) = q * 4096" by (simp add: e q_def)
  have n: "unat (page_up vaddr_end - 2 ^ 30) = q * 4096 - 2 ^ 30"
    using q assms(2) by (simp add: unat_sub word_le_nat_alt eq)
  have m: "unat (page_up vaddr_end - 2 ^ 30 - 2 ^ 20) = q * 4096 - 2 ^ 30 - 2 ^ 20"
    using q assms(2) by (subst unat_sub) (simp_all add: word_le_nat_alt n [simplified])
  have t: "unat (page_up vaddr_end - 2 ^ 30 - 2 ^ 20 - 2 ^ 26) = q * 4096 - 2 ^ 30 - 2 ^ 20 - 2 ^ 26"
    using q assms(2) by (subst unat_sub) (simp_all add: word_le_nat_alt m [simplified])
  define b where "b = rnd AND SLIDE_MASK"
  have "b \<le> SLIDE_MASK" unfolding b_def by (rule word_and_le1)
  then have b: "unat b < 2 ^ 27" by (simp add: word_le_nat_alt SLIDE_MASK_def push_bit_eq_mult)
  have "SLIDE_MASK AND 4095 = 0" by (simp add: SLIDE_MASK_def push_bit_eq_mult)
  then have "b AND 4095 = 0" by (simp add: b_def and.assoc)
  then have b4: "unat b mod 4096 = 0" using and_4095 [of b] by simp
  have l: "unat (b + 2 ^ 24) = unat b + 2 ^ 24" using b by (subst unat_add_64) simp_all
  have "(q * 4096 - 2 ^ 30 - 2 ^ 20 - 2 ^ 26) mod 4096 = 0"
  proof -
    have "q * 4096 - 2 ^ 30 - 2 ^ 20 - 2 ^ 26 = (q - 2 ^ 18 - 2 ^ 8 - 2 ^ 14) * 4096" by (simp add: diff_mult_distrib)
    then show ?thesis by simp
  qed
  moreover have "(unat b + 2 ^ 24) mod 4096 = 0" using b4 mod_mult_self2 [of "unat b" 4096 4096] by simp
  moreover have "unat TLS_BLOCK_SIZE = 2 ^ 26" "unat MMAP_REGION_SIZE = 2 ^ 20" "unat NATIVE_REGION_SIZE = 2 ^ 30"
    by (simp_all add: TLS_BLOCK_SIZE_def MMAP_REGION_SIZE_def NATIVE_REGION_SIZE_def)
  moreover have "q * 4096 - 2 ^ 30 - 2 ^ 20 - 2 ^ 26 + 2 ^ 26 = q * 4096 - 2 ^ 30 - 2 ^ 20"
    "q * 4096 - 2 ^ 30 - 2 ^ 20 + 2 ^ 20 = q * 4096 - 2 ^ 30" "q * 4096 - 2 ^ 30 + 2 ^ 30 = q * 4096"
    using q assms(2) by simp_all
  ultimately show ?thesis
    unfolding p address_plan.simps n m t b_def [symmetric] l using q b by simp
qed

theorem address_plan_regions_witness:
  "unat (tls_hint (plan_addresses 0x100000001 5)) mod 4096 = 0 \<and>
   2 ^ 24 \<le> unat (lilium_base (plan_addresses 0x100000001 5))"
  using address_plan_regions [OF refl, of "0x100000001" 5] by simp

end
