(* ===== verification/WL_Info.thy ===== *)
theory WL_Info
  imports WL_Access WL_Dispatch
begin

text \<open>
  The system information call (\<open>wl-usi-base/src/info.rs\<close>). A request is a union of views of one block of
  guest memory; the record has the fields of all views, and every branch touches those of its own.
  Request types, names and version numbers come from \<open>lilium_sys\<close> and the build, and are parameters;
  \<open>id_of\<close> is the identifier a textual UUID stands for.
\<close>

section \<open>Requests\<close>

record sysinfo =
  req_head :: option_head
  osvendor_name :: kstr_ptr
  os_major :: u32
  os_minor :: u32
  kvendor_name :: kstr_ptr
  build_id :: bytes
  kernel_major :: u32
  kernel_minor :: u32
  arch_type :: bytes
  arch_version :: u32
  sys_id :: bytes
  hostname :: kstr_ptr
  sys_display_name :: kstr_ptr
  sys_label :: kstr_ptr
  req_max_sysno :: u16
  req_subsys_version :: u64
  subsystem_no :: u16

text \<open>A static string is its address and length.\<close>

record info_env =
  SYSINFO_REQUEST_OSVER :: bytes
  SYSINFO_REQUEST_KVENDOR :: bytes
  SYSINFO_REQUEST_ARCH_INFO :: bytes
  SYSINFO_REQUEST_COMPUTER_NAME :: bytes
  OS_ELAB_NAME :: "u64 \<times> usize"
  OS_VERSION :: "u32 \<times> u32"
  KVENDOR_NAME :: "u64 \<times> usize"
  BUILD_VERSION :: bytes
  KERNEL_VERSION :: "u32 \<times> u32"
  ARCH_TYPE_VERSION :: "bytes \<times> u32"
  COMPUTER_NAME :: "(u64 \<times> usize) \<times> bytes"
  id_of :: "uuid \<Rightarrow> bytes"

text \<open>
  The name of the computer: the node name up to its null when the kernel answers and the bytes are
  UTF-8, and a fixed text otherwise. \<open>name_id\<close> derives the identifier from the name.
\<close>

definition UNKNOWN_NAME :: string where
  "UNKNOWN_NAME = ''**UNKNOWN SYSTEM NAME**!''"

definition computer_name :: "(bytes \<Rightarrow> bool) \<Rightarrow> (bytes \<Rightarrow> bytes) \<Rightarrow> errno + bytes \<Rightarrow> bytes \<times> bytes" where
  "computer_name utf8 name_id uname =
     (let unknown = map of_char UNKNOWN_NAME;
          str = (case uname of
                   Inl e \<Rightarrow> unknown
                 | Inr nodename \<Rightarrow>
                     let b = takeWhile (\<lambda>c. c \<noteq> 0) nodename in if utf8 b then b else unknown)
      in (str, name_id str))"

definition clear_optional :: "sysinfo \<Rightarrow> sysinfo" where
  "clear_optional req =
     req\<lparr> req_head := (req_head req)\<lparr> head_flags := head_flags (req_head req) AND NOT 0x0001 \<rparr> \<rparr>"

text \<open>\<open>fill_str\<close> on one of the string fields, with the request it leaves.\<close>

definition fill_field ::
  "(sysinfo \<Rightarrow> kstr_ptr) \<Rightarrow> (kstr_ptr \<Rightarrow> sysinfo \<Rightarrow> sysinfo) \<Rightarrow> u64 \<times> usize \<Rightarrow> sysinfo \<Rightarrow> mem \<Rightarrow>
   ((sys_error + unit) \<times> sysinfo \<times> mem) outcome" where
  "fill_field get put st req m =
     outcome_bind (fill_str (get req) (fst st) (snd st) m) (\<lambda>(r, k, m). Returned (r, put k req, m))"

definition put_osvendor :: "kstr_ptr \<Rightarrow> sysinfo \<Rightarrow> sysinfo" where
  "put_osvendor k req = req\<lparr> osvendor_name := k \<rparr>"

definition put_kvendor :: "kstr_ptr \<Rightarrow> sysinfo \<Rightarrow> sysinfo" where
  "put_kvendor k req = req\<lparr> kvendor_name := k \<rparr>"

definition put_hostname :: "kstr_ptr \<Rightarrow> sysinfo \<Rightarrow> sysinfo" where
  "put_hostname k req = req\<lparr> hostname := k \<rparr>"

definition put_display_name :: "kstr_ptr \<Rightarrow> sysinfo \<Rightarrow> sysinfo" where
  "put_display_name k req = req\<lparr> sys_display_name := k \<rparr>"

definition put_label :: "kstr_ptr \<Rightarrow> sysinfo \<Rightarrow> sysinfo" where
  "put_label k req = req\<lparr> sys_label := k \<rparr>"

text \<open>\<open>a.and(b)\<close>: the error of \<open>a\<close>, or else \<open>b\<close>; both have been evaluated.\<close>

definition res_and :: "'e + unit \<Rightarrow> 'e + unit \<Rightarrow> 'e + unit" where
  "res_and a b = (case a of Inl e \<Rightarrow> Inl e | Inr _ \<Rightarrow> b)"

definition fill_names :: "info_env \<Rightarrow> sysinfo \<Rightarrow> mem \<Rightarrow> ((sys_error + unit) \<times> sysinfo \<times> mem) outcome" where
  "fill_names E req m =
     (let name = fst (COMPUTER_NAME E) in
      outcome_bind (fill_field hostname put_hostname name req m) (\<lambda>(r1, req, m).
      outcome_bind (fill_field sys_display_name put_display_name name req m) (\<lambda>(r2, req, m).
      outcome_bind (fill_field sys_label put_label name req m) (\<lambda>(r3, req, m).
        Returned (res_and r3 (res_and r2 (res_and r1 (Inr ()))), req, m)))))"

definition subsystem_request :: "info_env \<Rightarrow> 'f registry \<Rightarrow> sysinfo \<Rightarrow> (sys_error + unit) \<times> sysinfo" where
  "subsystem_request E r req =
     (case find (\<lambda>(n, i). id_of E (si_uuid i) = head_ty (req_head req)) (all_subsystems r) of
        Some (n, i) \<Rightarrow>
          (Inr (), req\<lparr> req_max_sysno := max_sysno i, req_subsys_version := subsys_version i, subsystem_no := n \<rparr>)
      | None \<Rightarrow>
          (if head_flags (req_head req) AND 0x0001 = 0 then Inl InvalidOption else Inr (), req))"

definition process_request ::
  "info_env \<Rightarrow> 'f registry \<Rightarrow> sysinfo \<Rightarrow> mem \<Rightarrow> ((sys_error + unit) \<times> sysinfo \<times> mem) outcome" where
  "process_request E r req m =
     (let head = req_head req in
      case validate_option_head head 0x0001 of
        Inl e \<Rightarrow> Returned (Inl e, req, m)
      | Inr _ \<Rightarrow>
          if head_flags head AND 0x00010000 \<noteq> 0
          then Returned (if head_flags head AND 0x0001 = 0 then Inl InvalidOption else Inr (), req, m)
          else if head_ty head = SYSINFO_REQUEST_OSVER E then
            outcome_bind (fill_field osvendor_name put_osvendor (OS_ELAB_NAME E) (clear_optional req) m) (\<lambda>(x, req, m).
              case x of
                Inl e \<Rightarrow> Returned (Inl e, req, m)
              | Inr _ \<Rightarrow> Returned (Inr (), req\<lparr> os_major := fst (OS_VERSION E), os_minor := snd (OS_VERSION E) \<rparr>, m))
          else if head_ty head = SYSINFO_REQUEST_KVENDOR E then
            outcome_bind (fill_field kvendor_name put_kvendor (KVENDOR_NAME E) (clear_optional req) m) (\<lambda>(x, req, m).
              case x of
                Inl e \<Rightarrow> Returned (Inl e, req, m)
              | Inr _ \<Rightarrow> Returned (Inr (), req\<lparr> build_id := BUILD_VERSION E, kernel_major := fst (KERNEL_VERSION E),
                  kernel_minor := snd (KERNEL_VERSION E) \<rparr>, m))
          else if head_ty head = SYSINFO_REQUEST_ARCH_INFO E then
            Returned (Inr (), (clear_optional req)\<lparr> arch_type := fst (ARCH_TYPE_VERSION E),
              arch_version := snd (ARCH_TYPE_VERSION E) \<rparr>, m)
          else if head_ty head = SYSINFO_REQUEST_COMPUTER_NAME E then
            fill_names E ((clear_optional req)\<lparr> sys_id := snd (COMPUTER_NAME E) \<rparr>) m
          else (case subsystem_request E r req of (x, req) \<Rightarrow> Returned (x, req, m)))"

text \<open>
  The call processes the requests its checked iterator yields, one after the other; an element that
  cannot be accessed ends it. The requests that were processed are returned in order.
\<close>

fun get_system_info ::
  "info_env \<Rightarrow> 'f registry \<Rightarrow> (access_error + sysinfo) list \<Rightarrow> sys_error + unit \<Rightarrow> mem \<Rightarrow>
   ((sys_error + unit) \<times> sysinfo list \<times> mem) outcome" where
  "get_system_info E r [] res m = Returned (res, [], m)"
| "get_system_info E r (Inl e # reqs) res m = Returned (Inl (access_to_sys_error e), [], m)"
| "get_system_info E r (Inr req # reqs) res m =
     outcome_bind (process_request E r req m) (\<lambda>(x, req, m).
       outcome_bind (get_system_info E r reqs (res_and res x) m) (\<lambda>(res, done, m). Returned (res, req # done, m)))"

definition GetSystemInfo ::
  "info_env \<Rightarrow> 'f registry \<Rightarrow> (access_error + sysinfo) list \<Rightarrow> mem \<Rightarrow> ((sys_error + unit) \<times> sysinfo list \<times> mem) outcome" where
  "GetSystemInfo E r reqs m = get_system_info E r reqs (Inr ()) m"

section \<open>One request after the other\<close>

text \<open>Processing requests on their own: the results in order, with the memory passed along.\<close>

fun each_request ::
  "info_env \<Rightarrow> 'f registry \<Rightarrow> sysinfo list \<Rightarrow> mem \<Rightarrow> ((sys_error + unit) \<times> sysinfo) list \<Rightarrow> mem \<Rightarrow> bool" where
  "each_request E r [] m xs m' \<longleftrightarrow> xs = [] \<and> m' = m"
| "each_request E r (req # reqs) m xs m' \<longleftrightarrow>
     (case xs of
        [] \<Rightarrow> False
      | (x, req') # xs' \<Rightarrow>
          (case process_request E r req m of
             Killed e \<Rightarrow> False
           | Returned (y, req1, m1) \<Rightarrow> y = x \<and> req1 = req' \<and> each_request E r reqs m1 xs' m'))"

definition first_error :: "('e + unit) list \<Rightarrow> 'e + unit" where
  "first_error xs = (case dropWhile (\<lambda>x. x = Inr ()) xs of [] \<Rightarrow> Inr () | x # _ \<Rightarrow> x)"

lemma res_and_first_error: "res_and x (first_error xs) = first_error (x # xs)"
  by (auto simp: res_and_def first_error_def split: sum.splits)

lemma res_and_assoc: "res_and (res_and a b) c = res_and a (res_and b c)"
  by (auto simp: res_and_def split: sum.splits)

lemma get_system_info_each:
  "each_request E r reqs m xs m' \<Longrightarrow>
   get_system_info E r (map Inr reqs) res m = Returned (res_and res (first_error (map fst xs)), map snd xs, m')"
proof (induction reqs arbitrary: m xs res)
  case Nil
  then show ?case by (auto simp: first_error_def res_and_def split: sum.split)
next
  case (Cons req reqs)
  obtain x req' xs' where xs: "xs = (x, req') # xs'" using Cons.prems by (cases xs) auto
  obtain m1 where p: "process_request E r req m = Returned (x, req', m1)" and e: "each_request E r reqs m1 xs' m'"
    using Cons.prems by (auto simp: xs split: outcome.splits)
  have "res_and (res_and res x) (first_error (map fst xs')) = res_and res (first_error (x # map fst xs'))"
    by (metis res_and_assoc res_and_first_error)
  then show ?case using p Cons.IH [OF e, of "res_and res x"] by (simp add: xs)
qed

section \<open>Properties\<close>

text \<open>
  C39. Each request of the system information call is processed on its own: the call processes all
  of them, also after one has failed, and returns the first error.
\<close>

theorem system_info_independent:
  assumes "each_request E r reqs m xs m'"
  shows "GetSystemInfo E r (map Inr reqs) m = Returned (first_error (map fst xs), map snd xs, m')"
  using get_system_info_each [OF assms, of "Inr ()"] by (simp add: GetSystemInfo_def res_and_def)

definition plain_request :: "info_env \<Rightarrow> sysinfo \<Rightarrow> bool" where
  "plain_request E req \<longleftrightarrow> head_ty (req_head req) \<notin>
     {SYSINFO_REQUEST_OSVER E, SYSINFO_REQUEST_KVENDOR E, SYSINFO_REQUEST_ARCH_INFO E, SYSINFO_REQUEST_COMPUTER_NAME E} \<and>
     validate_option_head (req_head req) 1 = Inr () \<and> head_flags (req_head req) AND 0x00010000 = 0"

lemma find_map_filter_skip:
  "\<forall>x \<in> set xs. \<forall>y. f x = Some y \<longrightarrow> \<not> P y \<Longrightarrow> find P (List.map_filter f xs @ ys) = find P ys"
  by (induction xs) (auto simp: map_filter_simps split: option.splits)

lemma find_slot:
  assumes "n < N" "f n = Some y" "P y" "\<forall>k < n. \<forall>z. f k = Some z \<longrightarrow> \<not> P z"
  shows "find P (List.map_filter f [0..<N]) = Some y"
proof -
  have "[0..<N] = [0..<n] @ n # [Suc n..<N]"
    using assms(1) upt_add_eq_append [of 0 n "N - n"] by (simp add: upt_conv_Cons)
  then have "List.map_filter f [0..<N] = List.map_filter f [0..<n] @ y # List.map_filter f [Suc n..<N]"
    using assms(2) by (simp add: List.map_filter_def)
  then show ?thesis using find_map_filter_skip [of "[0..<n]" f P] assms(3,4) by simp
qed

lemma find_no_slot:
  assumes "\<forall>k < N. \<forall>z. f k = Some z \<longrightarrow> \<not> P z"
  shows "find P (List.map_filter f [0..<N]) = None"
  using find_map_filter_skip [of "[0..<N]" f P "[]"] assms by simp

lemma process_plain:
  "plain_request E req \<Longrightarrow>
   process_request E r req m = (case subsystem_request E r req of (x, req) \<Rightarrow> Returned (x, req, m))"
  by (simp add: plain_request_def process_request_def)

text \<open>
  A request that names a subsystem by its identifier returns what the subsystem was registered
  with, for the first slot that has the identifier; a request nobody answers fails unless it is marked
  optional, and changes nothing.
\<close>

theorem subsystem_requests:
  assumes "plain_request E req" "registry_ok r"
    and "asked = (\<lambda>k. case subsys_slot r k of None \<Rightarrow> False | Some (t, i) \<Rightarrow> id_of E (si_uuid i) = head_ty (req_head req))"
  shows "(n < 64 \<and> asked n \<and> (\<forall>k < n. \<not> asked k) \<and> subsys_slot r n = Some (t, i) \<longrightarrow>
      process_request E r req m = Returned (Inr (), req\<lparr> req_max_sysno := max_sysno i,
        req_subsys_version := subsys_version i, subsystem_no := of_nat n \<rparr>, m)) \<and>
    ((\<forall>k < 64. \<not> asked k) \<longrightarrow>
      process_request E r req m =
        Returned (if head_flags (req_head req) AND 1 = 0 then Inl InvalidOption else Inr (), req, m))"
proof -
  let ?f = "\<lambda>n. map_option (\<lambda>(t, i). (word_of_nat n :: u16, i)) (subsys_slot r n)"
  let ?P = "\<lambda>(n :: u16, i). id_of E (si_uuid i) = head_ty (req_head req)"
  note s = process_plain [OF assms(1)] subsystem_request_def all_subsystems_slots [OF assms(2)]
  have no: "\<forall>z. ?f k = Some z \<longrightarrow> \<not> ?P z" if "\<not> asked k" for k
    using that by (auto simp: assms(3))
  have "find ?P (List.map_filter ?f [0..<64]) = Some (of_nat n, i)"
    if "n < 64" "asked n" "\<forall>k < n. \<not> asked k" "subsys_slot r n = Some (t, i)"
    using that no by (intro find_slot) (auto simp: assms(3))
  moreover have "find ?P (List.map_filter ?f [0..<64]) = None" if "\<forall>k < 64. \<not> asked k"
    using that no by (intro find_no_slot) auto
  ultimately show ?thesis unfolding s by auto
qed

text \<open>A registry without subsystems, and a request of an unknown type that is marked optional.\<close>

definition demo_info :: info_env where
  "demo_info = \<lparr> SYSINFO_REQUEST_OSVER = [1], SYSINFO_REQUEST_KVENDOR = [2], SYSINFO_REQUEST_ARCH_INFO = [3],
     SYSINFO_REQUEST_COMPUTER_NAME = [4], OS_ELAB_NAME = (0, 0), OS_VERSION = (0, 0), KVENDOR_NAME = (0, 0),
     BUILD_VERSION = [], KERNEL_VERSION = (0, 0), ARCH_TYPE_VERSION = ([9], 1), COMPUTER_NAME = ((0, 0), []),
     id_of = map of_char \<rparr>"

definition demo_request :: "bytes \<Rightarrow> u32 \<Rightarrow> sysinfo" where
  "demo_request ty flags =
     (let k = \<lparr> kstr_ptr = 0, kstr_len = 0 \<rparr>
      in \<lparr> req_head = \<lparr> head_ty = ty, head_flags = flags, head_rest = [0] \<rparr>, osvendor_name = k, os_major = 0, os_minor = 0,
           kvendor_name = k, build_id = [], kernel_major = 0, kernel_minor = 0, arch_type = [], arch_version = 0,
           sys_id = [], hostname = k, sys_display_name = k, sys_label = k, req_max_sysno = 0, req_subsys_version = 0,
           subsystem_no = 0 \<rparr>)"

lemma demo_head:
  "validate_option_head \<lparr> head_ty = ty, head_flags = 1, head_rest = [0] \<rparr> 1 = Inr ()"
  "validate_option_head \<lparr> head_ty = ty, head_flags = 0, head_rest = [0] \<rparr> 1 = Inr ()"
  by (simp_all add: validate_option_head_def STANDARD_OPTION_MASK_def Let_def)

theorem subsystem_requests_witness:
  "\<forall>m. process_request demo_info (registry_init :: nat registry) (demo_request [7] 1) m =
     Returned (Inr (), demo_request [7] 1, m)"
  using subsystem_requests [of demo_info "demo_request [7] 1" "registry_init :: nat registry", OF _ registry_init_ok refl]
    demo_head(1) [of "[7]"]
  by (simp add: plain_request_def demo_info_def demo_request_def Let_def)

theorem system_info_independent_witness:
  "\<forall>m. GetSystemInfo demo_info (registry_init :: nat registry) (map Inr [demo_request [7] 0, demo_request [3] 1]) m =
     Returned (Inl InvalidOption,
       [demo_request [7] 0, (demo_request [3] 0)\<lparr> arch_type := [9], arch_version := 1 \<rparr>], m)"
proof
  fix m
  let ?r = "registry_init :: nat registry"
  have a: "all_subsystems ?r = []" using all_subsystems_slots [OF registry_init_ok] by (simp add: List.map_filter_def)
  have "each_request demo_info ?r [demo_request [7] 0, demo_request [3] 1] m
      [(Inl InvalidOption, demo_request [7] 0), (Inr (), (demo_request [3] 0)\<lparr> arch_type := [9], arch_version := 1 \<rparr>)] m"
    using demo_head(1) [of "[3]"] demo_head(2) [of "[7]"]
    by (simp add: process_request_def subsystem_request_def a demo_info_def demo_request_def clear_optional_def Let_def)
  from system_info_independent [OF this]
  show "GetSystemInfo demo_info ?r (map Inr [demo_request [7] 0, demo_request [3] 1]) m =
     Returned (Inl InvalidOption,
       [demo_request [7] 0, (demo_request [3] 0)\<lparr> arch_type := [9], arch_version := 1 \<rparr>], m)"
    by (simp add: first_error_def)
qed

end
