(* ===== verification/WL_Libc.thy ===== *)
theory WL_Libc
  imports WL_Tls
begin

text \<open>
  The C library functions the two halves bring along and the small parsers of the build:
  \<open>setjmp\<close>, \<open>longjmp\<close>, \<open>malloc\<close>, \<open>aligned_alloc\<close>, \<open>free\<close> and \<open>sigaction\<close>
  (\<open>wl-impl/src/libc/libc_defs.rs\<close>), \<open>memcmp\<close>, \<open>memset\<close>, \<open>memmove\<close> and \<open>memcpy\<close>
  (\<open>wl-ld-lilium/src/helpers.rs\<close>), \<open>const_parse_u32\<close> (\<open>wl-impl/src/helpers.rs\<close>) with the version constants
  (\<open>wl-impl/src/lib.rs\<close>), the target triple (\<open>wl-impl/build.rs\<close>) and the job loop of \<open>wl-usi-io/src/poll.rs\<close>. The
  global allocator and the kernel are parameters.
\<close>

section \<open>Jumps\<close>

text \<open>The registers a call preserves, the stack pointer with the words on the stack, and the result.\<close>

record regs =
  rbx :: u64
  rbp :: u64
  r12 :: u64
  r13 :: u64
  r14 :: u64
  r15 :: u64
  rsp :: u64
  rip :: u64
  rax :: u64

type_synonym jmp_buf = "u64 list"

definition setjmp :: "(u64 \<Rightarrow> u64) \<Rightarrow> regs \<Rightarrow> jmp_buf \<times> regs" where
  "setjmp stack r =
     (let rsi = stack (rsp r); sp = rsp r + 8
      in ([rbx r, rbp r, r12 r, r13 r, r14 r, r15 r, sp, rsi], r\<lparr> rsp := sp, rip := rsi, rax := 0 \<rparr>))"

definition longjmp :: "jmp_buf \<Rightarrow> u64 \<Rightarrow> regs" where
  "longjmp buf status =
     \<lparr> rbx = buf ! 0, rbp = buf ! 1, r12 = buf ! 2, r13 = buf ! 3, r14 = buf ! 4, r15 = buf ! 5,
       rsp = buf ! 6, rip = buf ! 7, rax = (if status = 0 then 1 else status) \<rparr>"

section \<open>The heap\<close>

text \<open>
  \<open>Layout::from_size_align\<close> and \<open>isolate_lowest_one\<close> are the standard library's. The type \<open>max_align_t\<close> has no
  fields, so its size is zero. The heap is what the words at an address hold.
\<close>

record layout =
  lay_size :: usize
  lay_align :: usize

definition is_power_of_two :: "usize \<Rightarrow> bool" where
  "is_power_of_two a \<longleftrightarrow> a \<noteq> 0 \<and> a AND (a - 1) = 0"

definition from_size_align :: "usize \<Rightarrow> usize \<Rightarrow> layout option" where
  "from_size_align sz al =
     (if is_power_of_two al \<and> unat sz + unat al \<le> 2 ^ 63 then Some \<lparr> lay_size = sz, lay_align = al \<rparr> else None)"

definition isolate_lowest_one :: "usize \<Rightarrow> usize" where
  "isolate_lowest_one w = (case find (bit w) [0..<64] of None \<Rightarrow> 0 | Some k \<Rightarrow> 2 ^ k)"

definition size_of_max_align_t :: usize where
  "size_of_max_align_t = 0"

type_synonym heap = "u64 \<Rightarrow> u64"

definition malloc :: "(layout \<Rightarrow> u64) \<Rightarrow> usize \<Rightarrow> heap \<Rightarrow> u64 \<times> heap" where
  "malloc alloc sz h =
     (if sz = 0 then (0, h)
      else let al = max (isolate_lowest_one sz) size_of_max_align_t in
        case from_size_align (sz + 2 * 8) al of
          None \<Rightarrow> (0, h)
        | Some l \<Rightarrow>
            let p = alloc l in
            if p = 0 then (0, h) else (p + 16, h(p := sz, p + 8 := al)))"

definition aligned_alloc :: "(layout \<Rightarrow> u64) \<Rightarrow> usize \<Rightarrow> usize \<Rightarrow> heap \<Rightarrow> u64 \<times> heap" where
  "aligned_alloc alloc sz al h =
     (if sz = 0 then (0, h)
      else case from_size_align (sz + 2 * 8) al of
             None \<Rightarrow> (0, h)
           | Some l \<Rightarrow>
               let p = alloc l in
               if p = 0 then (0, h)
               else let off = 2 * 8 + ((- (p + 2 * 8)) AND (al - 1));
                        new_base = p + off;
                        q = p - 16
                    in (new_base, h(q := sz, q + 8 := al)))"

text \<open>\<open>free\<close> returns the block and layout it gives back to the allocator, and panics on a bad header.\<close>

definition free :: "u64 \<Rightarrow> heap \<Rightarrow> (u64 \<times> layout) option run" where
  "free ptr h =
     (if ptr = 0 then Ret None
      else let base = ptr - 16; sz = h base; al = h (base + 8) in
        case from_size_align (sz + 2 * 8) al of
          None \<Rightarrow> Panic
        | Some l \<Rightarrow> Ret (Some (base AND NOT (al - 1), l)))"

section \<open>Signal actions\<close>

record sig_action =
  sa_handler :: u64
  sa_mask :: u64
  sa_flags :: u64
  sa_restorer :: u64

record sig_abi =
  SA_RESTORER :: u32
  SA_SIGINFO :: u32
  SA_RESTART :: u32
  impl_restorer :: u64

text \<open>The kernel's answer to the new action (if any): a result and the previous action.\<close>

definition sigaction ::
  "sig_abi \<Rightarrow> (u32 \<Rightarrow> sig_action option \<Rightarrow> u32 \<times> sig_action) \<Rightarrow> u32 \<Rightarrow> (u64 \<times> u64 \<times> u32) option \<Rightarrow> bool \<Rightarrow>
   u32 \<times> (u64 \<times> u64 \<times> u32) option" where
  "sigaction A k signum action want_old =
     (let new = map_option (\<lambda>(hd, mask, flags).
                  \<lparr> sa_handler = hd, sa_mask = mask,
                    sa_flags = ucast (flags OR SA_RESTORER A OR SA_SIGINFO A OR SA_RESTART A),
                    sa_restorer = impl_restorer A \<rparr>) action
      in case k signum new of
           (r, old) \<Rightarrow>
             (r, if 0 \<le> sint r \<and> want_old
                 then Some (sa_handler old, sa_mask old, ucast (sa_flags old) AND NOT (SA_RESTORER A))
                 else None))"

section \<open>Memory routines of the loader\<close>

definition memset :: "(u64 \<Rightarrow> u8) \<Rightarrow> u64 \<Rightarrow> u32 \<Rightarrow> nat \<Rightarrow> u64 \<Rightarrow> u8" where
  "memset m ptr b len = fold (\<lambda>i m. m(ptr + of_nat i := ucast b)) [0..<len] m"

text \<open>\<open>safe_zeroed\<close>: the bytes of a value, written one after the other into what was there.\<close>

definition safe_zeroed :: "bytes \<Rightarrow> bytes" where
  "safe_zeroed uninit = fold (\<lambda>i p. p[i := 0]) [0..<length uninit] uninit"

definition memcpy :: "(u64 \<Rightarrow> u8) \<Rightarrow> u64 \<Rightarrow> u64 \<Rightarrow> nat \<Rightarrow> u64 \<Rightarrow> u8" where
  "memcpy m dest src len = fold (\<lambda>i m. m(dest + of_nat i := m (src + of_nat i))) [0..<len] m"

definition memmove :: "(u64 \<Rightarrow> u8) \<Rightarrow> u64 \<Rightarrow> u64 \<Rightarrow> nat \<Rightarrow> u64 \<Rightarrow> u8" where
  "memmove m dest src len = fold (\<lambda>i m. m(dest + of_nat i := m (src + of_nat i))) [0..<len] m"

text \<open>The difference is taken on signed bytes and wraps.\<close>

fun memcmp :: "bytes \<Rightarrow> bytes \<Rightarrow> int" where
  "memcmp (a # as) (b # bs) = (let d = sint (a - b) in if d = 0 then memcmp as bs else if d < 0 then - 1 else 1)"
| "memcmp _ _ = 0"

section \<open>Numbers, versions and targets of the build\<close>

definition digit :: "u8 \<Rightarrow> nat option" where
  "digit b =
     (if 48 \<le> b \<and> b \<le> 57 then Some (unat b - 48)
      else if 65 \<le> b \<and> b \<le> 90 then Some (unat b - 65 + 10)
      else if 97 \<le> b \<and> b \<le> 122 then Some (unat b - 97 + 10)
      else None)"

fun parse_digits :: "nat \<Rightarrow> bytes \<Rightarrow> nat \<Rightarrow> nat run" where
  "parse_digits radix [] val = Ret val"
| "parse_digits radix (b # bs) val =
     (case digit b of
        None \<Rightarrow> Panic
      | Some d \<Rightarrow>
          if d < radix
          then if val * radix < 2 ^ 32 \<and> val * radix + d < 2 ^ 32 then parse_digits radix bs (val * radix + d) else Panic
          else Panic)"

definition const_parse_u32 :: "bytes \<Rightarrow> nat \<Rightarrow> nat run" where
  "const_parse_u32 v radix = (if radix < 2 \<or> 36 < radix then Panic else parse_digits radix v 0)"

definition KAPI_VERSION :: "u32 \<Rightarrow> u32 \<Rightarrow> u32 \<Rightarrow> u64" where
  "KAPI_VERSION major minor patch = push_bit 40 (ucast major) OR push_bit 20 (ucast minor) OR ucast patch"

text \<open>The components of \<open>WL_LILIUM_TARGET\<close>, at most four of them, as architecture, vendor, system and environment.\<close>

fun split_on :: "char \<Rightarrow> string \<Rightarrow> string list" where
  "split_on c [] = [[]]"
| "split_on c (x # xs) =
     (if x = c then [] # split_on c xs else (case split_on c xs of p # ps \<Rightarrow> (x # p) # ps | [] \<Rightarrow> [[x]]))"

definition target_parts :: "string list \<Rightarrow> (string \<times> string \<times> string \<times> string) run" where
  "target_parts parts =
     (case parts of
        arch # second # others \<Rightarrow>
          let third = (case others of [] \<Rightarrow> None | t # _ \<Rightarrow> Some t);
              fourth = (case others of _ # f # _ \<Rightarrow> Some f | _ \<Rightarrow> None);
              vendor = (if third \<noteq> None \<and> fourth \<noteq> None then second
                        else if third \<noteq> None \<and> second \<noteq> ''lilium'' then second else ''pc'');
              os = (case third of
                      Some third \<Rightarrow> if fourth \<noteq> None then third else if second \<noteq> ''lilium'' then second else third
                    | None \<Rightarrow> second);
              env = (case fourth of
                       Some fourth \<Rightarrow> fourth
                     | None \<Rightarrow> (case third of Some third \<Rightarrow> if second = ''lilium'' then third else ''std'' | None \<Rightarrow> ''std''))
          in Ret (arch, vendor, os, env)
      | _ \<Rightarrow> Panic)"

text \<open>\<open>env\<close> is the variable \<open>WL_LILIUM_TARGET\<close>, absent or set to text.\<close>

definition lilium_target :: "string \<Rightarrow> string option \<Rightarrow> (string \<times> string \<times> string \<times> string) run" where
  "lilium_target arch env =
     (case env of
        Some st \<Rightarrow> target_parts (split_on CHR ''-'' st)
      | None \<Rightarrow> Ret (arch, ''pc'', ''lilium'', ''std''))"

section \<open>Jobs\<close>

datatype status = Done | Waiting | Working

text \<open>
  The destructor of \<open>CancelationHandle\<close>: \<open>ptr\<close> is what the swap with null gave back and \<open>slot i\<close> what the \<open>i\<close>-th load
  sees. The value is the number of loads.
\<close>

partial_function (option) await_slot :: "(nat \<Rightarrow> u64) \<Rightarrow> nat \<Rightarrow> nat option" where
  "await_slot slot i = (if slot i = 0 then await_slot slot (Suc i) else Some (Suc i))"

definition cancelation_drop :: "u64 \<Rightarrow> (nat \<Rightarrow> u64) \<Rightarrow> nat option" where
  "cancelation_drop ptr slot = (if ptr \<noteq> NOT 0 then await_slot slot 0 else Some 0)"

text \<open>\<open>cancelled i\<close> is what the \<open>i\<close>-th load of the flag sees. A loop that does not end has the value None.\<close>

partial_function (option) process_one_job :: "(nat \<Rightarrow> bool) \<Rightarrow> nat \<Rightarrow> status \<Rightarrow> status option" where
  "process_one_job cancelled i st =
     (case st of
        Waiting \<Rightarrow> process_one_job cancelled i st
      | Working \<Rightarrow> if cancelled i then Some Done else process_one_job cancelled (Suc i) st
      | Done \<Rightarrow> Some Waiting)"

section \<open>Jumping back\<close>

text \<open>
  \<open>longjmp\<close> continues where \<open>setjmp\<close> returned, with the registers it left, and a result that is never
  zero.
\<close>

theorem longjmp_returns_to_setjmp:
  assumes "setjmp stack r = (buf, r')"
  shows "longjmp buf status = r'\<lparr> rax := if status = 0 then 1 else status \<rparr> \<and> rax (longjmp buf status) \<noteq> 0"
  using assms by (cases r) (auto simp: setjmp_def longjmp_def Let_def)

section \<open>Allocation\<close>

lemma isolate_lowest_one_pow: "w \<noteq> 0 \<Longrightarrow> \<exists>k < 64. isolate_lowest_one w = 2 ^ k \<and> bit w k"
proof -
  assume "w \<noteq> 0"
  then obtain n where n: "bit w n" by (auto simp: bit_eq_iff)
  then have "n < 64" using bit_imp_le_length [OF n] by simp
  then have "find (bit w) [0..<64] \<noteq> None" using n by (auto simp: find_None_iff)
  then obtain k where k: "find (bit w) [0..<64] = Some k" by blast
  then have "bit w k \<and> k < 64" by (auto simp: find_Some_iff)
  moreover have "isolate_lowest_one w = 2 ^ k" by (simp add: isolate_lowest_one_def k)
  ultimately show ?thesis by blast
qed

lemma round_down_aligned:
  assumes "k < 64" "unat p mod 2 ^ k = 0"
  shows "p AND NOT (2 ^ k - 1) = (p :: u64)"
proof -
  have "2 ^ k dvd unat p" using assms(2) by (simp add: mod_0_imp_dvd)
  then have "unat (p AND NOT (2 ^ k - 1)) = unat p" unfolding unat_round_down [OF assms(1)] by (rule dvd_div_mult_self)
  then show ?thesis by (rule word_unat_eq_iff [THEN iffD2])
qed

text \<open>
  C40. What \<open>malloc\<close> takes \<open>free\<close> gives back: for a block from the allocator the pointer returned is
  sixteen bytes behind it, and as long as the two words in front of the pointer are not overwritten, freeing
  the pointer returns the same block with the same layout.
\<close>

theorem malloc_free_balanced:
  assumes "malloc alloc sz h = (ptr, h')" "ptr \<noteq> 0"
    and aligned: "\<And>l. unat (alloc l) mod unat (lay_align l) = 0"
    and kept: "h'' (ptr - 16) = h' (ptr - 16)" "h'' (ptr - 8) = h' (ptr - 8)"
  shows "\<exists>l. alloc l = ptr - 16 \<and> lay_size l = sz + 16 \<and> free ptr h'' = Ret (Some (ptr - 16, l))"
proof -
  let ?al = "max (isolate_lowest_one sz) size_of_max_align_t"
  have sz: "sz \<noteq> 0" using assms(1,2) by (auto simp: malloc_def)
  obtain k where k: "k < 64" "?al = 2 ^ k"
    using isolate_lowest_one_pow [OF sz] by (auto simp: size_of_max_align_t_def max_def)
  obtain l where l: "from_size_align (sz + 16) ?al = Some l" "alloc l \<noteq> 0"
    using assms(1,2) sz by (auto simp: malloc_def Let_def split: option.splits if_splits)
  have p: "ptr = alloc l + 16" "h' = h(alloc l := sz, alloc l + 8 := ?al)"
    using assms(1) sz l by (auto simp: malloc_def Let_def)
  have lay: "lay_size l = sz + 16" "lay_align l = ?al"
    using l(1) by (auto simp: from_size_align_def split: if_splits)
  have ne: "alloc l + 8 \<noteq> alloc l" by (simp add: word_unat_eq_iff [of "8"])
  have "ptr - 16 = alloc l" "ptr - 8 = alloc l + 8" "ptr - 16 + 8 = alloc l + 8" by (simp_all add: p(1) algebra_simps)
  then have hdr: "h'' (ptr - 16) = sz" "h'' (ptr - 16 + 8) = ?al"
    using kept ne ne [symmetric] by (simp_all only: p(2) fun_upd_apply if_True if_False simp_thms)
  have "unat (alloc l) mod 2 ^ k = 0" using aligned [of l] by (simp add: lay(2) k(2) unat_pow2 k(1))
  then have "alloc l AND NOT (?al - 1) = alloc l" using round_down_aligned [OF k(1)] k(2) by simp
  then have "free ptr h'' = Ret (Some (ptr - 16, l))"
    using hdr l(1) assms(2) by (simp add: free_def Let_def p(1))
  then show ?thesis using lay(1) p(1) by auto
qed

definition one_block :: "layout \<Rightarrow> u64" where
  "one_block l = 0x10000"

theorem malloc_free_balanced_witness:
  "malloc (\<lambda>l. if lay_align l = 16 then 0x10000 else 0) 48 (\<lambda>a. 0) =
     (0x10010, (\<lambda>a. 0)(0x10000 := 48, 0x10008 := 16)) \<and>
   (\<exists>l. lay_size l = 64 \<and> free 0x10010 ((\<lambda>a. 0)(0x10000 := 48, 0x10008 := 16)) = Ret (Some (0x10000, l)))"
proof -
  let ?alloc = "\<lambda>l. if lay_align l = 16 then 0x10000 else 0 :: u64"
  have "find (bit (48 :: usize)) [0..<64] = Some 4" by code_simp
  then have "isolate_lowest_one 48 = 16" by (simp add: isolate_lowest_one_def)
  then have m: "malloc ?alloc 48 (\<lambda>a. 0) = (0x10010, (\<lambda>a. 0)(0x10000 := 48, 0x10008 := 16))"
    by (simp add: malloc_def size_of_max_align_t_def from_size_align_def is_power_of_two_def Let_def)
  have "\<exists>l. ?alloc l = 0x10010 - 16 \<and> lay_size l = 48 + 16 \<and>
      free 0x10010 ((\<lambda>a. 0)(0x10000 := 48, 0x10008 := 16)) = Ret (Some (0x10010 - 16, l))"
    by (rule malloc_free_balanced [OF m]) simp_all
  then show ?thesis using m by auto
qed

text \<open>
  The size of \<open>max_align_t\<close> is taken instead of its alignment, so a block of odd size is aligned to a
  single byte; \<open>aligned_alloc\<close> writes its header in front of the allocator's block, not in front of the
  pointer it returns, so that \<open>free\<close> does not find it.
\<close>

theorem malloc_alignment_lost:
  "malloc (\<lambda>l. if lay_align l = 1 then 0x10001 else 0) 7 h = (0x10011, h(0x10001 := 7, 0x10009 := 1))"
proof -
  have "find (bit (7 :: usize)) [0..<64] = Some 0" by code_simp
  then have "isolate_lowest_one 7 = 1" by (simp add: isolate_lowest_one_def)
  then show ?thesis
    by (simp add: malloc_def size_of_max_align_t_def from_size_align_def is_power_of_two_def Let_def)
qed

theorem aligned_alloc_header_misplaced:
  "aligned_alloc one_block 32 64 (\<lambda>a. 0) = (0x10040, (\<lambda>a. 0)(0xFFF0 := 32, 0xFFF8 := 64)) \<and>
   free 0x10040 (snd (aligned_alloc one_block 32 64 (\<lambda>a. 0))) = Panic"
  by (simp add: aligned_alloc_def free_def one_block_def from_size_align_def is_power_of_two_def Let_def)

section \<open>Copying and comparing memory\<close>

lemma memcpy_Suc:
  "memcpy m dest src (Suc n) = (memcpy m dest src n)(dest + of_nat n := memcpy m dest src n (src + of_nat n))"
  by (simp add: memcpy_def)

lemma forward_copy:
  assumes "\<forall>i j. i < j \<and> j < n \<longrightarrow> dest + of_nat i \<noteq> src + (of_nat j :: u64)" "n < 2 ^ 64"
  shows "memcpy m dest src n x = (if unat (x - dest) < n then m (src + (x - dest)) else m x)"
  using assms
proof (induction n arbitrary: x)
  case (Suc n)
  have ih: "memcpy m dest src n y = (if unat (y - dest) < n then m (src + (y - dest)) else m y)" for y
    using Suc.prems by (intro Suc.IH) auto
  have "\<not> unat (src + of_nat n - dest) < n"
  proof
    assume lt: "unat (src + of_nat n - dest) < n"
    have "dest + of_nat (unat (src + of_nat n - dest)) = src + of_nat n" by simp
    then show False using Suc.prems(1) lt by blast
  qed
  moreover have "x = dest + of_nat n \<longleftrightarrow> unat (x - dest) = n"
    using Suc.prems(2) unat_of_nat_64 [of n] by (auto simp: word_unat_eq_iff [of "x - dest" "of_nat n"] algebra_simps)
  ultimately show ?case by (auto simp: memcpy_Suc ih less_Suc_eq)
qed (simp add: memcpy_def)

text \<open>
  Both copying routines go upwards. That is right unless the destination starts inside the source: then
  the first bytes are read again after they have been overwritten, also by \<open>memmove\<close>.
\<close>

theorem memory_copies:
  assumes "\<forall>i j. i < j \<and> j < n \<longrightarrow> dest + of_nat i \<noteq> src + (of_nat j :: u64)" "n < 2 ^ 64"
  shows "memcpy m dest src n x = (if unat (x - dest) < n then m (src + (x - dest)) else m x)"
    and "memmove m dest src n x = (if unat (x - dest) < n then m (src + (x - dest)) else m x)"
  using forward_copy [OF assms] by (simp_all add: memmove_def memcpy_def)

theorem memmove_overlap_repeats:
  "map (memmove (\<lambda>a. ucast a) 1 0 3) [0, 1, 2, 3] = [0, 0, 0, 0]"
  by code_simp

text \<open>\<open>safe_zeroed\<close> leaves nothing of what was there.\<close>

theorem safe_zeroed_zero: "safe_zeroed u = replicate (length u) 0"
proof -
  have "fold (\<lambda>i p. p[i := 0]) [0..<n] u = replicate n 0 @ drop n u" if "n \<le> length u" for n
    using that
  proof (induction n)
    case (Suc n)
    then show ?case
      by (simp add: list_update_append replicate_append_same Cons_nth_drop_Suc [symmetric] flip: append_Cons)
  qed simp
  from this [of "length u"] show ?thesis by (simp add: safe_zeroed_def)
qed

lemma memset_fills: "n < 2 ^ 64 \<Longrightarrow> memset m ptr b n x = (if unat (x - ptr) < n then ucast b else m x)"
proof (induction n)
  case (Suc n)
  have "x = ptr + of_nat n \<longleftrightarrow> unat (x - ptr) = n"
    using Suc.prems unat_of_nat_64 [of n] by (auto simp: word_unat_eq_iff [of "x - ptr" "of_nat n"] algebra_simps)
  then show ?case using Suc by (auto simp: memset_def less_Suc_eq)
qed (simp add: memset_def)

text \<open>
  Comparing blocks of the same length tells whether they are equal. Its sign is that of the unsigned bytes only
  when the first differing bytes are less than 128 apart.
\<close>

theorem memcmp_zero_iff: "length as = length bs \<Longrightarrow> memcmp as bs = 0 \<longleftrightarrow> as = bs"
proof (induction as bs rule: list_induct2)
  case (Cons a as b bs)
  have "sint (a - b) = 0 \<longleftrightarrow> a = b" by (simp only: signed_eq_0_iff eq_iff_diff_eq_0 [symmetric])
  then show ?case using Cons by (cases "a = b") (simp_all add: Let_def del: signed_eq_0_iff)
qed simp

theorem memcmp_sign_wrong: "memcmp [0xFF] [0x00] = - 1 \<and> memcmp [0x81] [0x80] = 1"
  by code_simp

section \<open>Parsing\<close>

lemma parse_digits_value:
  "\<forall>b \<in> set bs. \<exists>d < radix. digit b = Some d \<Longrightarrow> 0 < radix \<Longrightarrow> v < 2 ^ 32 \<Longrightarrow>
   parse_digits radix bs v =
     (let w = foldl (\<lambda>v b. v * radix + the (digit b)) v bs in if w < 2 ^ 32 then Ret w else Panic)"
proof (induction bs arbitrary: v)
  case (Cons b bs)
  obtain d where d: "digit b = Some d" "d < radix" using Cons.prems(1) by auto
  have mono: "v' \<le> foldl (\<lambda>v b. v * radix + the (digit b)) v' bs" for v'
  proof (induction bs arbitrary: v')
    case (Cons c cs)
    have "v' \<le> v' * radix + the (digit c)" using \<open>0 < radix\<close> by (simp add: trans_le_add1)
    then show ?case using Cons [of "v' * radix + the (digit c)"] by simp
  qed simp
  show ?case
  proof (cases "v * radix + d < 2 ^ 32")
    case True
    then show ?thesis using Cons.IH [of "v * radix + d"] Cons.prems(1,2) d by (simp add: Let_def)
  next
    case False
    then show ?thesis using mono [of "v * radix + d"] d by (simp add: Let_def)
  qed
qed simp

text \<open>A number of digits of the radix is parsed to its value, or refused when it does not fit 32 bits.\<close>

theorem const_parse_u32_value:
  assumes "2 \<le> radix" "radix \<le> 36" "\<forall>b \<in> set bs. \<exists>d < radix. digit b = Some d"
  shows "const_parse_u32 bs radix =
    (let w = foldl (\<lambda>v b. v * radix + the (digit b)) 0 bs in if w < 2 ^ 32 then Ret w else Panic)"
  using assms parse_digits_value [OF assms(3), of 0] by (simp add: const_parse_u32_def)

text \<open>With three components the system is taken from the wrong one.\<close>

theorem lilium_target_three:
  "target_parts [a, v, o', e] = Ret (a, v, o', e)"
  "lilium_target host (Some ''x86_64-pc-lilium'') = Ret (''x86_64'', ''pc'', ''pc'', ''std'')"
  "lilium_target host (Some ''x86_64-lilium-gnu'') = Ret (''x86_64'', ''pc'', ''gnu'', ''gnu'')"
  "lilium_target host (Some ''x86_64'') = Panic"
  by (simp_all add: lilium_target_def target_parts_def Let_def)

section \<open>Jobs\<close>

text \<open>
  A job that works returns once its flag is seen set; a job that waits never returns, because nothing in
  the loop changes its state.
\<close>

theorem process_one_job_behaviour:
  "process_one_job c i Waiting = None"
  "process_one_job c i Done = Some Waiting"
  "c (i + n) \<Longrightarrow> process_one_job c i Working = Some Done"
proof -
  have "st \<noteq> Waiting" if "process_one_job c i st = Some y" for c i st y
    by (rule process_one_job.raw_induct [OF _ that]) (auto split: status.splits if_splits)
  then show "process_one_job c i Waiting = None" by (cases "process_one_job c i Waiting") blast+
  show "process_one_job c i Done = Some Waiting" by (simp add: process_one_job.simps)
  show "process_one_job c i Working = Some Done" if "c (i + n)"
    using that by (induction n arbitrary: i) (simp_all add: process_one_job.simps [of c _ Working])
qed

text \<open>
  Dropping a handle returns exactly when the slot held no job or is filled again: in particular it waits for
  ever when the handle of a slot that is already null is dropped and nothing refills it.
\<close>

theorem cancelation_drop_returns:
  "(\<exists>n. cancelation_drop ptr slot = Some n) \<longleftrightarrow> ptr = NOT 0 \<or> (\<exists>i. slot i \<noteq> 0)"
proof -
  have "\<exists>i. slot i \<noteq> 0" if "await_slot slot k = Some n" for k n
    by (rule await_slot.raw_induct [OF _ that]) (auto split: if_splits)
  moreover have "slot (k + i) \<noteq> 0 \<Longrightarrow> \<exists>n. await_slot slot k = Some n" for k i
  proof (induction i arbitrary: k)
    case (Suc i)
    then show ?case using Suc.IH [of "Suc k"] by (subst await_slot.simps) auto
  qed (simp add: await_slot.simps)
  then have "slot i \<noteq> 0 \<Longrightarrow> \<exists>n. await_slot slot 0 = Some n" for i by (metis add_0)
  ultimately show ?thesis unfolding cancelation_drop_def by auto
qed

end
