(* ===== verification/WL_Runtime.thy ===== *)
theory WL_Runtime
  imports WL_Entry WL_Once_Lock
begin

text \<open>
  The process around the calls: its set-up (\<open>__wl_impl_setup_process\<close> of \<open>wl-impl/src/lib.rs\<close> and
  \<open>__install_sa_handler\<close> of \<open>wl-impl/c/signal_support/x86_64.c\<close>), random numbers per thread
  (\<open>wl-impl/src/rand.rs\<close>) and the random words the loader hands out (\<open>wl-ld-lilium/src/entry.rs\<close>), the
  record of the first thread and joining (\<open>wl-impl/src/thread.rs\<close>), the results of Linux calls
  (\<open>wl-impl/src/libc.rs\<close>) and the ways a process ends (\<open>exit_unrecoverably\<close> of
  \<open>wl-impl/src/helpers.rs\<close> and the exit and exception calls of the subsystems).
\<close>

section \<open>Set-up of the process\<close>

text \<open>
  \<open>GLOBAL_SEED\<close> is a one-time cell; the mutex inside is held for the whole of each access, so its content is
  a generator. \<open>local_seed\<close> is the thread-local cell of every thread. \<open>accepts\<close> says for which signal numbers
  the kernel takes a handler; the results of these calls are not looked at.
\<close>

datatype filter_mode = Prctl | Seccomp

record 'h runtime =
  sa_signals :: "nat list"
  dispatch_region :: "(u64 \<times> usize) option"
  global_seed :: "'h once"
  local_seed :: "nat \<rightharpoonup> 'h"

definition runtime_init :: "'h runtime" where
  "runtime_init = \<lparr> sa_signals = [], dispatch_region = None, global_seed = once_new, local_seed = Map.empty \<rparr>"

definition install_sa_handler :: "(nat \<Rightarrow> bool) \<Rightarrow> 'h runtime \<Rightarrow> 'h runtime" where
  "install_sa_handler accepts s = s\<lparr> sa_signals := filter accepts [0..<32] \<rparr>"

definition set_seed :: "'h siphash \<Rightarrow> bytes \<Rightarrow> 'h runtime \<Rightarrow> 'h runtime run option" where
  "set_seed H rand_init s =
     map_option (\<lambda>r. run_bind r (\<lambda>(_, c). Ret (s\<lparr> global_seed := c \<rparr>)))
       (once_set (global_seed s) (gen_seed H rand_init))"

text \<open>\<open>prctl\<close> is the kernel's answer to the call that sets the region in which system calls are let through.\<close>

definition filter_calls :: "(u64 \<Rightarrow> usize \<Rightarrow> u64) \<Rightarrow> u64 \<Rightarrow> usize \<Rightarrow> filter_mode \<Rightarrow> 'h runtime \<Rightarrow> 'h runtime run" where
  "filter_calls prctl base sz mode s =
     (case mode of
        Prctl \<Rightarrow> if sint (prctl base sz) < 0 then Panic else Ret (s\<lparr> dispatch_region := Some (base, sz) \<rparr>)
      | Seccomp \<Rightarrow> Panic)"

definition setup_process ::
  "'h siphash \<Rightarrow> (nat \<Rightarrow> bool) \<Rightarrow> (u64 \<Rightarrow> usize \<Rightarrow> u64) \<Rightarrow> u64 \<Rightarrow> usize \<Rightarrow> filter_mode \<Rightarrow> bytes \<Rightarrow> 'h runtime \<Rightarrow>
   'h runtime run option" where
  "setup_process H accepts prctl base sz mode rand_init s =
     map_option (\<lambda>r. run_bind r (filter_calls prctl base sz mode))
       (set_seed H rand_init (install_sa_handler accepts s))"

section \<open>Random numbers\<close>

text \<open>The first call of a thread draws the two keys of its own generator from the global one.\<close>

definition draw_keys :: "'h siphash \<Rightarrow> 'h \<Rightarrow> bytes \<times> 'h" where
  "draw_keys H g =
     (let (k0, g1) = gen_next H g; (k1, g2) = gen_next H g1
      in (to_ne_bytes k0 @ to_ne_bytes k1, g2))"

definition local_init :: "'h siphash \<Rightarrow> 'h runtime \<Rightarrow> ('h \<times> 'h runtime) run option" where
  "local_init H s =
     map_option (\<lambda>r. run_bind r (\<lambda>(g, c).
         case g of
           Inl u \<Rightarrow> Panic
         | Inr g \<Rightarrow> (let (keys, g') = draw_keys H g
                     in Ret (gen_seed H keys, s\<lparr> global_seed := c\<lparr> val := Some g' \<rparr> \<rparr>))))
       (once_get (global_seed s))"

definition fast_rand :: "'h siphash \<Rightarrow> nat \<Rightarrow> 'h runtime \<Rightarrow> (u64 \<times> 'h runtime) run option" where
  "fast_rand H t s =
     map_option (\<lambda>r. run_bind r (\<lambda>(g, s).
         let (x, g') = gen_next H g in Ret (x, s\<lparr> local_seed := (local_seed s)(t \<mapsto> g') \<rparr>)))
       (case local_seed s t of Some g \<Rightarrow> Some (Ret (g, s)) | None \<Rightarrow> local_init H s)"

text \<open>
  What the loader draws from the kernel's random bytes: the word for the base address of programs, the bytes
  it passes to the set-up of the process, and the two words the program finds in its auxiliary vector.
\<close>

definition loader_draws :: "'h siphash \<Rightarrow> bytes \<Rightarrow> u64 \<times> bytes \<times> u64 \<times> u64" where
  "loader_draws H rand =
     (let (slide, g1) = gen_next H (gen_seed H rand);
          (rand_bytes, g2) = draw_keys H g1;
          (r0, g3) = gen_next H g2;
          (r1, g4) = gen_next H g3
      in (slide, rand_bytes, r0, r1))"

section \<open>Results of Linux calls\<close>

text \<open>
  \<open>def_syscall\<close>: \<open>check\<close> is the test of \<open>linux_syscall\<close> on the raw result and \<open>from_raw\<close> the conversion to the
  type of the call. A call that does not return has no result.
\<close>

definition def_syscall :: "(u64 \<Rightarrow> errno option) \<Rightarrow> (u64 \<Rightarrow> 'a run) \<Rightarrow> u64 \<Rightarrow> (errno + 'a) run" where
  "def_syscall check from_raw res =
     (case check res of Some e \<Rightarrow> Ret (Inl e) | None \<Rightarrow> run_bind (from_raw res) (\<lambda>v. Ret (Inr v)))"

definition from_raw_usize :: "u64 \<Rightarrow> u64 run" where
  "from_raw_usize raw = Ret raw"

definition from_raw_c_int :: "u64 \<Rightarrow> u32 run" where
  "from_raw_c_int raw = Ret (ucast raw)"

definition from_raw_unit :: "u64 \<Rightarrow> unit run" where
  "from_raw_unit raw = Ret ()"

definition from_raw_never :: "u64 \<Rightarrow> 'a run" where
  "from_raw_never raw = Panic"

definition unwrap :: "'e + 'a \<Rightarrow> 'a run" where
  "unwrap r = (case r of Inl e \<Rightarrow> Panic | Inr v \<Rightarrow> Ret v)"

section \<open>The first thread and joining\<close>

record thread_data =
  th_pid :: u32
  th_pfd :: u32
  th_tptr :: u64
  th_wake :: u32
  th_name :: string
  th_exit_status :: bytes

text \<open>
  \<open>__setup_init_thread\<close> on the cell of the thread; \<open>getpid\<close> and \<open>pidfd_open\<close> are the converted answers of the
  kernel, \<open>tp\<close> the thread pointer and \<open>status0\<close> a zeroed status, a type of \<open>lilium_sys\<close>.
\<close>

definition setup_init_thread ::
  "(errno + u32) \<Rightarrow> (u32 \<Rightarrow> errno + u32) \<Rightarrow> u64 \<Rightarrow> bytes \<Rightarrow> thread_data option \<Rightarrow> (errno + thread_data) \<times> thread_data option" where
  "setup_init_thread getpid pidfd_open tp status0 th_info =
     (case th_info of
        Some i \<Rightarrow> (Inr i, th_info)
      | None \<Rightarrow>
          (case getpid of
             Inl e \<Rightarrow> (Inl e, None)
           | Inr pid \<Rightarrow>
               (case pidfd_open pid of
                  Inl e \<Rightarrow> (Inl e, None)
                | Inr pfd \<Rightarrow>
                    let i = \<lparr> th_pid = pid, th_pfd = pfd, th_tptr = tp, th_wake = 0, th_name = ''Main Thread'',
                              th_exit_status = status0 \<rparr>
                    in (Inr i, Some i))))"

text \<open>
  \<open>waitid n\<close> is the kernel's answer to the \<open>n\<close>-th wait on the descriptor. \<open>join\<close> takes the handle by value, so
  its destructor runs before the result is returned.
\<close>

definition join_handle_drop :: "(nat \<Rightarrow> errno + unit) \<Rightarrow> nat \<Rightarrow> unit run" where
  "join_handle_drop waitid n = unwrap (waitid n)"

definition join_thread :: "(nat \<Rightarrow> errno + unit) \<Rightarrow> thread_data \<Rightarrow> (errno + bytes) run" where
  "join_thread waitid i =
     (let r = (case waitid 0 of Inl e \<Rightarrow> Inl e | Inr u \<Rightarrow> Inr (th_exit_status i))
      in run_bind (join_handle_drop waitid 1) (\<lambda>_. Ret r))"

section \<open>Ends of a process\<close>

datatype end_call = SetDefault signal | Kill signal

text \<open>
  \<open>gone i\<close> says that the process does not survive its \<open>i\<close>-th call. The calls up to the end of the process;
  None is the loop that does not end.
\<close>

partial_function (option) kill_loop :: "(nat \<Rightarrow> bool) \<Rightarrow> end_call list \<Rightarrow> nat \<Rightarrow> end_call list option" where
  "kill_loop gone cs i =
     (if gone i then Some (cs @ [Kill SIGKILL]) else kill_loop gone (cs @ [Kill SIGKILL]) (Suc i))"

definition exit_unrecoverably :: "(nat \<Rightarrow> bool) \<Rightarrow> end_call list option" where
  "exit_unrecoverably gone =
     (let cs = [SetDefault SIGQUIT, Kill SIGQUIT] in if gone 1 then Some cs else kill_loop gone cs 2)"

text \<open>
  The calls that end a thread or the process: \<open>answer\<close> is the raw result, should the kernel return.
\<close>

definition exit_call :: "(u64 \<Rightarrow> errno option) \<Rightarrow> u64 option \<Rightarrow> 'a run option" where
  "exit_call check answer =
     map_option (\<lambda>res. run_bind (def_syscall check from_raw_never res) unwrap) answer"

definition ExitThread :: "(u64 \<Rightarrow> errno option) \<Rightarrow> (u32 \<Rightarrow> u64 option) \<Rightarrow> u32 \<Rightarrow> 'a run option" where
  "ExitThread check exit code = exit_call check (exit code)"

definition ExitProcess :: "(u64 \<Rightarrow> errno option) \<Rightarrow> (u32 \<Rightarrow> u64 option) \<Rightarrow> u32 \<Rightarrow> 'a run option" where
  "ExitProcess check exit_group code = exit_call check (exit_group code)"

definition UnmanagedException :: "exception_id \<Rightarrow> 'a outcome" where
  "UnmanagedException except_code = Killed (Some except_code)"

definition ExceptHandleSynchronous :: "exception_id \<Rightarrow> u64 \<Rightarrow> (sys_error + unit) outcome" where
  "ExceptHandleSynchronous except_code data = Killed (Some except_code)"

definition OpenDevice :: "u64 \<Rightarrow> string \<Rightarrow> sys_error + unit" where
  "OpenDevice hdl dev = Inl UnknownDevice"

section \<open>Streams of random numbers\<close>

fun gen_at :: "'h siphash \<Rightarrow> 'h \<Rightarrow> nat \<Rightarrow> 'h" where
  "gen_at H g 0 = g"
| "gen_at H g (Suc n) = snd (gen_next H (gen_at H g n))"

definition stream :: "'h siphash \<Rightarrow> 'h \<Rightarrow> nat \<Rightarrow> u64" where
  "stream H g n = fst (gen_next H (gen_at H g n))"

definition thread_gen :: "'h siphash \<Rightarrow> 'h \<Rightarrow> nat \<Rightarrow> 'h" where
  "thread_gen H g k = from_keys H (stream H g (2 * k)) (stream H g (2 * k + 1))"

text \<open>The rank of a thread in the order of first calls, and the number a call of \<open>t\<close> after the calls \<open>ts\<close> returns.\<close>

definition thread_rank :: "nat list \<Rightarrow> nat \<Rightarrow> nat" where
  "thread_rank ts t = card (set (takeWhile (\<lambda>u. u \<noteq> t) ts))"

definition next_number :: "'h siphash \<Rightarrow> 'h \<Rightarrow> nat list \<Rightarrow> nat \<Rightarrow> u64" where
  "next_number H g ts t = stream H (thread_gen H g (thread_rank ts t)) (count_list ts t)"

text \<open>The numbers a sequence of calls returns, each by the thread named.\<close>

fun calls :: "'h siphash \<Rightarrow> nat list \<Rightarrow> 'h runtime \<Rightarrow> (u64 list \<times> 'h runtime) run option" where
  "calls H [] s = Some (Ret ([], s))"
| "calls H (t # ts) s =
     (case fast_rand H t s of
        None \<Rightarrow> None
      | Some Panic \<Rightarrow> Some Panic
      | Some (Ret (x, s)) \<Rightarrow> map_option (\<lambda>r. run_bind r (\<lambda>(xs, s). Ret (x # xs, s))) (calls H ts s))"

definition seeded :: "'h siphash \<Rightarrow> 'h \<Rightarrow> nat list \<Rightarrow> 'h runtime \<Rightarrow> bool" where
  "seeded H g ts s \<longleftrightarrow>
     global_seed s = once_new_init (gen_at H g (2 * card (set ts))) \<and>
     local_seed s = (\<lambda>t. if t \<in> set ts
                         then Some (gen_at H (thread_gen H g (thread_rank ts t)) (count_list ts t)) else None)"

lemma once_set_new: "once_set once_new v = Some (Ret (Inr (), once_new_init v))"
  by (simp add: once_set_def once_new_def once_new_init_def try_get_or_init_def is_init_def LOCK_def POISONED_def)

lemma once_get_ready: "once_get (once_new_init v) = Some (Ret (Inr v, once_new_init v))"
  by (simp add: once_get_def once_new_init_def try_get_or_init_def is_init_def INIT_def)

lemma once_ready_update: "(once_new_init v)\<lparr> val := Some w \<rparr> = once_new_init w"
  by (simp add: once_new_init_def)

lemma once_set_ready: "once_set (once_new_init v) w = Some (Ret (Inl w, once_new_init v))"
  by (simp add: once_set_def once_new_init_def try_get_or_init_def is_init_def INIT_def)

lemma once_get_new: "\<exists>c. once_get once_new = Some (Ret (Inl (), c))"
  by (simp add: once_get_def once_new_def try_get_or_init_def is_init_def LOCK_def POISONED_def)

lemma gen_next_at: "gen_next H (gen_at H g n) = (stream H g n, gen_at H g (Suc n))"
  by (simp add: stream_def)

lemma draw_keys_at:
  "draw_keys H (gen_at H g n) = (to_ne_bytes (stream H g n) @ to_ne_bytes (stream H g (Suc n)), gen_at H g (Suc (Suc n)))"
  by (simp add: draw_keys_def gen_next_at del: gen_at.simps)

lemma gen_seed_words: "gen_seed H (to_ne_bytes a @ to_ne_bytes b) = from_keys H a b"
  by (simp add: gen_seed_def)

lemma thread_rank_snoc: "t \<in> set ts \<Longrightarrow> thread_rank (ts @ us) t = thread_rank ts t"
  by (simp add: thread_rank_def takeWhile_append1)

lemma thread_rank_fresh: "t \<notin> set ts \<Longrightarrow> thread_rank (ts @ [t]) t = card (set ts) \<and> thread_rank ts t = card (set ts)"
proof -
  assume "t \<notin> set ts"
  then have "takeWhile (\<lambda>u. u \<noteq> t) ts = ts" by (subst takeWhile_eq_all_conv) auto
  moreover have "takeWhile (\<lambda>u. u \<noteq> t) (ts @ [t]) = ts"
    using \<open>t \<notin> set ts\<close> by (subst takeWhile_append2) auto
  ultimately show ?thesis by (simp only: thread_rank_def simp_thms)
qed

lemma seeded_setup:
  assumes "setup_process H accepts prctl base sz mode rand runtime_init = Some (Ret s)"
  shows "seeded H (gen_seed H rand) [] s"
  using assms
  by (auto simp: setup_process_def set_seed_def install_sa_handler_def runtime_init_def once_set_new filter_calls_def
      seeded_def fun_eq_iff run_simps split: filter_mode.splits if_splits)

lemma fast_rand_step:
  assumes "seeded H g ts s"
  shows "\<exists>s'. fast_rand H t s = Some (Ret (next_number H g ts t, s')) \<and> seeded H g (ts @ [t]) s'"
proof (cases "t \<in> set ts")
  case True
  then have "local_seed s t = Some (gen_at H (thread_gen H g (thread_rank ts t)) (count_list ts t))"
    using assms by (simp add: seeded_def)
  then show ?thesis
    using assms True
    by (auto simp: fast_rand_def gen_next_at next_number_def seeded_def thread_rank_snoc insert_absorb fun_eq_iff
        simp del: gen_at.simps)
next
  case False
  let ?n = "card (set ts)"
  have "local_seed s t = None" "global_seed s = once_new_init (gen_at H g (2 * ?n))"
    using assms False by (simp_all add: seeded_def)
  then have init: "fast_rand H t s =
      Some (Ret (stream H (thread_gen H g ?n) 0,
        s\<lparr> global_seed := once_new_init (gen_at H g (Suc (Suc (2 * ?n)))),
           local_seed := (local_seed s)(t \<mapsto> gen_at H (thread_gen H g ?n) (Suc 0)) \<rparr>))"
    using gen_next_at [of H "thread_gen H g ?n" 0]
    by (simp add: fast_rand_def local_init_def once_get_ready once_ready_update draw_keys_at gen_seed_words
        thread_gen_def del: gen_at.simps(2))
  have count: "count_list ts t = 0" using False by (simp add: count_list_0_iff)
  show ?thesis
    using assms False thread_rank_fresh [OF False] count
    by (auto simp: init next_number_def seeded_def thread_rank_snoc fun_eq_iff simp del: gen_at.simps)
qed

lemma calls_seeded:
  assumes "seeded H g pre s"
  shows "\<exists>s'. calls H ts s = Some (Ret (map (\<lambda>i. next_number H g (pre @ take i ts) (ts ! i)) [0..<length ts], s')) \<and>
    seeded H g (pre @ ts) s'"
  using assms
proof (induction ts arbitrary: pre s)
  case Nil
  then show ?case by simp
next
  case (Cons t ts)
  obtain s1 where s1: "fast_rand H t s = Some (Ret (next_number H g pre t, s1))" "seeded H g (pre @ [t]) s1"
    using fast_rand_step [OF Cons.prems] by blast
  from Cons.IH [OF s1(2)] show ?case
    by (auto simp: s1(1) map_upt_Suc simp del: upt_Suc)
qed

section \<open>The kill loop\<close>

lemma kill_loop_calls:
  assumes "kill_loop gone cs i = Some ds"
  shows "\<exists>n. ds = cs @ replicate n (Kill SIGKILL)"
proof (rule kill_loop.raw_induct [OF _ assms])
  fix f :: "(nat \<Rightarrow> bool) \<Rightarrow> end_call list \<Rightarrow> nat \<Rightarrow> end_call list option" and gone cs i y
  assume IH: "\<And>gone cs i y. f gone cs i = Some y \<Longrightarrow> \<exists>n. y = cs @ replicate n (Kill SIGKILL)"
    and eq: "(if gone i then Some (cs @ [Kill SIGKILL]) else f gone (cs @ [Kill SIGKILL]) (Suc i)) = Some y"
  show "\<exists>n. y = cs @ replicate n (Kill SIGKILL)"
  proof (cases "gone i")
    case True
    then show ?thesis using eq by (intro exI [of _ 1]) simp
  next
    case False
    then obtain n where "y = (cs @ [Kill SIGKILL]) @ replicate n (Kill SIGKILL)" using IH eq by fastforce
    then show ?thesis by (intro exI [of _ "Suc n"]) simp
  qed
qed

lemma kill_loop_ends: "(\<exists>ds. kill_loop gone cs i = Some ds) \<longleftrightarrow> (\<exists>j\<ge>i. gone j)"
proof
  have "\<exists>j\<ge>i. gone j" if "kill_loop gone cs i = Some ds" for ds
    by (rule kill_loop.raw_induct [OF _ that]) (auto split: if_splits, meson Suc_leD)
  then show "\<exists>ds. kill_loop gone cs i = Some ds \<Longrightarrow> \<exists>j\<ge>i. gone j" by blast
  have "gone (i + k) \<Longrightarrow> \<exists>ds. kill_loop gone cs i = Some ds" for k
  proof (induction k arbitrary: cs i)
    case (Suc k)
    then show ?case using Suc.IH [of "Suc i"] by (subst kill_loop.simps) auto
  qed (simp add: kill_loop.simps)
  then show "\<exists>j\<ge>i. gone j \<Longrightarrow> \<exists>ds. kill_loop gone cs i = Some ds" by (metis le_add_diff_inverse)
qed

section \<open>Properties\<close>

text \<open>
  C10. Random numbers after the set-up of the process: however the calls of any number of threads are
  interleaved, every call returns, and the numbers of a thread are the successive numbers of a generator of
  its own. The keys of that generator are the next two numbers of the global generator at the thread's first
  call, so no other thread's calls can change them later and no two threads share a pair. Before the set-up a
  call panics.
\<close>

theorem fast_rand_streams:
  assumes "setup_process H accepts prctl base sz mode rand runtime_init = Some (Ret s)"
  shows "(\<exists>s'. calls H ts s =
      Some (Ret (map (\<lambda>i. next_number H (gen_seed H rand) (take i ts) (ts ! i)) [0..<length ts], s'))) \<and>
    fast_rand H t runtime_init = Some Panic"
proof
  show "\<exists>s'. calls H ts s =
      Some (Ret (map (\<lambda>i. next_number H (gen_seed H rand) (take i ts) (ts ! i)) [0..<length ts], s'))"
    using calls_seeded [OF seeded_setup [OF assms], of ts] by auto
  obtain c where "once_get once_new = Some (Ret (Inl (), c :: 'a once))" using once_get_new by blast
  then show "fast_rand H t runtime_init = Some Panic"
    by (simp add: fast_rand_def local_init_def runtime_init_def)
qed

definition sum_hash :: "u64 siphash" where
  "sum_hash = \<lparr> from_keys = (\<lambda>a b. 3 * a + b), sip_update = (\<lambda>x g. 5 * g + x), sip_finish = (\<lambda>g. g XOR 7) \<rparr>"

theorem fast_rand_streams_witness:
  "\<exists>s. setup_process sum_hash (\<lambda>_. True) (\<lambda>_ _. 0) 4096 8192 Prctl (replicate 16 1) runtime_init = Some (Ret s) \<and>
    (\<exists>s'. calls sum_hash [4, 9, 4] s =
      Some (Ret (map (\<lambda>i. next_number sum_hash (gen_seed sum_hash (replicate 16 1)) (take i [4, 9, 4]) ([4, 9, 4] ! i)) [0..<length [4 :: nat, 9, 4]], s')))"
proof -
  obtain s where s: "setup_process sum_hash (\<lambda>_. True) (\<lambda>_ _. 0) 4096 8192 Prctl (replicate 16 1) runtime_init = Some (Ret s)"
    by (simp add: setup_process_def set_seed_def install_sa_handler_def runtime_init_def once_set_new filter_calls_def)
  show ?thesis using fast_rand_streams [OF s, of "[4, 9, 4]"] s by blast
qed

text \<open>
  The loader's draws are successive numbers of one generator: the word for the base address, then the two
  keys of the process, then the two words for the program, which are at other positions than the keys.
\<close>

theorem loader_draws_stream:
  "loader_draws H rand =
     (let g = gen_seed H rand
      in (stream H g 0, to_ne_bytes (stream H g 1) @ to_ne_bytes (stream H g 2), stream H g 3, stream H g 4))"
proof -
  have g: "gen_seed H rand = gen_at H (gen_seed H rand) 0" by simp
  show ?thesis
    unfolding loader_draws_def Let_def by (subst g) (simp add: gen_next_at draw_keys_at eval_nat_numeral del: gen_at.simps)
qed

text \<open>A second set-up keeps the generator of the first.\<close>

theorem second_setup_keeps_seed:
  assumes "setup_process H accepts prctl base sz mode rand runtime_init = Some (Ret s)"
    and "setup_process H accepts prctl base sz mode rand' s = Some (Ret s')"
  shows "global_seed s' = global_seed s"
proof -
  have "global_seed s = once_new_init (gen_seed H rand)" using seeded_setup [OF assms(1)] by (simp add: seeded_def)
  then show ?thesis using assms(2)
    by (auto simp: setup_process_def set_seed_def install_sa_handler_def once_set_ready filter_calls_def
        split: filter_mode.splits if_splits)
qed

text \<open>
  The record of the first thread is made once; an error leaves the cell empty for another attempt.
\<close>

theorem setup_init_thread_once:
  "setup_init_thread gp po tp st0 th_info = (r, th_info') \<Longrightarrow>
   (case r of Inr i \<Rightarrow> th_info' = Some i \<and> setup_init_thread gp' po' tp' st0' th_info' = (Inr i, th_info')
            | Inl e \<Rightarrow> th_info = None \<and> th_info' = None)"
  by (auto simp: setup_init_thread_def Let_def split: option.splits sum.splits)

text \<open>
  A child can be waited for once. The destructor of the handle waits a second time, so \<open>join\<close> panics after
  every successful wait; when the second wait is answered, the status is the one the record was made with.
\<close>

theorem join_panics:
  "waitid 1 = Inl e \<Longrightarrow> join_thread waitid i = Panic"
  "waitid 0 = Inr () \<Longrightarrow> waitid 1 = Inr () \<Longrightarrow> join_thread waitid i = Ret (Inr (th_exit_status i))"
  by (simp_all add: join_thread_def join_handle_drop_def unwrap_def)

text \<open>
  The end of the process is reached as soon as some call is not survived, after the default action was
  restored; every call after the first two is a kill.
\<close>

theorem exit_unrecoverably_ends:
  "(\<exists>cs. exit_unrecoverably gone = Some cs) \<longleftrightarrow> (\<exists>i\<ge>1. gone i)"
  "exit_unrecoverably gone = Some cs \<Longrightarrow>
     \<exists>n. cs = SetDefault SIGQUIT # Kill SIGQUIT # replicate n (Kill SIGKILL)"
proof -
  show "(\<exists>cs. exit_unrecoverably gone = Some cs) \<longleftrightarrow> (\<exists>i\<ge>1. gone i)"
  proof (cases "gone 1")
    case False
    have "(\<exists>i\<ge>1. gone i) \<longleftrightarrow> (\<exists>i\<ge>2. gone i)"
      using False by (metis One_nat_def Suc_1 Suc_leD le_antisym not_less_eq_eq)
    then show ?thesis using False by (simp add: exit_unrecoverably_def kill_loop_ends)
  qed (auto simp: exit_unrecoverably_def Let_def)
  show "\<exists>n. cs = SetDefault SIGQUIT # Kill SIGQUIT # replicate n (Kill SIGKILL)" if "exit_unrecoverably gone = Some cs"
    using that by (auto simp: exit_unrecoverably_def Let_def split: if_splits intro: exI [of _ 0] dest: kill_loop_calls)
qed

text \<open>A call that ends a thread or the process never returns to the program: the kernel does not return, or the call panics.\<close>

theorem exit_calls_never_return:
  "ExitThread check k code \<noteq> Some (Ret x)" "ExitProcess check k code \<noteq> Some (Ret x)"
  by (auto simp: ExitThread_def ExitProcess_def exit_call_def def_syscall_def from_raw_never_def unwrap_def
      split: option.splits)

end
