(* ===== verification/WL_Slices.thy ===== *)
theory WL_Slices
  imports WL_Access
begin

text \<open>
  The typed iterators over a caller's slice, \<open>CheckedSliceIter\<close> and \<open>CheckedSliceIterMut\<close>
  (\<open>wl-impl/src/helpers.rs\<close>), on top of the raw one. A reference to an element is its address. Both are
  declared over the raw iterator for reading, so neither probes for writing. The byte comparisons of the same
  file are here as well.
\<close>

section \<open>Typed iterators\<close>

text \<open>\<open>KCSlice\<close> and \<open>KSlice\<close> are types of \<open>lilium_sys\<close>; the code uses the two fields.\<close>

record kslice =
  arr_ptr :: u64
  ks_len :: usize

definition size_hint :: "u64 \<Rightarrow> slice_iter \<Rightarrow> usize \<times> usize option" where
  "size_hint sz it = (slice_len sz it, Some (slice_len sz it))"

definition iter_count :: "u64 \<Rightarrow> slice_iter \<Rightarrow> usize" where
  "iter_count sz it = slice_len sz it"

text \<open>The marker types say whether a probe writes back.\<close>

datatype slice_access = Read | Write

fun do_writeback :: "slice_access \<Rightarrow> bool" where
  "do_writeback Read = False"
| "do_writeback Write = True"

definition slice_clone :: "slice_iter \<Rightarrow> slice_iter" where
  "slice_clone it = \<lparr>it_pos = it_pos it, it_end = it_end it\<rparr>"

text \<open>The range of addresses of a slice.\<close>

definition as_ptr_range :: "u64 \<Rightarrow> kslice \<Rightarrow> u64 \<times> u64" where
  "as_ptr_range sz p = (arr_ptr p, arr_ptr p + ks_len p * sz)"

definition as_ptr_range_mut :: "u64 \<Rightarrow> kslice \<Rightarrow> u64 \<times> u64" where
  "as_ptr_range_mut sz p = (arr_ptr p, arr_ptr p + ks_len p * sz)"

text \<open>The default \<open>advance_back_by\<close> of the raw iterator takes elements from the back, probing each.\<close>

fun advance_back_by ::
  "bool \<Rightarrow> u64 \<Rightarrow> u64 \<Rightarrow> nat \<Rightarrow> slice_iter \<Rightarrow> mem \<Rightarrow> ((nat + unit) \<times> slice_iter \<times> mem) outcome" where
  "advance_back_by writeback sz tmp 0 it m = Returned (Inr (), it, m)"
| "advance_back_by writeback sz tmp (Suc n) it m =
     (case slice_next_back writeback sz tmp it m of
        Killed e \<Rightarrow> Killed e
      | Returned (None, it', m') \<Rightarrow> Returned (Inl (Suc n), it', m')
      | Returned (Some r, it', m') \<Rightarrow> advance_back_by writeback sz tmp n it' m')"

definition from_kslice_unchecked :: "u64 \<Rightarrow> kslice \<Rightarrow> slice_iter" where
  "from_kslice_unchecked sz ks = slice_new_unchecked sz (arr_ptr ks) (ks_len ks)"

definition iter_checked :: "u64 \<Rightarrow> kslice \<Rightarrow> slice_iter" where
  "iter_checked sz ks = from_kslice_unchecked sz ks"

definition iter_next :: "u64 \<Rightarrow> u64 \<Rightarrow> slice_iter \<Rightarrow> mem \<Rightarrow> ((access_error + u64) option \<times> slice_iter \<times> mem) outcome" where
  "iter_next = slice_next (do_writeback Read)"

definition iter_next_back :: "u64 \<Rightarrow> u64 \<Rightarrow> slice_iter \<Rightarrow> mem \<Rightarrow> ((access_error + u64) option \<times> slice_iter \<times> mem) outcome" where
  "iter_next_back = slice_next_back (do_writeback Read)"

definition iter_advance_back_by :: "u64 \<Rightarrow> u64 \<Rightarrow> nat \<Rightarrow> slice_iter \<Rightarrow> mem \<Rightarrow> ((nat + unit) \<times> slice_iter \<times> mem) outcome" where
  "iter_advance_back_by = advance_back_by (do_writeback Read)"

definition from_kslice_mut_unchecked :: "u64 \<Rightarrow> kslice \<Rightarrow> slice_iter" where
  "from_kslice_mut_unchecked sz ks = slice_new_unchecked sz (arr_ptr ks) (ks_len ks)"

definition iter_mut_checked :: "u64 \<Rightarrow> kslice \<Rightarrow> slice_iter" where
  "iter_mut_checked sz ks = from_kslice_mut_unchecked sz ks"

definition iter_mut_next :: "u64 \<Rightarrow> u64 \<Rightarrow> slice_iter \<Rightarrow> mem \<Rightarrow> ((access_error + u64) option \<times> slice_iter \<times> mem) outcome" where
  "iter_mut_next = slice_next (do_writeback Read)"

definition iter_mut_next_back :: "u64 \<Rightarrow> u64 \<Rightarrow> slice_iter \<Rightarrow> mem \<Rightarrow> ((access_error + u64) option \<times> slice_iter \<times> mem) outcome" where
  "iter_mut_next_back = slice_next_back (do_writeback Read)"

definition iter_mut_advance_back_by :: "u64 \<Rightarrow> u64 \<Rightarrow> nat \<Rightarrow> slice_iter \<Rightarrow> mem \<Rightarrow> ((nat + unit) \<times> slice_iter \<times> mem) outcome" where
  "iter_mut_advance_back_by = advance_back_by (do_writeback Read)"

definition iter_clone :: "slice_iter \<Rightarrow> slice_iter" where
  "iter_clone it = slice_clone it"

definition iter_advance_by :: "u64 \<Rightarrow> slice_iter \<Rightarrow> usize \<Rightarrow> (usize + unit) \<times> slice_iter" where
  "iter_advance_by sz it n = slice_advance_by sz it n"

definition iter_size_hint :: "u64 \<Rightarrow> slice_iter \<Rightarrow> usize \<times> usize option" where
  "iter_size_hint sz it = size_hint sz it"

definition iter_elem_count :: "u64 \<Rightarrow> slice_iter \<Rightarrow> usize" where
  "iter_elem_count sz it = iter_count sz it"

definition iter_len :: "u64 \<Rightarrow> slice_iter \<Rightarrow> usize" where
  "iter_len sz it = slice_len sz it"

definition iter_is_empty :: "slice_iter \<Rightarrow> bool" where
  "iter_is_empty it = slice_is_empty it"

definition iter_mut_advance_by :: "u64 \<Rightarrow> slice_iter \<Rightarrow> usize \<Rightarrow> (usize + unit) \<times> slice_iter" where
  "iter_mut_advance_by sz it n = slice_advance_by sz it n"

definition iter_mut_size_hint :: "u64 \<Rightarrow> slice_iter \<Rightarrow> usize \<times> usize option" where
  "iter_mut_size_hint sz it = size_hint sz it"

definition iter_mut_elem_count :: "u64 \<Rightarrow> slice_iter \<Rightarrow> usize" where
  "iter_mut_elem_count sz it = iter_count sz it"

definition iter_mut_len :: "u64 \<Rightarrow> slice_iter \<Rightarrow> usize" where
  "iter_mut_len sz it = slice_len sz it"

definition iter_mut_is_empty :: "slice_iter \<Rightarrow> bool" where
  "iter_mut_is_empty it = slice_is_empty it"

lemmas typed_iter_defs =
  iter_len_def iter_mut_len_def iter_size_hint_def iter_mut_size_hint_def size_hint_def iter_elem_count_def
  iter_mut_elem_count_def iter_count_def iter_is_empty_def iter_mut_is_empty_def iter_clone_def slice_clone_def
  iter_advance_by_def iter_mut_advance_by_def slice_advance_by_def Let_def

section \<open>Comparing bytes\<close>

datatype ordering = Less | Equal | Greater

definition bytes_eq :: "bytes \<Rightarrow> bytes \<Rightarrow> bool" where
  "bytes_eq v u \<longleftrightarrow> v = u"

fun bytes_cmp :: "bytes \<Rightarrow> bytes \<Rightarrow> ordering" where
  "bytes_cmp [] [] = Equal"
| "bytes_cmp [] (u # us) = Less"
| "bytes_cmp (v # vs) [] = Greater"
| "bytes_cmp (v # vs) (u # us) = (if v < u then Less else if u < v then Greater else bytes_cmp vs us)"

section \<open>A loop over a slice\<close>

text \<open>The elements a loop sees until the iterator is exhausted.\<close>

partial_function (option) collect ::
  "(slice_iter \<Rightarrow> mem \<Rightarrow> ((access_error + u64) option \<times> slice_iter \<times> mem) outcome) \<Rightarrow>
   (access_error + u64) list \<Rightarrow> slice_iter \<Rightarrow> mem \<Rightarrow> ((access_error + u64) list \<times> mem) outcome option" where
  "collect nxt rs it m =
     (case nxt it m of
        Killed e \<Rightarrow> Some (Killed e)
      | Returned (r, it', m') \<Rightarrow>
          (case r of None \<Rightarrow> Some (Returned (rs, m')) | Some r \<Rightarrow> collect nxt (rs @ [r]) it' m'))"

definition same_but :: "u64 \<Rightarrow> mem \<Rightarrow> mem \<Rightarrow> bool" where
  "same_but tmp m m' \<longleftrightarrow> (\<exists>b. m' = poke m tmp b)"

lemma same_but_poke: "same_but tmp (poke m tmp b) m' \<Longrightarrow> same_but tmp m m'"
  by (auto simp: same_but_def poke_def)

lemma same_but_refl: "same_but tmp m m"
  unfolding same_but_def by (metis poke_same)

lemma collect_items:
  assumes "slice_wf sz it" "sz \<le> 4096" "tmp \<notin> set (slice_items sz it)" "readable m tmp" "writable m tmp"
    and "list_all (readable m) (slice_items sz it)"
  shows "\<exists>m'. collect (slice_next False sz tmp) rs it m = Some (Returned (rs @ map Inr (slice_items sz it), m')) \<and>
    same_but tmp m m'"
  using assms
proof (induction "slice_items sz it" arbitrary: it m rs)
  case Nil
  then show ?case
    using slice_next_spec [OF Nil.prems(1-5), of False] same_but_refl by (subst collect.simps) auto
next
  case (Cons p ps)
  note c = Cons.hyps(2) [symmetric]
  obtain it' where it': "slice_wf sz it'" "slice_items sz it' = ps"
    "slice_next False sz tmp it m = visit False tmp m p it'"
    using slice_next_spec [OF Cons.prems(1-5), of False] by (auto simp: c)
  have v: "slice_next False sz tmp it m = Returned (Some (Inr p), it', poke m tmp (mbyte m p))"
    using it'(3) Cons.prems(6) by (simp add: visit_def c poke_def)
  obtain m' where "collect (slice_next False sz tmp) (rs @ [Inr p]) it' (poke m tmp (mbyte m p)) =
      Some (Returned ((rs @ [Inr p]) @ map Inr ps, m'))" "same_but tmp (poke m tmp (mbyte m p)) m'"
    using Cons.hyps(1) [of it' "poke m tmp (mbyte m p)" "rs @ [Inr p]"] it' Cons.prems by (auto simp: c)
  then show ?case using same_but_poke by (subst collect.simps) (auto simp: v c)
qed

lemma collect_fault:
  assumes "slice_wf sz it" "sz \<le> 4096" "tmp \<notin> set (slice_items sz it)" "readable m tmp" "writable m tmp"
    and "\<not> list_all (readable m) (slice_items sz it)"
  shows "collect (slice_next False sz tmp) rs it m = Some (Killed (sig_to_except SIGSEGV))"
  using assms
proof (induction "slice_items sz it" arbitrary: it m rs)
  case Nil
  then show ?case by (metis list.pred_inject(1))
next
  case (Cons p ps)
  note c = Cons.hyps(2) [symmetric]
  obtain it' where it': "slice_wf sz it'" "slice_items sz it' = ps"
    "slice_next False sz tmp it m = visit False tmp m p it'"
    using slice_next_spec [OF Cons.prems(1-5), of False] by (auto simp: c)
  show ?case
  proof (cases "readable m p")
    case True
    then have "slice_next False sz tmp it m = Returned (Some (Inr p), it', poke m tmp (mbyte m p))"
      using it'(3) by (simp add: visit_def poke_def)
    then show ?thesis
      using Cons.hyps(1) [of it' "poke m tmp (mbyte m p)" "rs @ [Inr p]"] it' Cons.prems True
      by (subst collect.simps) (auto simp: c)
  next
    case False
    then show ?thesis using it'(3) by (subst collect.simps) (simp add: visit_def del: sig_to_except.simps)
  qed
qed

section \<open>Properties\<close>

text \<open>
  A loop over a caller's slice, by the shared or the mutable iterator, ends. When every element can be read it
  sees the addresses of all elements in order and changes no memory but its scratch byte; otherwise the
  process ends. Whether the elements can be written makes no difference, for the mutable iterator either.
\<close>

theorem slice_loop_complete:
  assumes "unat (arr_ptr ks) + unat (ks_len ks) * unat sz < 2 ^ 64" "sz \<noteq> 0" "sz \<le> 4096"
    and items: "items = map (\<lambda>i. arr_ptr ks + of_nat i * sz) [0..<unat (ks_len ks)]"
    and "tmp \<notin> set items" "readable m tmp" "writable m tmp"
  shows "collect (iter_mut_next sz tmp) [] (iter_mut_checked sz ks) m = collect (iter_next sz tmp) [] (iter_checked sz ks) m"
    and "if list_all (readable m) items
      then \<exists>m'. collect (iter_next sz tmp) [] (iter_checked sz ks) m = Some (Returned (map Inr items, m')) \<and> same_but tmp m m'
      else collect (iter_next sz tmp) [] (iter_checked sz ks) m = Some (Killed (sig_to_except SIGSEGV))"
proof -
  have n: "slice_wf sz (iter_checked sz ks) \<and> slice_items sz (iter_checked sz ks) = items"
    using slice_new_spec [OF assms(1,2)] by (simp add: iter_checked_def from_kslice_unchecked_def items)
  show "collect (iter_mut_next sz tmp) [] (iter_mut_checked sz ks) m = collect (iter_next sz tmp) [] (iter_checked sz ks) m"
    by (simp add: iter_mut_next_def iter_next_def iter_mut_checked_def iter_checked_def from_kslice_mut_unchecked_def
        from_kslice_unchecked_def)
  show "if list_all (readable m) items
      then \<exists>m'. collect (iter_next sz tmp) [] (iter_checked sz ks) m = Some (Returned (map Inr items, m')) \<and> same_but tmp m m'
      else collect (iter_next sz tmp) [] (iter_checked sz ks) m = Some (Killed (sig_to_except SIGSEGV))"
    using collect_items [of sz "iter_checked sz ks" tmp m "[]"] collect_fault [of sz "iter_checked sz ks" tmp m "[]"] n assms
    by (simp add: iter_next_def del: sig_to_except.simps)
qed

text \<open>The comparison of bytes is a total order that agrees with equality.\<close>

theorem bytes_cmp_order:
  "bytes_cmp v u = Equal \<longleftrightarrow> bytes_eq v u"
  "bytes_cmp v u = Less \<longleftrightarrow> bytes_cmp u v = Greater"
  "bytes_cmp v u = Less \<Longrightarrow> bytes_cmp u w = Less \<Longrightarrow> bytes_cmp v w = Less"
proof -
  show eq: "bytes_cmp v u = Equal \<longleftrightarrow> bytes_eq v u" for v u
    by (induction v u rule: bytes_cmp.induct) (auto simp: bytes_eq_def)
  show "bytes_cmp v u = Less \<longleftrightarrow> bytes_cmp u v = Greater"
    by (induction v u rule: bytes_cmp.induct) auto
  show "bytes_cmp v u = Less \<Longrightarrow> bytes_cmp u w = Less \<Longrightarrow> bytes_cmp v w = Less"
    by (induction v u arbitrary: w rule: bytes_cmp.induct) (case_tac w; auto split: if_splits)+
qed

text \<open>
  What both iterators say of themselves is true: the length, the hint and the count are the number of elements left,
  emptiness is that there is none, a copy is the same iterator, and skipping takes that many elements from the front
  or, when there are fewer, none and reports how many are missing.
\<close>

theorem typed_iter_sizes:
  assumes "slice_wf sz it"
  shows "iter_len sz it = of_nat (length (slice_items sz it))" "iter_mut_len sz it = iter_len sz it"
    "iter_size_hint sz it = (iter_len sz it, Some (iter_len sz it))" "iter_mut_size_hint sz it = iter_size_hint sz it"
    "iter_elem_count sz it = iter_len sz it" "iter_mut_elem_count sz it = iter_len sz it"
    "iter_is_empty it \<longleftrightarrow> slice_items sz it = []" "iter_mut_is_empty it \<longleftrightarrow> iter_is_empty it" "iter_clone it = it"
    "fst (iter_advance_by sz it n) = (if n \<le> iter_len sz it then Inr () else Inl (n - iter_len sz it))"
    "iter_mut_advance_by sz it n = iter_advance_by sz it n"
  using assms slice_len_items [OF assms] slice_wf_end [OF assms]
  by (auto simp: typed_iter_defs slice_is_empty_def slice_wf_def unat_eq_zero)

text \<open>The range of a slice is where its iterator starts and ends.\<close>

theorem ptr_range_of_iter:
  "as_ptr_range sz ks = (it_pos (iter_checked sz ks), it_end (iter_checked sz ks))"
  "as_ptr_range_mut sz ks = (it_pos (iter_mut_checked sz ks), it_end (iter_mut_checked sz ks))"
  by (simp_all add: as_ptr_range_def as_ptr_range_mut_def iter_checked_def iter_mut_checked_def from_kslice_unchecked_def
      from_kslice_mut_unchecked_def slice_new_unchecked_def)

end
