(* ===== verification/WL_Start.thy ===== *)
theory WL_Start
  imports WL_Dispatch WL_Runtime
begin

text \<open>
  The last part of the start: \<open>load_subsystem\<close> and \<open>load_and_init_subsystem\<close> (\<open>wl-ld-lilium/src/ldso.rs\<close>) and the end of
  \<open>__rust_entry\<close> (\<open>wl-ld-lilium/src/entry.rs\<close>), which loads the subsystems, sets up the process between loading and
  initialising the first, and loads the program. The dynamic linker is \<open>ld_so_impl\<close>, a parameter: what loading a
  descriptor gives and does to thread-local storage, and the function a library has under the name of the initialiser.
\<close>

section \<open>Loading and initialising\<close>

text \<open>\<open>DynEntry\<close> is a type of \<open>ld_so_impl\<close>; the code uses its base address.\<close>

record linker =
  link_load :: "SearchType \<Rightarrow> u32 \<Rightarrow> tls_state \<Rightarrow> u64 \<times> tls_state"
  link_init :: "u64 \<Rightarrow> syscall_fn registry \<Rightarrow> syscall_fn registry run"

record 'h startup =
  st_registry :: "syscall_fn registry"
  st_runtime :: "'h runtime"
  st_tls :: tls_state
  st_closed :: "u32 list"

text \<open>A library that is not found and a failing update of thread-local storage end the process.\<close>

definition load_subsystem ::
  "linker \<Rightarrow> nat \<Rightarrow> host \<Rightarrow> elf_host \<Rightarrow> (u64 \<Rightarrow> usize \<Rightarrow> bool) \<Rightarrow> u64 \<Rightarrow> bytes \<Rightarrow> 'h startup \<Rightarrow> (u64 \<times> 'h startup) stage" where
  "load_subsystem L n h E mprotect fs name s =
     stage_bind (subsystem_handle n h E name) (\<lambda>fd.
       let (ent, tls) = link_load L Host fd (st_tls s) in
       stage_bind (stage_crash (update_tls mprotect fs tls)) (\<lambda>tls.
         Some (Ret (Inr (ent, s\<lparr> st_tls := tls, st_closed := st_closed s @ [fd] \<rparr>)))))"

definition call_init :: "linker \<Rightarrow> u64 \<Rightarrow> 'h startup \<Rightarrow> 'h startup stage" where
  "call_init L ent s =
     stage_bind (stage_run (link_init L ent (st_registry s))) (\<lambda>r. Some (Ret (Inr (s\<lparr> st_registry := r \<rparr>))))"

definition load_and_init_subsystem ::
  "linker \<Rightarrow> nat \<Rightarrow> host \<Rightarrow> elf_host \<Rightarrow> (u64 \<Rightarrow> usize \<Rightarrow> bool) \<Rightarrow> u64 \<Rightarrow> bytes \<Rightarrow> 'h startup \<Rightarrow> 'h startup stage" where
  "load_and_init_subsystem L n h E mprotect fs name s =
     stage_bind (load_subsystem L n h E mprotect fs name s) (\<lambda>(ent, s). call_init L ent s)"

text \<open>The same for other libraries, under the name they give (\<open>wl-ld-lilium/src/iface.rs\<close>).\<close>

definition rtld_load_subsystem_by_name ::
  "linker \<Rightarrow> nat \<Rightarrow> host \<Rightarrow> elf_host \<Rightarrow> (u64 \<Rightarrow> usize \<Rightarrow> bool) \<Rightarrow> u64 \<Rightarrow> bytes \<Rightarrow> 'h startup \<Rightarrow> 'h startup stage" where
  "rtld_load_subsystem_by_name L n h E mprotect fs p s = load_and_init_subsystem L n h E mprotect fs p s"

fun load_and_init_all ::
  "linker \<Rightarrow> nat \<Rightarrow> host \<Rightarrow> elf_host \<Rightarrow> (u64 \<Rightarrow> usize \<Rightarrow> bool) \<Rightarrow> u64 \<Rightarrow> string list \<Rightarrow> 'h startup \<Rightarrow> 'h startup stage" where
  "load_and_init_all L n h E mprotect fs [] s = Some (Ret (Inr s))"
| "load_and_init_all L n h E mprotect fs (name # names) s =
     stage_bind (load_and_init_subsystem L n h E mprotect fs (lit name) s) (load_and_init_all L n h E mprotect fs names)"

definition run_setup ::
  "'h siphash \<Rightarrow> (nat \<Rightarrow> bool) \<Rightarrow> (u64 \<Rightarrow> usize \<Rightarrow> u64) \<Rightarrow> u64 \<Rightarrow> bytes \<Rightarrow> 'h startup \<Rightarrow> 'h startup stage" where
  "run_setup H accepts prctl native rand_bytes s =
     stage_bind (map_option (\<lambda>r. run_bind r (\<lambda>x. Ret (Inr x)))
         (setup_process H accepts prctl native NATIVE_REGION_SIZE Prctl rand_bytes (st_runtime s)))
       (\<lambda>x. Some (Ret (Inr (s\<lparr> st_runtime := x \<rparr>))))"

text \<open>\<open>g\<close> is the loader's generator and \<open>plan\<close> the layout of the address space.\<close>

definition start_subsystems ::
  "linker \<Rightarrow> 'h siphash \<Rightarrow> (nat \<Rightarrow> bool) \<Rightarrow> (u64 \<Rightarrow> usize \<Rightarrow> u64) \<Rightarrow> nat \<Rightarrow> host \<Rightarrow> elf_host \<Rightarrow> (u64 \<Rightarrow> usize \<Rightarrow> bool) \<Rightarrow> u64 \<Rightarrow>
   address_plan \<Rightarrow> 'h \<Rightarrow> 'h startup \<Rightarrow> ('h \<times> 'h startup) stage" where
  "start_subsystems L H accepts prctl n h E mprotect fs plan g s =
     stage_bind (load_subsystem L n h E mprotect fs (lit ''base'') s) (\<lambda>(base, s).
       let (rand_bytes, g) = draw_keys H g in
       stage_bind (run_setup H accepts prctl (native_region plan) rand_bytes s) (\<lambda>s.
       stage_bind (call_init L base s) (\<lambda>s.
       stage_bind (load_and_init_all L n h E mprotect fs [''thread'', ''io'', ''process'', ''debug'', ''kmgmt''] s) (\<lambda>s.
         Some (Ret (Inr (g, s)))))))"

text \<open>
  Loading the program: its header is read again for the entry point. \<open>pread\<close> is the kernel's, \<open>hdr_len\<close> the size of the
  header and \<open>e_entry\<close> its field.
\<close>

definition load_program ::
  "linker \<Rightarrow> pread64 \<Rightarrow> nat \<Rightarrow> (bytes \<Rightarrow> u64) \<Rightarrow> (u64 \<Rightarrow> usize \<Rightarrow> bool) \<Rightarrow> u64 \<Rightarrow> u32 \<Rightarrow> 'h startup \<Rightarrow> (u64 \<times> 'h startup) stage" where
  "load_program L pread hdr_len e_entry mprotect fs exec_fd s =
     (let (base, tls) = link_load L Winter exec_fd (st_tls s) in
      stage_bind (map_option (\<lambda>r. run_bind r (\<lambda>(e, hdr). case e of Inl e \<Rightarrow> Panic | Inr u \<Rightarrow> Ret (Inr hdr)))
          (pread_exact pread 0 (replicate hdr_len 0))) (\<lambda>hdr.
      stage_bind (stage_crash (update_tls mprotect fs tls)) (\<lambda>tls.
        Some (Ret (Inr (base + e_entry hdr, s\<lparr> st_tls := tls, st_closed := st_closed s @ [exec_fd] \<rparr>))))))"

section \<open>Lemmas\<close>

text \<open>The initialiser of each default library, as the libraries define them.\<close>

definition initialiser :: "nat \<Rightarrow> nat \<Rightarrow> string \<Rightarrow> syscall_fn registry \<Rightarrow> syscall_fn registry run" where
  "initialiser sys_ue sys_gsi name =
     (if name = ''base'' then init_subsystem 0 (base_syscalls sys_ue sys_gsi) base_info
      else if name = ''thread'' then init_subsystem 1 thread_syscalls thread_info
      else if name = ''io'' then init_subsystem 2 io_syscalls io_info
      else if name = ''process'' then init_subsystem 3 process_syscalls process_info
      else if name = ''debug'' then init_subsystem 4 debug_syscalls debug_info
      else init_subsystem 5 kmgmt_syscalls kmgmt_info)"

definition default_names :: "string list" where
  "default_names = [''base'', ''thread'', ''io'', ''process'', ''debug'', ''kmgmt'']"

lemma boot_initialisers: "boot_subsystems sys_ue sys_gsi = fold_run (initialiser sys_ue sys_gsi) default_names registry_init"
  by (simp add: boot_subsystems_def default_names_def initialiser_def fold_run_fun)

text \<open>
  What the linker has to do with the libraries found: the function it finds under the name of the initialiser
  is the one of the library that was loaded.
\<close>

definition links :: "linker \<Rightarrow> nat \<Rightarrow> nat \<Rightarrow> (string \<Rightarrow> u32) \<Rightarrow> string \<Rightarrow> bool" where
  "links L sys_ue sys_gsi fd_of name \<longleftrightarrow>
     (\<forall>tls. link_init L (fst (link_load L Host (fd_of name) tls)) = initialiser sys_ue sys_gsi name)"

lemma update_tls_total: "\<exists>st'. update_tls (\<lambda>_ _. True) fs st = Some st'"
  by (auto simp: update_tls_def update_static_def update_dynamic_def Let_def)

lemma load_found:
  assumes "subsystem_handle n h E (lit name) = Some (Ret (Inr (fd_of name)))"
  shows "\<exists>ent tls. ent = fst (link_load L Host (fd_of name) (st_tls s)) \<and>
    load_subsystem L n h E (\<lambda>_ _. True) fs (lit name) s =
      Some (Ret (Inr (ent, s\<lparr> st_tls := tls, st_closed := st_closed s @ [fd_of name] \<rparr>)))"
proof -
  obtain ent tls where e: "link_load L Host (fd_of name) (st_tls s) = (ent, tls)" by fastforce
  obtain tls' where "update_tls (\<lambda>_ _. True) fs tls = Some tls'" using update_tls_total by blast
  then show ?thesis using e by (intro exI [of _ ent] exI [of _ tls']) (simp add: load_subsystem_def assms stage_simps)
qed

lemma call_init_links:
  assumes "links L sys_ue sys_gsi fd_of name" "ent = fst (link_load L Host (fd_of name) tls)"
    and "initialiser sys_ue sys_gsi name (st_registry s) = Ret r"
  shows "call_init L ent s = Some (Ret (Inr (s\<lparr> st_registry := r \<rparr>)))"
  using assms by (simp add: call_init_def links_def stage_simps)

lemma fold_run_ConsD: "fold_run f (x # xs) s = Ret r \<Longrightarrow> \<exists>r0. f x s = Ret r0 \<and> fold_run f xs r0 = Ret r"
  by (auto simp: run_simps)

lemma run_setup_granted:
  assumes "0 \<le> sint (prctl native NATIVE_REGION_SIZE)" "st_runtime s = runtime_init"
  shows "\<exists>x. run_setup H accepts prctl native rand s = Some (Ret (Inr (s\<lparr> st_runtime := x \<rparr>))) \<and>
    dispatch_region x = Some (native, NATIVE_REGION_SIZE) \<and> seeded H (gen_seed H rand) [] x"
proof -
  obtain x where x: "setup_process H accepts prctl native NATIVE_REGION_SIZE Prctl rand runtime_init = Some (Ret x)"
    "dispatch_region x = Some (native, NATIVE_REGION_SIZE)"
    using assms(1)
    by (auto simp: setup_process_def set_seed_def install_sa_handler_def runtime_init_def once_set_new filter_calls_def)
  then show ?thesis using seeded_setup [OF x(1)] by (auto simp: run_setup_def assms(2) stage_simps)
qed

lemma load_all_found:
  assumes "list_all (\<lambda>name. subsystem_handle n h E (lit name) = Some (Ret (Inr (fd_of name)))) names"
    and "list_all (links L sys_ue sys_gsi fd_of) names"
    and "fold_run (initialiser sys_ue sys_gsi) names (st_registry s) = Ret r"
  shows "\<exists>tls. load_and_init_all L n h E (\<lambda>_ _. True) fs names s =
    Some (Ret (Inr (s\<lparr> st_registry := r, st_tls := tls, st_closed := st_closed s @ map fd_of names \<rparr>)))"
  using assms
proof (induction names arbitrary: s)
  case Nil
  then show ?case by (intro exI [of _ "st_tls s"]) simp
next
  case (Cons name names)
  obtain r1 where r1: "initialiser sys_ue sys_gsi name (st_registry s) = Ret r1"
    "fold_run (initialiser sys_ue sys_gsi) names r1 = Ret r"
    using Cons.prems(3) by (auto simp: run_simps)
  obtain tls where l: "load_subsystem L n h E (\<lambda>_ _. True) fs (lit name) s =
      Some (Ret (Inr (fst (link_load L Host (fd_of name) (st_tls s)),
        s\<lparr> st_tls := tls, st_closed := st_closed s @ [fd_of name] \<rparr>)))"
    using load_found [of n h E name fd_of L s fs] Cons.prems(1) by auto
  let ?s = "s\<lparr> st_registry := r1, st_tls := tls, st_closed := st_closed s @ [fd_of name] \<rparr>"
  have "load_and_init_subsystem L n h E (\<lambda>_ _. True) fs (lit name) s = Some (Ret (Inr ?s))"
    using call_init_links [OF _ refl, of L sys_ue sys_gsi fd_of name "s\<lparr> st_tls := tls, st_closed := st_closed s @ [fd_of name] \<rparr>" r1]
      Cons.prems(2) r1(1)
    by (simp add: load_and_init_subsystem_def l stage_simps)
  then show ?case using Cons.IH [of ?s] Cons.prems r1(2) by (auto simp: stage_simps)
qed

section \<open>Properties\<close>

text \<open>
  The start of the subsystems. When the six libraries are found, the linker finds in each its own
  initialiser, and the kernel grants the protections and the dispatch region, the start succeeds: the registry is
  the one the six initialisers make in their order, each library's descriptor is closed once, in the order of loading,
  system calls are let through in the native region only, and the process has the generator that is keyed by the next
  two numbers of the loader's.
\<close>

theorem start_subsystems_boots:
  assumes "list_all (\<lambda>name. subsystem_handle n h E (lit name) = Some (Ret (Inr (fd_of name)))) default_names"
    and "list_all (links L sys_ue sys_gsi fd_of) default_names"
    and "sys_ue < 4096" "sys_gsi < 4096" "sys_ue \<noteq> sys_gsi"
    and "0 \<le> sint (prctl (native_region plan) NATIVE_REGION_SIZE)"
    and "st_runtime s = runtime_init" "st_registry s = registry_init" "st_closed s = []"
  shows "\<exists>s'. start_subsystems L H accepts prctl n h E (\<lambda>_ _. True) fs plan g s = Some (Ret (Inr (gen_at H g 2, s'))) \<and>
      boot_subsystems sys_ue sys_gsi = Ret (st_registry s') \<and>
      st_closed s' = map fd_of default_names \<and>
      dispatch_region (st_runtime s') = Some (native_region plan, NATIVE_REGION_SIZE) \<and>
      seeded H (from_keys H (stream H g 0) (stream H g 1)) [] (st_runtime s')"
proof -
  let ?names = "[''thread'', ''io'', ''process'', ''debug'', ''kmgmt'']"
  have names: "default_names = ''base'' # ?names" by (simp add: default_names_def)
  obtain r where r: "boot_subsystems sys_ue sys_gsi = Ret r" using boot_slots [OF assms(3-5)] by metis
  then have "\<exists>r0. initialiser sys_ue sys_gsi ''base'' registry_init = Ret r0 \<and>
      fold_run (initialiser sys_ue sys_gsi) ?names r0 = Ret r"
    unfolding boot_initialisers names by (rule fold_run_ConsD)
  then obtain r0 where r0: "initialiser sys_ue sys_gsi ''base'' registry_init = Ret r0"
    "fold_run (initialiser sys_ue sys_gsi) ?names r0 = Ret r"
    by (elim exE conjE)
  obtain tls where base: "load_subsystem L n h E (\<lambda>_ _. True) fs (lit ''base'') s =
      Some (Ret (Inr (fst (link_load L Host (fd_of ''base'') (st_tls s)), s\<lparr> st_tls := tls, st_closed := [fd_of ''base''] \<rparr>)))"
    using load_found [of n h E "''base''" fd_of L s fs] assms(1,9) by (auto simp: names)
  have keys: "draw_keys H g = (to_ne_bytes (stream H g 0) @ to_ne_bytes (stream H g 1), gen_at H g 2)"
    using draw_keys_at [of H g 0] by (simp add: numeral_2_eq_2)
  let ?s1 = "s\<lparr> st_tls := tls, st_closed := [fd_of ''base''] \<rparr>"
  obtain x where x: "run_setup H accepts prctl (native_region plan) (to_ne_bytes (stream H g 0) @ to_ne_bytes (stream H g 1)) ?s1 =
      Some (Ret (Inr (?s1\<lparr> st_runtime := x \<rparr>)))"
    "dispatch_region x = Some (native_region plan, NATIVE_REGION_SIZE)"
    "seeded H (from_keys H (stream H g 0) (stream H g 1)) [] x"
    using run_setup_granted [where prctl = prctl and s = ?s1 and H = H and accepts = accepts and
        rand = "to_ne_bytes (stream H g 0) @ to_ne_bytes (stream H g 1)", OF assms(6)] assms(7)
    by (auto simp: gen_seed_words)
  let ?s2 = "?s1\<lparr> st_runtime := x \<rparr>"
  have init: "call_init L (fst (link_load L Host (fd_of ''base'') (st_tls s))) ?s2 = Some (Ret (Inr (?s2\<lparr> st_registry := r0 \<rparr>)))"
    using assms(2,8) r0(1) by (intro call_init_links [OF _ refl, of L sys_ue sys_gsi fd_of]) (simp_all add: names)
  obtain tls' where "load_and_init_all L n h E (\<lambda>_ _. True) fs ?names (?s2\<lparr> st_registry := r0 \<rparr>) =
      Some (Ret (Inr (?s2\<lparr> st_registry := r, st_tls := tls', st_closed := [fd_of ''base''] @ map fd_of ?names \<rparr>)))"
    using load_all_found [of n h E fd_of ?names L sys_ue sys_gsi "?s2\<lparr> st_registry := r0 \<rparr>" r fs] assms(1,2) r0(2)
    by (auto simp: names)
  then show ?thesis using base keys x init r
    by (simp add: start_subsystems_def stage_simps names)
qed

text \<open>A host that names the six libraries by variables; a file has the code of its name as descriptor.\<close>

definition start_files :: filesys where
  "start_files = \<lparr> AT_FDCWD = 100, fs_open = (\<lambda>p. Inr 3),
     fs_openat = (\<lambda>fd p. case p of [b] \<Rightarrow> Inr (ucast b) | _ \<Rightarrow> Inl ENOENT),
     fs_reads = (\<lambda>fd. []), fs_dents = (\<lambda>fd. []), fs_lseek = (\<lambda>fd p. Inr 0), fs_close = (\<lambda>fd. Inr ()) \<rparr>"

definition start_host :: host where
  "start_host = \<lparr> files = start_files,
     envs = Some [lit ''WL_SUBSYS_base=/b'', lit ''WL_SUBSYS_thread=/t'', lit ''WL_SUBSYS_io=/i'',
       lit ''WL_SUBSYS_process=/p'', lit ''WL_SUBSYS_debug=/d'', lit ''WL_SUBSYS_kmgmt=/k''],
     utf8 = (\<lambda>bs. True) \<rparr>"

definition start_fd :: "string \<Rightarrow> u32" where
  "start_fd name = ucast (hd (lit name))"

definition start_linker :: linker where
  "start_linker = \<lparr> link_load = (\<lambda>t fd tls. (ucast fd, tls)),
     link_init = (\<lambda>ent. initialiser 0x40 0x01
       (hd (filter (\<lambda>name. ucast (start_fd name) = ent) default_names @ [[]]))) \<rparr>"

definition start_tls :: tls_state where
  "start_tls = \<lparr> tls_off = 32, tls_mc = 0x1000, tcb_at = fresh_tcb, tls_mem = (\<lambda>a. 0) \<rparr>"

lemma start_found:
  "list_all (\<lambda>name. subsystem_handle 1 start_host demo_elf (lit name) = Some (Ret (Inr (start_fd name)))) default_names"
  by code_simp

lemma start_names:
  "list_all (\<lambda>x. hd (filter (\<lambda>name. ucast (start_fd name) = (ucast (start_fd x) :: u64)) default_names @ [[]]) = x) default_names"
  by code_simp

lemma start_links: "list_all (links start_linker 0x40 0x01 start_fd) default_names"
  using start_names by (simp add: links_def start_linker_def list_all_iff)

theorem start_subsystems_boots_witness:
  "\<exists>s'. start_subsystems start_linker sum_hash (\<lambda>_. True) (\<lambda>_ _. 0) 1 start_host demo_elf (\<lambda>_ _. True) 0x5000
      (plan_addresses 0x7000000000 0) 5
      \<lparr> st_registry = registry_init, st_runtime = runtime_init, st_tls = start_tls, st_closed = [] \<rparr> =
        Some (Ret (Inr (gen_at sum_hash 5 2, s'))) \<and>
    boot_subsystems 0x40 0x01 = Ret (st_registry s') \<and> st_closed s' = map start_fd default_names"
  using start_subsystems_boots [where prctl = "\<lambda>_ _. 0" and plan = "plan_addresses 0x7000000000 0" and H = sum_hash and
      s = "\<lparr> st_registry = registry_init, st_runtime = runtime_init, st_tls = start_tls, st_closed = [] \<rparr>" and
      accepts = "\<lambda>_. True" and fs = "0x5000" and g = 5, OF start_found start_links]
  by fastforce

text \<open>
  Loading the program gives the entry point of its header, relative to where it was loaded, and closes its
  descriptor; a header that cannot be read in full panics.
\<close>

theorem load_program_entry:
  assumes "pread_exact pread 0 (replicate hdr_len 0) = Some (Ret (r, hdr))"
  shows "case r of
      Inr u \<Rightarrow> \<exists>tls. load_program L pread hdr_len e_entry (\<lambda>_ _. True) fs fd s =
        Some (Ret (Inr (fst (link_load L Winter fd (st_tls s)) + e_entry hdr,
          s\<lparr> st_tls := tls, st_closed := st_closed s @ [fd] \<rparr>)))
    | Inl e \<Rightarrow> load_program L pread hdr_len e_entry mprotect fs fd s = Some Panic"
proof -
  obtain base tls where b: "link_load L Winter fd (st_tls s) = (base, tls)" by fastforce
  obtain tls' where "update_tls (\<lambda>_ _. True) fs tls = Some tls'" using update_tls_total by blast
  then show ?thesis
    using b by (cases r) (auto simp: load_program_def assms stage_simps intro!: exI [of _ tls'])
qed

text \<open>A library that is not found ends the process; when it is the first, nothing has been set up.\<close>

theorem start_without_base:
  "subsystem_handle n h E (lit ''base'') = Some (Ret (Inl ())) \<Longrightarrow>
   start_subsystems L H accepts prctl n h E mprotect fs plan g s = Some (Ret (Inl ()))"
  by (simp add: start_subsystems_def load_subsystem_def stage_simps)

end
