(* ===== verification/WL_Calls.thy ===== *)
theory WL_Calls
  imports WL_Dispatch WL_Errors
begin

text \<open>
  The exported system calls as the dispatcher sees them (\<open>wl-impl/src/syscall_helpers.rs\<close>): the types a parameter
  and a result may have, the wrapper \<open>export_syscall!\<close> puts around a body, the signatures of all calls the
  subsystems export, and how their arguments travel from the registers of the interrupted program
  (\<open>wl-impl/src/libc/libc_defs.rs\<close>, \<open>wl-impl/src/catch_signals.rs\<close>) to the body.
\<close>

section \<open>Types of parameters and results\<close>

text \<open>The types the traits are implemented for; \<open>Other\<close> is any other type. \<open>Option\<close> is admitted for function pointers only.\<close>

datatype rty =
    Usize | Isize | U32 | I32 | U64 | I64 | UnitT | NeverT
  | HandlePtr | PtrMut | PtrConst | UuidT | KCSlice | KSlice | KStrCPtr
  | MaybeValid rty | FnPtr "rty list" rty | OptionFn "rty list" rty | Other string

fun sysret_ty :: "rty \<Rightarrow> bool" where
  "sysret_ty Usize = True"
| "sysret_ty Isize = True"
| "sysret_ty U32 = True"
| "sysret_ty I32 = True"
| "sysret_ty U64 = True"
| "sysret_ty I64 = True"
| "sysret_ty UnitT = True"
| "sysret_ty NeverT = True"
| "sysret_ty _ = False"

text \<open>\<open>def_fn_tys!\<close> is used with up to six parameter types.\<close>

fun syscall_param :: "rty \<Rightarrow> bool" where
  "syscall_param (MaybeValid t) = syscall_param t"
| "syscall_param (FnPtr ps r) = (sysret_ty r \<and> length ps \<le> 6 \<and> (\<forall>p \<in> set ps. syscall_param p))"
| "syscall_param (OptionFn ps r) = (sysret_ty r \<and> length ps \<le> 6 \<and> (\<forall>p \<in> set ps. syscall_param p))"
| "syscall_param (Other _) = False"
| "syscall_param UnitT = False"
| "syscall_param NeverT = False"
| "syscall_param _ = True"

section \<open>The wrapper\<close>

text \<open>
  The body runs in a closure; its result is encoded by \<open>SyscallRet\<close>, which has three instances. A body of type
  \<open>!\<close> does not come back. The arguments are the words of each parameter.
\<close>

type_synonym call_args = "u64 list list"

datatype call_body =
    ResultUnit "call_args \<Rightarrow> (sys_error + unit) outcome"
  | ResultUsize "call_args \<Rightarrow> (sys_error + usize) outcome"
  | Never "call_args \<Rightarrow> exception_id option"

fun export_syscall :: "(sys_error \<Rightarrow> u64) \<Rightarrow> call_body \<Rightarrow> call_args \<Rightarrow> u64 outcome" where
  "export_syscall into_code (ResultUnit f) args = outcome_bind (f args) (\<lambda>r. Returned (into_sys_unit into_code r))"
| "export_syscall into_code (ResultUsize f) args = outcome_bind (f args) (\<lambda>r. Returned (into_sys_usize into_code r))"
| "export_syscall into_code (Never f) args = Killed (f args)"

section \<open>Signatures\<close>

datatype ret_ty = ResultOfUnit | ResultOfUsize | NoReturn

type_synonym signature = "rty list \<times> ret_ty"

definition sig_GetSystemInfo :: signature where "sig_GetSystemInfo = ([KSlice], ResultOfUnit)"
definition sig_UnmanagedException :: signature where "sig_UnmanagedException = ([PtrConst], NoReturn)"
definition sig_ExceptHandleSynchronous :: signature where "sig_ExceptHandleSynchronous = ([PtrConst, PtrConst], ResultOfUnit)"
definition sig_AwaitAddress :: signature where "sig_AwaitAddress = ([PtrMut, PtrMut, Usize, KCSlice], ResultOfUnit)"
definition sig_NotifyAddress :: signature where "sig_NotifyAddress = ([PtrMut, Usize, Usize, KCSlice], ResultOfUsize)"
definition sig_ExitThread :: signature where "sig_ExitThread = ([I32], NoReturn)"
definition sig_OpenDevice :: signature where "sig_OpenDevice = ([PtrMut, UuidT], ResultOfUnit)"
definition sig_IOWrite :: signature where "sig_IOWrite = ([HandlePtr, PtrConst, Usize], ResultOfUsize)"
definition sig_IORead :: signature where "sig_IORead = ([HandlePtr, PtrMut, Usize], ResultOfUsize)"
definition sig_OpenFile :: signature where "sig_OpenFile = ([PtrMut, HandlePtr, KStrCPtr, PtrConst], ResultOfUnit)"
definition sig_CreateMapping :: signature where "sig_CreateMapping = ([PtrMut, Isize, U32, U32, PtrConst], ResultOfUnit)"
definition sig_RemoveMapping :: signature where "sig_RemoveMapping = ([PtrMut, Isize], ResultOfUnit)"
definition sig_ResizeMapping :: signature where "sig_ResizeMapping = ([PtrMut, Isize, PtrMut, Isize], ResultOfUnit)"
definition sig_ChangeMappingAttributes :: signature where "sig_ChangeMappingAttributes = ([PtrMut, Isize, U32, PtrConst], ResultOfUnit)"
definition sig_CreateProcess :: signature where "sig_CreateProcess = ([PtrMut, HandlePtr, PtrConst, PtrConst], ResultOfUnit)"
definition sig_JoinProcess :: signature where "sig_JoinProcess = ([HandlePtr, PtrMut], ResultOfUnit)"
definition sig_ExitProcess :: signature where "sig_ExitProcess = ([I32], NoReturn)"

definition exported :: "(string \<times> signature) list" where
  "exported =
     [(''GetSystemInfo'', sig_GetSystemInfo),
      (''UnmanagedException'', sig_UnmanagedException),
      (''ExceptHandleSynchronous'', sig_ExceptHandleSynchronous),
      (''AwaitAddress'', sig_AwaitAddress),
      (''NotifyAddress'', sig_NotifyAddress),
      (''ExitThread'', sig_ExitThread),
      (''OpenDevice'', sig_OpenDevice),
      (''IOWrite'', sig_IOWrite),
      (''IORead'', sig_IORead),
      (''OpenFile'', sig_OpenFile),
      (''CreateMapping'', sig_CreateMapping),
      (''RemoveMapping'', sig_RemoveMapping),
      (''ResizeMapping'', sig_ResizeMapping),
      (''ChangeMappingAttributes'', sig_ChangeMappingAttributes),
      (''CreateProcess'', sig_CreateProcess),
      (''JoinProcess'', sig_JoinProcess),
      (''ExitProcess'', sig_ExitProcess)]"

lemmas sig_defs =
  sig_GetSystemInfo_def sig_UnmanagedException_def sig_ExceptHandleSynchronous_def sig_AwaitAddress_def
  sig_NotifyAddress_def sig_ExitThread_def sig_OpenDevice_def sig_IOWrite_def
  sig_IORead_def sig_OpenFile_def sig_CreateMapping_def sig_RemoveMapping_def
  sig_ResizeMapping_def sig_ChangeMappingAttributes_def sig_CreateProcess_def sig_JoinProcess_def
  sig_ExitProcess_def

text \<open>The instance of \<open>SyscallRet\<close> a body uses is the one of its declared type.\<close>

fun body_ret :: "call_body \<Rightarrow> ret_ty" where
  "body_ret (ResultUnit f) = ResultOfUnit"
| "body_ret (ResultUsize f) = ResultOfUsize"
| "body_ret (Never f) = NoReturn"

section \<open>Registers\<close>

text \<open>
  The numbers of the registers in the saved context. \<open>mcontext_offsets\<close> are the byte offsets of the fields of
  \<open>mcontext_t\<close>, with the size of the whole at the end.
\<close>

definition regno :: "(string \<times> nat) list" where
  "regno =
     [(''R8'', 0), (''R9'', 1), (''R10'', 2), (''R11'', 3), (''R12'', 4), (''R13'', 5), (''R14'', 6), (''R15'', 7),
      (''RDI'', 8), (''RSI'', 9), (''RBP'', 10), (''RBX'', 11), (''RDX'', 12), (''RAX'', 13), (''RCX'', 14),
      (''RSP'', 15), (''RIP'', 16), (''EFLAGS'', 17), (''CSGSFS'', 18)]"

definition mcontext_offsets :: "(string \<times> nat) list" where
  "mcontext_offsets =
     [(''gregs'', 0), (''fpregs'', 8 * NGREGS), (''__reserved'', 8 * NGREGS + 8), ('''', 8 * NGREGS + 8 + 8 * 8)]"

text \<open>
  The context around it. The sizes of \<open>stack_t\<close> and \<open>kernel_sigset_t\<close>, multiples of eight, are those of the crate \<open>linux_raw_sys\<close>.
\<close>

definition ucontext_offsets :: "nat \<Rightarrow> nat \<Rightarrow> (string \<times> nat) list" where
  "ucontext_offsets stack_size sigset_size =
     (let mcontext = 16 + stack_size;
          sigmask = mcontext + (8 * NGREGS + 8 + 8 * 8);
          fpregs_mem = sigmask + sigset_size;
          ssp = fpregs_mem + 8 * 64
      in [(''uc_flags'', 0), (''uc_link'', 8), (''uc_stack'', 16), (''uc_mcontext'', mcontext), (''uc_sigmask'', sigmask),
          (''__fpregs_mem'', fpregs_mem), (''__ssp'', ssp), ('''', ssp + 8 * 4)])"

text \<open>
  The words a parameter takes in the \<open>sysv64\<close> convention. The sizes of the types of \<open>lilium_sys\<close> are parameters;
  scalars and pointers take one word.
\<close>

record abi_words =
  handle_words :: nat
  uuid_words :: nat
  slice_words :: nat
  str_words :: nat

fun words :: "abi_words \<Rightarrow> rty \<Rightarrow> nat" where
  "words Z HandlePtr = handle_words Z"
| "words Z UuidT = uuid_words Z"
| "words Z KCSlice = slice_words Z"
| "words Z KSlice = slice_words Z"
| "words Z KStrCPtr = str_words Z"
| "words Z (MaybeValid t) = words Z t"
| "words Z _ = 1"

text \<open>The callee reads its parameters from the argument registers, one after the other.\<close>

fun read_params :: "nat list \<Rightarrow> u64 list \<Rightarrow> call_args" where
  "read_params [] rs = []"
| "read_params (n # ns) rs = take n rs # read_params ns (drop n rs)"

text \<open>The program puts the words of its arguments into \<open>rdi\<close>, \<open>rsi\<close>, \<open>rdx\<close>, \<open>r10\<close>, \<open>r8\<close> and \<open>r9\<close>.\<close>

definition arg_regs :: "nat list" where
  "arg_regs = [REG_RDI, REG_RSI, REG_RDX, REG_R10, REG_R8, REG_R9]"

definition place_args :: "u64 list \<Rightarrow> u64 list \<Rightarrow> u64 list" where
  "place_args ws gregs = fold (\<lambda>(r, w) g. g[r := w]) (zip arg_regs ws) gregs"

section \<open>Lemmas\<close>

lemma read_params_concat: "read_params (map length args) (concat args @ rest') = args"
  by (induction args) simp_all

lemma regno_numbers: "map snd regno = [0..<NGREGS] \<and> distinct (map fst regno)"
  by code_simp

definition fits :: "abi_words \<Rightarrow> string \<times> signature \<Rightarrow> bool" where
  "fits Z = (\<lambda>(name, ps, ret). list_all syscall_param ps \<and> sum_list (map (words Z) ps) \<le> 6)"

lemma exported_fit:
  assumes "handle_words Z \<le> 1" "uuid_words Z \<le> 2" "slice_words Z \<le> 2" "str_words Z \<le> 2"
  shows "list_all (fits Z) exported"
  using assms
  by (simp add: exported_def fits_def sig_defs)

lemma length_6:
  assumes "length xs = 6"
  obtains a b c d e f where "xs = [a, b, c, d, e, f]"
proof -
  have "length xs = Suc (Suc (Suc (Suc (Suc (Suc 0)))))" using assms by simp
  then show ?thesis using that unfolding length_Suc_conv length_0_conv by blast
qed

lemma place_args_regs:
  assumes "length gregs = NGREGS" "length ws = 6"
  shows "map ((!) (place_args ws gregs)) arg_regs = ws" "place_args ws gregs ! REG_RAX = gregs ! REG_RAX"
    "length (place_args ws gregs) = NGREGS"
proof -
  obtain a b c d e f where "ws = [a, b, c, d, e, f]" by (rule length_6 [OF assms(2)])
  then show "map ((!) (place_args ws gregs)) arg_regs = ws" "place_args ws gregs ! REG_RAX = gregs ! REG_RAX"
    "length (place_args ws gregs) = NGREGS"
    using assms(1) by (simp_all add: place_args_def arg_regs_def reg_defs)
qed

section \<open>Properties\<close>

text \<open>
  C13. Every exported system call has parameters of admitted types only, and they fit the six argument registers, when
  a handle takes one word and slices, strings and identifiers two. So a call of the program arrives whole: if it
  puts the words of its arguments into the registers of the call convention and a number into \<open>rax\<close> that
  dispatches to the exported function, then the body receives exactly these arguments, and when it comes back the
  program finds the result the wrapper encodes in \<open>rax\<close> and its other registers unchanged.
\<close>

theorem exported_calls_arrive:
  assumes "handle_words Z \<le> 1" "uuid_words Z \<le> 2" "slice_words Z \<le> 2" "str_words Z \<le> 2"
    and "(name, ps, body_ret b) \<in> set exported" "map length args = map (words Z) ps"
    and "length gregs = NGREGS" "handle_syscall r (gregs ! REG_RAX) = Jump f"
    and "ctx = place_args (take 6 (concat args @ replicate 6 w)) gregs"
    and "\<And>rs v. export_syscall into_code b (read_params (map (words Z) ps) rs) = Returned v \<Longrightarrow> run f rs = v"
    and "export_syscall into_code b args = Returned v"
  shows "list_all syscall_param ps \<and> invoke_syscall_uctx run unsupported r ctx = ctx[REG_RAX := v]"
proof -
  have fit: "list_all syscall_param ps" "sum_list (map (words Z) ps) \<le> 6"
    using exported_fit [OF assms(1-4)] assms(5) by (auto simp: list_all_iff fits_def)
  let ?ws = "take 6 (concat args @ replicate 6 w)"
  have len: "length (concat args) \<le> 6"
    using fit(2) by (simp add: length_concat flip: assms(6))
  then have ws: "?ws = concat args @ replicate (6 - length (concat args)) w" "length ?ws = 6"
    by (simp_all add: min_def)
  note p = place_args_regs [OF assms(7) ws(2)]
  have "run f ?ws = v"
    using assms(10) [of ?ws v] assms(11) unfolding ws(1) by (simp add: read_params_concat flip: assms(6))
  moreover have "[ctx ! REG_RDI, ctx ! REG_RSI, ctx ! REG_RDX, ctx ! REG_R10, ctx ! REG_R8, ctx ! REG_R9] = ?ws"
    using p(1) by (simp add: assms(9) arg_regs_def)
  moreover have "handle_syscall r (ctx ! REG_RAX) = Jump f" using p(2) assms(8,9) by simp
  ultimately show ?thesis using fit(1) by (simp add: invoke_syscall_uctx_def Let_def)
qed

definition two_words :: abi_words where
  "two_words = \<lparr> handle_words = 1, uuid_words = 2, slice_words = 2, str_words = 2 \<rparr>"

definition write_registry :: "nat registry" where
  "write_registry = registry_init\<lparr> syscall_subsys_array := (syscall_subsys_array registry_init)[2 := Some ((replicate 4096 None)[5 := Some 77])] \<rparr>"

lemma write_jump: "handle_syscall write_registry 0x2005 = Jump 77"
  by code_simp

definition write_body :: call_body where
  "write_body = ResultUsize (\<lambda>args. Returned (Inr (args ! 2 ! 0)))"

theorem exported_calls_arrive_witness:
  "invoke_syscall_uctx (\<lambda>f rs. read_params [1, 1, 1] rs ! 2 ! 0) 0 write_registry
     (place_args (take 6 (concat [[3], [0x20], [4]] @ replicate 6 9)) ((replicate NGREGS 1)[REG_RAX := 0x2005])) !
     REG_RAX = 4"
proof -
  let ?g = "(replicate NGREGS 1)[REG_RAX := 0x2005]"
  have g: "length ?g = NGREGS" "handle_syscall write_registry (?g ! REG_RAX) = Jump 77"
    using write_jump by (simp_all add: reg_defs)
  let ?ctx = "place_args (take 6 (concat [[3], [0x20], [4]] @ replicate 6 9)) ?g"
  have "(''IOWrite'', [HandlePtr, PtrConst, Usize], ResultOfUsize) \<in> set exported"
    by (simp add: exported_def sig_defs)
  moreover have "length ?ctx = NGREGS" by (rule place_args_regs(3)) simp_all
  ultimately show ?thesis
    using exported_calls_arrive [where Z = two_words and ps = "[HandlePtr, PtrConst, Usize]"
        and name = "''IOWrite''" and args = "[[3], [0x20], [4]]" and b = write_body and v = 4
        and run = "\<lambda>f rs. read_params [1, 1, 1] rs ! 2 ! 0" and unsupported = 0 and w = 9, OF _ _ _ _ _ _ g refl]
    by (simp add: two_words_def NGREGS_def REG_RAX_def write_body_def)
qed

text \<open>
  The register numbers are the places of the context, each used once. The context is shorter than the one Linux
  saves, which has 23 general registers: with a stack of three words and a mask of one, the
  registers begin at byte 40, but the fields behind them are not where the kernel puts them.
\<close>

theorem register_numbers:
  "map snd regno = [0..<NGREGS] \<and> distinct (map fst regno)"
  "map_of mcontext_offsets ''fpregs'' = Some 152" "map_of mcontext_offsets '''' = Some 224"
  "map_of (ucontext_offsets 24 8) ''uc_mcontext'' = Some 40" "map_of (ucontext_offsets 24 8) ''uc_sigmask'' = Some 264"
  using regno_numbers by (simp_all add: mcontext_offsets_def ucontext_offsets_def NGREGS_def)

end
