(* ===== verification/WL_Main.thy ===== *)
theory WL_Main
  imports WL_Start WL_Handles
begin

text \<open>
  The whole of \<open>__rust_entry\<close> and \<open>__setup_auxv\<close> (\<open>wl-ld-lilium/src/entry.rs\<close>): from the stack the kernel starts the
  loader on to the stack the program is entered with, composed of the parts in \<open>WL_Entry\<close>, \<open>WL_Start\<close> and
  \<open>WL_Handles\<close> in the order of the code. Relocating the loader itself is done by \<open>ld_so_impl\<close>.
\<close>

section \<open>The surroundings\<close>

text \<open>
  What the entry takes from outside: the tags of the kernel, memory it reads (bytes at an address and C strings), the
  end of its image, the hash, the debug level built in and the texts that are one, the texts of its messages and the answers
  to printing them, the files, the answers to the memory calls, the linker, the calls of \<open>setup_process\<close>, the program's header, the guest's tags, and the addresses
  of the table of handles and of the two locals the program gets pointers to.
\<close>

record 'h machine =
  mc_aux :: aux_abi
  mc_mem :: "u64 \<Rightarrow> nat \<Rightarrow> bytes"
  mc_str :: "u64 \<Rightarrow> bytes"
  mc_vaddr_end :: u64
  mc_hash :: "'h siphash"
  mc_debug :: "bytes option"
  mc_texts :: ld_texts
  mc_prints :: "nat \<Rightarrow> u32 \<Rightarrow> answers"
  mc_is_level :: "bytes \<Rightarrow> bool"
  mc_host :: host
  mc_elf :: elf_host
  mc_open_raw :: "u64 \<Rightarrow> u32"
  mc_mmap :: "nat \<Rightarrow> u64 \<Rightarrow> usize \<Rightarrow> errno + u64"
  mc_mprotect :: "u64 \<Rightarrow> usize \<Rightarrow> bool"
  mc_accepts :: "nat \<Rightarrow> bool"
  mc_prctl :: "u64 \<Rightarrow> usize \<Rightarrow> u64"
  mc_linker :: linker
  mc_pread :: "u32 \<Rightarrow> pread64"
  mc_hdr_len :: nat
  mc_e_entry :: "bytes \<Rightarrow> u64"
  mc_lilium :: lilium_abi
  mc_hty_io :: usize
  mc_handles_base :: u64
  mc_random_addr :: u64
  mc_handles_addr :: u64
  mc_ret_addr :: u64

section \<open>The loader's own stack\<close>

text \<open>
  \<open>_start\<close> maps a stack of its own above the one it was started on, \<open>rsp\<close>, and continues at its end. \<open>mmap\<close> is the raw
  answer of the kernel, which is not looked at. The result is the argument \<open>stack_addr\<close> with the new \<open>rsp\<close>.
\<close>

definition STACK_DISPLACEMENT :: usize where
  "STACK_DISPLACEMENT = 4096 * 8"

definition STACK_SIZE :: usize where
  "STACK_SIZE = 4096 * 128"

definition stack_hint :: "u64 \<Rightarrow> u64" where
  "stack_hint rsp = ((rsp + 0xFFFF) AND 0xFFFFFFFFFFFF0000) + STACK_DISPLACEMENT"

definition setup_stack :: "(u64 \<Rightarrow> usize \<Rightarrow> u64) \<Rightarrow> u64 \<Rightarrow> u64 \<times> u64" where
  "setup_stack mmap rsp = (let rax = mmap (stack_hint rsp) STACK_SIZE in (rax, rax + STACK_SIZE))"

section \<open>The auxiliary vector and the environment\<close>

fun aux_ents :: "u64 list \<Rightarrow> aux_ent list" where
  "aux_ents (t # v # ws) = \<lparr> at_tag = t, at_val = v \<rparr> # aux_ents ws"
| "aux_ents _ = []"

definition host_auxv :: "u64 list \<Rightarrow> aux_ent list option" where
  "host_auxv ws = as_slice (\<lambda>e. to_ne_bytes (at_tag e)) (aux_ents ws)"

text \<open>\<open>__environ\<close> points to the environment on the stack.\<close>

definition with_environ :: "'h machine \<Rightarrow> u64 list \<Rightarrow> host" where
  "with_environ M envp = (mc_host M)\<lparr> envs := Some (map (mc_str M) (takeWhile (\<lambda>w. w \<noteq> 0) envp)) \<rparr>"

definition read_random :: "'h machine \<Rightarrow> aux_info \<Rightarrow> bytes" where
  "read_random M i = (case at_random i of None \<Rightarrow> replicate 16 0 | Some a \<Rightarrow> mc_mem M a 16)"

definition debug_text :: "bytes option \<Rightarrow> host \<Rightarrow> bytes option" where
  "debug_text dflt h =
     (case get_env (envs h) (lit ''WL_LD_DEBUG'') of
        Some n \<Rightarrow> Some n
      | None \<Rightarrow> (case get_env (envs h) (lit ''LD_DEBUG'') of Some n \<Rightarrow> Some n | None \<Rightarrow> dflt))"

definition set_debug :: "'h machine \<Rightarrow> host \<Rightarrow> unit run" where
  "set_debug M h =
     (case debug_text (mc_debug M) h of None \<Rightarrow> Ret () | Some n \<Rightarrow> if mc_is_level M n then Ret () else Panic)"

section \<open>The entry\<close>

text \<open>
  The override of the program's name is written to the place \<open>argv\<close> points to, unless it is null. The words are
  those above the argument count; the write may go past the arguments.
\<close>

definition override_argv0 :: "u64 list \<Rightarrow> program \<Rightarrow> u64 list" where
  "override_argv0 words p =
     (case pr_argv0 p of
        None \<Rightarrow> words
      | Some k \<Rightarrow> if k < length words \<and> words ! k \<noteq> 0 then words[pr_argv p := words ! k] else words)"

record 'h entered =
  en_entry :: u64
  en_stack :: "u64 list"
  en_random :: "u64 \<times> u64"
  en_handles :: "u64 list"
  en_table :: handles
  en_state :: "'h startup"

datatype 'h entry_end = Status nat | Entered "'h entered"

definition setup_auxv_enter ::
  "'h machine \<Rightarrow> u64 \<Rightarrow> u64 list \<Rightarrow> u64 \<Rightarrow> u64 list \<Rightarrow> u64 \<Rightarrow> 'h \<Rightarrow> 'h startup \<Rightarrow> handles \<Rightarrow> 'h entry_end stage" where
  "setup_auxv_enter M entry argv argc envp envpc g s t =
     (let (r0, g) = gen_next (mc_hash M) g;
          (r1, g) = gen_next (mc_hash M) g in
      stage_bind (stage_run (get_init_handles (mc_hty_io M) (mc_handles_base M) (replicate 64 0) t)) (\<lambda>(hs, len, t).
        Some (Ret (Inr (Entered
          \<lparr> en_entry = entry,
            en_stack = enter_program (mc_lilium M) argc argv envp envpc (mc_random_addr M) (mc_handles_addr M) (of_nat len)
              (mc_ret_addr M),
            en_random = (r0, r1), en_handles = hs, en_table = t, en_state = s \<rparr>)))))"

definition run_program ::
  "'h machine \<Rightarrow> nat \<Rightarrow> start_args \<Rightarrow> address_plan \<Rightarrow> 'h \<Rightarrow> program \<Rightarrow> 'h startup \<Rightarrow> handles \<Rightarrow> 'h entry_end stage" where
  "run_program M n a plan g p s t =
     (let words = override_argv0 (sa_argv a) p;
          envp = drop (unat (sa_argc a) + 1) words;
          h = with_environ M envp in
      stage_bind (stage_crash (setup_tls (mc_mmap M) (mc_mprotect M) plan (st_tls s))) (\<lambda>(tp, tls).
      stage_bind (start_subsystems (mc_linker M) (mc_hash M) (mc_accepts M) (mc_prctl M) n h (mc_elf M) (mc_mprotect M) tp plan g
          (s\<lparr> st_tls := tls \<rparr>)) (\<lambda>(g, s).
      stage_bind (load_program (mc_linker M) (mc_pread M (pr_fd p)) (mc_hdr_len M) (mc_e_entry M) (mc_mprotect M) tp (pr_fd p) s)
        (\<lambda>(entry, s).
          setup_auxv_enter M entry (drop (pr_argv p) words) (of_nat (pr_argc p)) envp (env_count a) g s t))))"

definition start_choice :: "'h machine \<Rightarrow> start_args \<Rightarrow> aux_info \<Rightarrow> (nat + program) stage" where
  "start_choice M a i =
     (let h = with_environ M (sa_envp a) in
      stage_bind (stage_run (set_debug M h)) (\<lambda>_.
        choose_program (mc_texts M) (mc_prints M) (utf8 h) (mc_str M) (fs_openat (files h) (AT_FDCWD (files h))) (mc_open_raw M) i
          (map (mc_str M) (take (unat (sa_argc a)) (sa_argv a)))))"

text \<open>
  The entry itself. Naming the mapping of the loader's stack has no effect that is seen here; the calls of the two
  resolvers, which relocate the loader and set their options, are \<open>ld_so_impl\<close>'s.
\<close>

definition rust_entry :: "'h machine \<Rightarrow> nat \<Rightarrow> u64 list \<Rightarrow> 'h startup \<Rightarrow> handles \<Rightarrow> 'h entry_end stage" where
  "rust_entry M n stack s t =
     (let a = start stack in
      case host_auxv (sa_auxv a) of
        None \<Rightarrow> None
      | Some es \<Rightarrow>
          (case scan_auxv (mc_aux M) es no_aux of
             Inl status \<Rightarrow> Some (Ret (Inr (Status status)))
           | Inr i \<Rightarrow>
               let (slide, g) = gen_next (mc_hash M) (gen_seed (mc_hash M) (read_random M i));
                   plan = plan_addresses (mc_vaddr_end M) slide in
               stage_bind (start_choice M a i) (\<lambda>c.
                 case c of
                   Inl status \<Rightarrow> Some (Ret (Inr (Status status)))
                 | Inr p \<Rightarrow> run_program M n a plan g p s t)))"

section \<open>Lemmas\<close>

lemma is_zero_iff: "is_zero bs \<longleftrightarrow> set bs \<subseteq> {0}"
  by (induction bs) auto

lemma is_zero_to_ne_bytes: "is_zero (to_ne_bytes w) \<longleftrightarrow> w = 0"
proof
  assume "is_zero (to_ne_bytes w)"
  then have "to_ne_bytes w = replicate 8 0" by (intro replicate_eqI) (auto simp: is_zero_iff)
  moreover have "to_ne_bytes 0 = replicate 8 0" by code_simp
  ultimately show "w = 0" using from_to_ne_bytes [of w] from_to_ne_bytes [of 0] by simp
next
  have "is_zero (to_ne_bytes 0)" by code_simp
  then show "w = 0 \<Longrightarrow> is_zero (to_ne_bytes w)" by simp
qed

lemma host_auxv_words:
  "list_all (\<lambda>e. at_tag e \<noteq> 0) es \<Longrightarrow> host_auxv (aux_words es @ 0 # v # ws) = Some es"
  by (induction es) (simp_all add: host_auxv_def aux_words_def is_zero_to_ne_bytes)

lemma gen_at_add: "gen_at H (gen_at H g m) k = gen_at H g (m + k)"
  by (induction k) simp_all

lemma stream_at: "stream H (gen_at H g m) k = stream H g (m + k)"
  by (simp add: stream_def gen_at_add)

lemma start_kernel_stack:
  assumes "length args = unat argc" "0 \<notin> set env"
  shows "start (argc # args @ 0 # env @ 0 # aux) =
    \<lparr> sa_argc = argc, sa_argv = args @ 0 # env @ 0 # aux, sa_envp = env @ 0 # aux, sa_auxv = aux \<rparr>"
  using assms by (simp add: start_def Let_def find_auxv_append)

lemma with_environ_stack: "0 \<notin> set env \<Longrightarrow> with_environ M (env @ 0 # ws) = (mc_host M)\<lparr> envs := Some (map (mc_str M) env) \<rparr>"
  by (simp add: with_environ_def takeWhile_tail) (metis (mono_tags, lifting) takeWhile_eq_all_conv)

text \<open>Entering the program: its three handles are for the standard descriptors, the random words are the next two.\<close>

lemma setup_auxv_enters:
  assumes "base_ok (mc_handles_base M)" "mc_hty_io M \<noteq> 0" "handles_ok t" "card (dom (handle_map (mc_handles_base M) t)) + 3 \<le> NHANDLES"
  shows "\<exists>e i j k. setup_auxv_enter M entry argv argc envp envpc (gen_at (mc_hash M) g m) s t = Some (Ret (Inr (Entered e))) \<and>
    en_entry e = entry \<and> en_state e = s \<and> en_random e = (stream (mc_hash M) g m, stream (mc_hash M) g (Suc m)) \<and>
    en_stack e = call_entry_point argc argv envp envpc
      [LILIUM_AT_RANDOM (mc_lilium M), mc_random_addr M, AT_LILIUM_INIT_HANDLES (mc_lilium M), mc_handles_addr M,
       AT_LILIUM_INIT_HANDLES_LEN (mc_lilium M), 3] 3 (mc_ret_addr M) \<and>
    take 3 (en_handles e) = [i, j, k] \<and> distinct [i, j, k] \<and>
    handle_map (mc_handles_base M) (en_table e) = (handle_map (mc_handles_base M) t)
      (i \<mapsto> io_handle (mc_hty_io M) 0, j \<mapsto> io_handle (mc_hty_io M) 1, k \<mapsto> io_handle (mc_hty_io M) 2)"
proof -
  obtain i j k t' where h: "get_init_handles (mc_hty_io M) (mc_handles_base M) (replicate 64 0) t =
      Ret ([i, j, k] @ drop 3 (replicate 64 0), 3, t')" "distinct [i, j, k]"
    "handle_map (mc_handles_base M) t' = (handle_map (mc_handles_base M) t)
      (i \<mapsto> io_handle (mc_hty_io M) 0, j \<mapsto> io_handle (mc_hty_io M) 1, k \<mapsto> io_handle (mc_hty_io M) 2)"
    using init_handles [OF assms(1,3,2,4), of "replicate 64 0"] by auto
  show ?thesis
    using h(2,3)
    by (auto simp: setup_auxv_enter_def gen_next_at h(1) stage_simps enter_program_def setup_auxv_def aux_words_def
        simp del: gen_at.simps)
qed

text \<open>
  The surroundings in which the start succeeds: the six libraries are found and linked to their own initialisers, the
  kernel maps, protects and grants the dispatch region, and there is room for three handles.
\<close>

definition machine_ok :: "'h machine \<Rightarrow> nat \<Rightarrow> bytes list \<Rightarrow> nat \<Rightarrow> nat \<Rightarrow> (string \<Rightarrow> u32) \<Rightarrow> (nat \<Rightarrow> u64) \<Rightarrow> handles \<Rightarrow> bool" where
  "machine_ok M n env sys_ue sys_gsi fd_of blocks t \<longleftrightarrow>
     list_all (\<lambda>name. subsystem_handle n ((mc_host M)\<lparr> envs := Some env \<rparr>) (mc_elf M) (lit name) =
       Some (Ret (Inr (fd_of name)))) default_names \<and>
     list_all (links (mc_linker M) sys_ue sys_gsi fd_of) default_names \<and>
     sys_ue < 4096 \<and> sys_gsi < 4096 \<and> sys_ue \<noteq> sys_gsi \<and>
     mc_mmap M = (\<lambda>i hint n. Inr (blocks i)) \<and> mc_mprotect M = (\<lambda>_ _. True) \<and>
     (\<forall>p. 0 \<le> sint (mc_prctl M p NATIVE_REGION_SIZE)) \<and>
     base_ok (mc_handles_base M) \<and> mc_hty_io M \<noteq> 0 \<and> handles_ok t \<and>
     card (dom (handle_map (mc_handles_base M) t)) + 3 \<le> NHANDLES"

definition program_aux :: "'h machine \<Rightarrow> u64 list" where
  "program_aux M =
     [LILIUM_AT_RANDOM (mc_lilium M), mc_random_addr M, AT_LILIUM_INIT_HANDLES (mc_lilium M), mc_handles_addr M,
      AT_LILIUM_INIT_HANDLES_LEN (mc_lilium M), 3]"

text \<open>What the program finds: its handles, its random words and the state of the process.\<close>

definition entered_ok ::
  "'h machine \<Rightarrow> nat \<Rightarrow> nat \<Rightarrow> (string \<Rightarrow> u32) \<Rightarrow> 'h \<Rightarrow> address_plan \<Rightarrow> program \<Rightarrow> bytes \<Rightarrow> handles \<Rightarrow> 'h entered \<Rightarrow> bool" where
  "entered_ok M sys_ue sys_gsi fd_of g plan p hdr t e \<longleftrightarrow>
     boot_subsystems sys_ue sys_gsi = Ret (st_registry (en_state e)) \<and>
     st_closed (en_state e) = map fd_of default_names @ [pr_fd p] \<and>
     dispatch_region (st_runtime (en_state e)) = Some (native_region plan, NATIVE_REGION_SIZE) \<and>
     seeded (mc_hash M) (from_keys (mc_hash M) (stream (mc_hash M) g 1) (stream (mc_hash M) g 2)) [] (st_runtime (en_state e)) \<and>
     en_random e = (stream (mc_hash M) g 3, stream (mc_hash M) g 4) \<and>
     (\<exists>tls. en_entry e = fst (link_load (mc_linker M) Winter (pr_fd p) tls) + mc_e_entry M hdr) \<and>
     (\<exists>i j k. take 3 (en_handles e) = [i, j, k] \<and> distinct [i, j, k] \<and>
        handle_map (mc_handles_base M) (en_table e) = (handle_map (mc_handles_base M) t)
          (i \<mapsto> io_handle (mc_hty_io M) 0, j \<mapsto> io_handle (mc_hty_io M) 1, k \<mapsto> io_handle (mc_hty_io M) 2))"

lemma run_program_enters:
  assumes ok: "machine_ok M n (map (mc_str M) env) sys_ue sys_gsi fd_of blocks t"
    and a: "sa_argv a = args @ 0 # env @ 0 # ws" "length args = unat (sa_argc a)" "0 \<notin> set env"
    and s: "st_runtime s = runtime_init" "st_registry s = registry_init" "st_closed s = []"
    and p: "pr_argv0 p = None"
    and hdr: "pread_exact (mc_pread M (pr_fd p)) 0 (replicate (mc_hdr_len M) 0) = Some (Ret (Inr u, hdr))"
  shows "\<exists>e. run_program M n a plan (gen_at (mc_hash M) g 1) p s t = Some (Ret (Inr (Entered e))) \<and>
    entered_ok M sys_ue sys_gsi fd_of g plan p hdr t e \<and>
    en_stack e = call_entry_point (of_nat (pr_argc p)) (drop (pr_argv p) (sa_argv a)) (env @ 0 # ws) (env_count a)
      (program_aux M) 3 (mc_ret_addr M)"
proof -
  let ?h = "(mc_host M)\<lparr> envs := Some (map (mc_str M) env) \<rparr>" and ?H = "mc_hash M"
  have words: "override_argv0 (sa_argv a) p = sa_argv a" "drop (unat (sa_argc a) + 1) (sa_argv a) = env @ 0 # ws"
    using p a(2) by (simp_all add: override_argv0_def a(1))
  have num: "1 + 0 = (1 :: nat)" "1 + 1 = (2 :: nat)" "1 + 2 = (3 :: nat)" by simp_all
  obtain tp tls where tls: "setup_tls (mc_mmap M) (mc_mprotect M) plan (st_tls s) = Some (tp, tls)"
    using setup_tls_total [of blocks plan "st_tls s"] ok by (auto simp: machine_ok_def)
  obtain s1 where s1: "start_subsystems (mc_linker M) ?H (mc_accepts M) (mc_prctl M) n ?h (mc_elf M) (mc_mprotect M) tp
        plan (gen_at ?H g 1) (s\<lparr> st_tls := tls \<rparr>) = Some (Ret (Inr (gen_at ?H g 3, s1)))"
    "boot_subsystems sys_ue sys_gsi = Ret (st_registry s1)" "st_closed s1 = map fd_of default_names"
    "dispatch_region (st_runtime s1) = Some (native_region plan, NATIVE_REGION_SIZE)"
    "seeded ?H (from_keys ?H (stream ?H g 1) (stream ?H g 2)) [] (st_runtime s1)"
    using start_subsystems_boots [where fd_of = fd_of and n = n and h = ?h and E = "mc_elf M" and L = "mc_linker M" and
        sys_ue = sys_ue and sys_gsi = sys_gsi and prctl = "mc_prctl M" and plan = plan and s = "s\<lparr> st_tls := tls \<rparr>" and
        H = ?H and accepts = "mc_accepts M" and fs = tp and g = "gen_at ?H g 1"] ok s
    unfolding machine_ok_def gen_at_add stream_at num by (auto simp del: gen_at.simps One_nat_def)
  obtain tls' where l: "load_program (mc_linker M) (mc_pread M (pr_fd p)) (mc_hdr_len M) (mc_e_entry M) (mc_mprotect M) tp (pr_fd p) s1 =
      Some (Ret (Inr (fst (link_load (mc_linker M) Winter (pr_fd p) (st_tls s1)) + mc_e_entry M hdr,
        s1\<lparr> st_tls := tls', st_closed := st_closed s1 @ [pr_fd p] \<rparr>)))"
    using load_program_entry [where L = "mc_linker M" and e_entry = "mc_e_entry M" and fs = tp and fd = "pr_fd p" and s = s1 and
        mprotect = "mc_mprotect M", OF hdr] ok
    by (auto simp: machine_ok_def)
  let ?s2 = "s1\<lparr> st_tls := tls', st_closed := st_closed s1 @ [pr_fd p] \<rparr>"
  let ?entry = "fst (link_load (mc_linker M) Winter (pr_fd p) (st_tls s1)) + mc_e_entry M hdr"
  have hm: "base_ok (mc_handles_base M)" "mc_hty_io M \<noteq> 0" "handles_ok t" "card (dom (handle_map (mc_handles_base M) t)) + 3 \<le> NHANDLES"
    using ok by (simp_all add: machine_ok_def)
  note enters = setup_auxv_enters [OF hm, where entry = ?entry and argv = "drop (pr_argv p) (sa_argv a)" and
      argc = "of_nat (pr_argc p)" and envp = "env @ 0 # ws" and envpc = "env_count a" and g = g and m = 3 and s = ?s2]
  have "run_program M n a plan (gen_at ?H g 1) p s t =
      setup_auxv_enter M ?entry (drop (pr_argv p) (sa_argv a)) (of_nat (pr_argc p)) (env @ 0 # ws) (env_count a) (gen_at ?H g 3) ?s2 t"
    unfolding run_program_def words Let_def with_environ_stack [OF a(3)]
    by (simp add: tls s1(1) l stage_simps del: gen_at.simps One_nat_def)
  then show ?thesis using enters s1(2-5) by (fastforce simp: entered_ok_def program_aux_def)
qed

lemma rust_entry_ready:
  assumes ok: "machine_ok M n (map (mc_str M) env) sys_ue sys_gsi fd_of blocks t"
    and kernel: "length args = unat argc" "0 \<notin> set env" "length env < 2 ^ 63" "length args < 2 ^ 63"
    and aux: "list_all (\<lambda>e. at_tag e \<noteq> 0) es" "scan_auxv (mc_aux M) es no_aux = Inr i"
    and stack: "stack = argc # args @ 0 # env @ 0 # aux_words es @ 0 # v # ws"
    and choice: "start_choice M (start stack) i = Some (Ret (Inr (Inr p)))" "pr_argv0 p = None"
    and s: "st_runtime s = runtime_init" "st_registry s = registry_init" "st_closed s = []"
    and hdr: "pread_exact (mc_pread M (pr_fd p)) 0 (replicate (mc_hdr_len M) 0) = Some (Ret (Inr u, hdr))"
    and g: "g = gen_seed (mc_hash M) (read_random M i)" "plan = plan_addresses (mc_vaddr_end M) (stream (mc_hash M) g 0)"
  shows "\<exists>e. rust_entry M n stack s t = Some (Ret (Inr (Entered e))) \<and>
    entered_ok M sys_ue sys_gsi fd_of g plan p hdr t e \<and>
    unat (sa_argc (start (en_stack e))) = length (drop (pr_argv p) args) \<and>
    take (Suc (length (drop (pr_argv p) args))) (sa_argv (start (en_stack e))) = drop (pr_argv p) args @ [0] \<and>
    take (Suc (length env)) (sa_envp (start (en_stack e))) = env @ [0] \<and>
    take 9 (sa_auxv (start (en_stack e))) = 0 # program_aux M @ [0, 0]"
proof -
  let ?aux = "aux_words es @ 0 # v # ws" and ?H = "mc_hash M"
  note st = start_kernel_stack [OF kernel(1,2), of ?aux, folded stack]
  have count: "pr_argv p + pr_argc p = length args"
    using choice kernel(1)
    by (auto simp: start_choice_def st Let_def set_debug_def stage_simps split: option.splits if_splits dest!: choose_program_counts)
  have argc: "unat (of_nat (pr_argc p) :: u64) = pr_argc p" "pr_argc p = length (drop (pr_argv p) args)"
    using count kernel(4) by (simp_all add: unat_of_nat_64)
  obtain e where e: "run_program M n (start stack) plan (gen_at ?H g 1) p s t = Some (Ret (Inr (Entered e)))"
    "entered_ok M sys_ue sys_gsi fd_of g plan p hdr t e"
    "en_stack e = call_entry_point (of_nat (pr_argc p)) (drop (pr_argv p) (args @ 0 # env @ 0 # ?aux)) (env @ 0 # ?aux)
      (env_count (start stack)) (program_aux M) 3 (mc_ret_addr M)"
    using run_program_enters [OF ok, of "start stack" args ?aux s p u hdr plan g] kernel choice(2) s hdr by (auto simp: st)
  have gn: "gen_next ?H (gen_seed ?H (read_random M i)) = (stream ?H g 0, gen_at ?H g 1)"
    using gen_next_at [of ?H g 0] by (simp add: g)
  have sx: "sa_auxv (start stack) = ?aux" "sa_envp (start stack) = env @ 0 # ?aux" by (simp_all add: st)
  have "rust_entry M n stack s t = Some (Ret (Inr (Entered e)))"
    using e(1) by (simp add: rust_entry_def sx host_auxv_words [OF aux(1)] aux(2) gn choice(1) stage_simps flip: g(2) del: gen_at.simps)
  moreover have "length (program_aux M) = 6" by (simp add: program_aux_def)
  moreover note entry_stack_roundtrip [where argc = "of_nat (pr_argc p)" and argv = "drop (pr_argv p) (args @ 0 # env @ 0 # ?aux)" and
      auxv = "program_aux M" and numaux = 3 and ret_addr = "mc_ret_addr M" and s = "en_stack e",
      OF stack [symmetric, THEN arg_cong, of start] kernel(1-3)]
  ultimately show ?thesis
    using e(2,3) count kernel(4) argc by (auto simp: sx)
qed

section \<open>Properties\<close>

text \<open>
  C12. The whole entry. Started by the kernel with arguments, an environment and an auxiliary vector that is not
  in secure mode, with a program chosen without \<open>--argv0\<close> and surroundings in which nothing fails, the loader enters the
  program at its entry point. A start code finds the arguments from the program on, with their count, the same
  environment, and behind one extra null the auxiliary vector with the random words and the handles. The random
  words are the fourth and fifth numbers of the generator keyed by the kernel's random bytes, and the process is seeded with the
  second and third; the three handles stand for the standard descriptors; the registry is that of the six
  subsystems; the libraries and the program have been closed; calls are let through in the native region only.
\<close>

theorem rust_entry_enters:
  assumes ok: "machine_ok M n (map (mc_str M) env) sys_ue sys_gsi fd_of blocks t"
    and kernel: "length args = unat argc" "0 \<notin> set env" "length env < 2 ^ 63" "length args < 2 ^ 63"
    and aux: "list_all (\<lambda>e. at_tag e \<noteq> 0) es" "scan_auxv (mc_aux M) es no_aux = Inr i"
    and stack: "stack = argc # args @ 0 # env @ 0 # aux_words es @ 0 # v # ws"
    and choice: "start_choice M (start stack) i = Some (Ret (Inr (Inr p)))" "pr_argv0 p = None"
    and s: "st_runtime s = runtime_init" "st_registry s = registry_init" "st_closed s = []"
    and hdr: "pread_exact (mc_pread M (pr_fd p)) 0 (replicate (mc_hdr_len M) 0) = Some (Ret (Inr u, hdr))"
    and g: "g = gen_seed (mc_hash M) (read_random M i)" "plan = plan_addresses (mc_vaddr_end M) (stream (mc_hash M) g 0)"
  shows "\<exists>e. rust_entry M n stack s t = Some (Ret (Inr (Entered e))) \<and>
    entered_ok M sys_ue sys_gsi fd_of g plan p hdr t e \<and>
    unat (sa_argc (start (en_stack e))) = length (drop (pr_argv p) args) \<and>
    take (Suc (length (drop (pr_argv p) args))) (sa_argv (start (en_stack e))) = drop (pr_argv p) args @ [0] \<and>
    take (Suc (length env)) (sa_envp (start (en_stack e))) = env @ [0] \<and>
    take 9 (sa_auxv (start (en_stack e))) = 0 # program_aux M @ [0, 0]"
  by (rule rust_entry_ready [where sys_ue = sys_ue and sys_gsi = sys_gsi and fd_of = fd_of and blocks = blocks, OF assms])

text \<open>A machine with the files and libraries of the example above, and a program of one letter.\<close>

definition demo_env :: "bytes list" where
  "demo_env = the (envs start_host)"

definition demo_machine :: "u64 machine" where
  "demo_machine =
     \<lparr> mc_aux = \<lparr> AT_BASE = 7, AT_RANDOM = 25, AT_SECURE = 23, AT_EXECFD = 2, AT_EXECFN = 31 \<rparr>,
       mc_mem = (\<lambda>a k. replicate k 5),
       mc_str = (\<lambda>a. if a = 0x10 then lit ''ld'' else if a = 0x20 then lit ''x'' else demo_env ! (unat a - 1)),
       mc_vaddr_end = 0x7000000000, mc_hash = sum_hash, mc_debug = None, mc_texts = some_texts, mc_prints = (\<lambda>i fd. at_once []), mc_is_level = (\<lambda>n. False),
       mc_host = start_host\<lparr> envs := None \<rparr>, mc_elf = demo_elf, mc_open_raw = (\<lambda>a. 0),
       mc_mmap = (\<lambda>i hint n. Inr (if i = 0 then 0x40000000 else 0x80000000)), mc_mprotect = (\<lambda>a n. True),
       mc_accepts = (\<lambda>i. True), mc_prctl = (\<lambda>a n. 0), mc_linker = start_linker,
       mc_pread = (\<lambda>fd i off n. Data [9]), mc_hdr_len = 1, mc_e_entry = (\<lambda>hdr. ucast (hd hdr)),
       mc_lilium = \<lparr> LILIUM_AT_RANDOM = 25, AT_LILIUM_INIT_HANDLES = 64, AT_LILIUM_INIT_HANDLES_LEN = 65 \<rparr>,
       mc_hty_io = 3, mc_handles_base = 0x7000, mc_random_addr = 0x100, mc_handles_addr = 0x200, mc_ret_addr = 0 \<rparr>"

definition demo_aux :: "aux_ent list" where
  "demo_aux = [\<lparr> at_tag = 25, at_val = 0x300 \<rparr>, \<lparr> at_tag = 23, at_val = 0 \<rparr>]"

definition demo_stack :: "u64 list" where
  "demo_stack = 2 # [0x10, 0x20] @ 0 # [1, 2, 3, 4, 5, 6] @ 0 # aux_words demo_aux @ 0 # 0 # []"

definition demo_program :: program where
  "demo_program = \<lparr> pr_fd = ucast (hd (lit ''x'')), pr_argv = 1, pr_argc = 1, pr_argv0 = None \<rparr>"

lemma demo_strings: "map (mc_str demo_machine) [1, 2, 3, 4, 5, 6] = demo_env"
  by code_simp

lemma demo_host: "(mc_host demo_machine)\<lparr> envs := Some demo_env \<rparr> = start_host"
  by (simp add: demo_machine_def demo_env_def start_host_def)

lemma demo_choice:
  "start_choice demo_machine (start demo_stack) (no_aux\<lparr> at_random := Some 0x300 \<rparr>) = Some (Ret (Inr (Inr demo_program)))"
  by code_simp

lemma demo_ok: "machine_ok demo_machine 1 demo_env 0x40 0x01 start_fd (\<lambda>i. if i = 0 then 0x40000000 else 0x80000000) handles_init"
proof -
  have b: "base_ok 0x7000" by (simp add: base_ok_def)
  have m: "mc_elf demo_machine = demo_elf" "mc_linker demo_machine = start_linker" "mc_handles_base demo_machine = 0x7000"
    "mc_hty_io demo_machine = 3" "mc_prctl demo_machine = (\<lambda>a n. 0)" "mc_mprotect demo_machine = (\<lambda>a n. True)"
    "mc_mmap demo_machine = (\<lambda>i hint n. Inr (if i = 0 then 0x40000000 else 0x80000000))"
    by (simp_all add: demo_machine_def)
  show ?thesis
    using start_found start_links b handles_init_ok(1) handles_init_map [OF b]
    by (simp add: machine_ok_def demo_host m NHANDLES_def)
qed

definition demo_startup :: "u64 startup" where
  "demo_startup = \<lparr> st_registry = registry_init, st_runtime = runtime_init, st_tls = start_tls, st_closed = [] \<rparr>"

definition demo_info :: aux_info where
  "demo_info = no_aux\<lparr> at_random := Some 0x300 \<rparr>"

definition demo_gen :: u64 where
  "demo_gen = gen_seed (mc_hash demo_machine) (read_random demo_machine demo_info)"

definition demo_plan :: address_plan where
  "demo_plan = plan_addresses (mc_vaddr_end demo_machine) (stream (mc_hash demo_machine) demo_gen 0)"

lemma demo_facts:
  "pread_exact (mc_pread demo_machine (pr_fd demo_program)) 0 (replicate (mc_hdr_len demo_machine) 0) = Some (Ret (Inr (), [9]))"
  "list_all (\<lambda>e. at_tag e \<noteq> 0) demo_aux" "scan_auxv (mc_aux demo_machine) demo_aux no_aux = Inr demo_info"
  "pr_argv demo_program = 1" "pr_argv0 demo_program = None" "pr_fd demo_program = 0x78"
  "st_runtime demo_startup = runtime_init" "st_registry demo_startup = registry_init" "st_closed demo_startup = []"
proof -
  show "pread_exact (mc_pread demo_machine (pr_fd demo_program)) 0 (replicate (mc_hdr_len demo_machine) 0) = Some (Ret (Inr (), [9]))"
    by (simp add: demo_machine_def pread_exact_def pread_exact_loop.simps overwrite_def)
  show "list_all (\<lambda>e. at_tag e \<noteq> 0) demo_aux" "scan_auxv (mc_aux demo_machine) demo_aux no_aux = Inr demo_info"
    "pr_argv demo_program = 1" "pr_argv0 demo_program = None" "pr_fd demo_program = 0x78"
    by code_simp+
qed (simp_all add: demo_startup_def)

lemma demo_kernel:
  "length [0x10, 0x20 :: u64] = unat (2 :: u64)" "0 \<notin> set [1, 2, 3, 4, 5, 6 :: u64]" "length [1, 2, 3, 4, 5, 6 :: u64] < 2 ^ 63"
  "length [0x10, 0x20 :: u64] < 2 ^ 63"
  by simp_all

lemmas demo_start = demo_ok [folded demo_strings] demo_kernel demo_facts(2,3) demo_stack_def demo_choice [folded demo_info_def] demo_facts(5,7-9,1)
  demo_gen_def demo_plan_def

theorem rust_entry_enters_witness:
  "\<exists>e. rust_entry demo_machine 1 demo_stack demo_startup handles_init = Some (Ret (Inr (Entered e))) \<and>
    st_closed (en_state e) = map start_fd default_names @ [0x78] \<and> take 2 (sa_argv (start (en_stack e))) = [0x20, 0]"
  using rust_entry_enters [OF demo_start]
  by (auto simp: entered_ok_def demo_facts numeral_2_eq_2)

text \<open>The example as a state in which a program is entered.\<close>

lemma demo_entered:
  "\<exists>e. rust_entry demo_machine 1 demo_stack demo_startup handles_init = Some (Ret (Inr (Entered e))) \<and>
    entered_ok demo_machine 0x40 0x01 start_fd demo_gen demo_plan demo_program [9] handles_init e"
  using rust_entry_ready [OF demo_start] by force

text \<open>
  The ways out before anything is loaded: secure mode ends with status 1, a debug level that is not one panics, and so
  does a name of the program that cannot be chosen; the chosen status is that of the process.
\<close>

theorem rust_entry_stops:
  assumes "host_auxv (sa_auxv (start stack)) = Some es"
  shows "scan_auxv (mc_aux M) es no_aux = Inl status \<Longrightarrow> rust_entry M n stack s t = Some (Ret (Inr (Status status)))"
    and "scan_auxv (mc_aux M) es no_aux = Inr i \<Longrightarrow> start_choice M (start stack) i = Some (Ret (Inr (Inl status))) \<Longrightarrow>
      rust_entry M n stack s t = Some (Ret (Inr (Status status)))"
    and "scan_auxv (mc_aux M) es no_aux = Inr i \<Longrightarrow> debug_text (mc_debug M) (with_environ M (sa_envp (start stack))) = Some l \<Longrightarrow>
      \<not> mc_is_level M l \<Longrightarrow> rust_entry M n stack s t = Some Panic"
  by (auto simp: rust_entry_def assms Let_def stage_simps start_choice_def set_debug_def split: prod.split)

text \<open>
  Each \<open>--argv0\<close> moves the pointer to the arguments by two while the loop goes on by one, so the override can be written
  behind the arguments: with three of them the second variable of the environment becomes the first.
\<close>

theorem argv0_overwrites_environment:
  "\<exists>p. choose_program C k (\<lambda>_. True) (\<lambda>_. []) (\<lambda>_. Inr 7) (\<lambda>_. 0) no_aux
      [lit ''ld'', lit ''--argv0'', lit ''--argv0'', lit ''--argv0'', lit ''x''] = Some (Ret (Inr (Inr p))) \<and>
    override_argv0 [0x10, 0x20, 0x30, 0x40, 0x50, 0, 0x60, 0x70, 0] p = [0x10, 0x20, 0x30, 0x40, 0x50, 0, 0x60, 0x60, 0]"
proof -
  let ?p = "\<lparr> pr_fd = 7, pr_argv = 7, pr_argc = 1, pr_argv0 = Some 6 \<rparr>"
  have "choose_program C k (\<lambda>_. True) (\<lambda>_. []) (\<lambda>_. Inr 7) (\<lambda>_. 0) no_aux
      [lit ''ld'', lit ''--argv0'', lit ''--argv0'', lit ''--argv0'', lit ''x''] = Some (Ret (Inr (Inr ?p)))"
    "override_argv0 [0x10, 0x20, 0x30, 0x40, 0x50, 0, 0x60, 0x70, 0] ?p = [0x10, 0x20, 0x30, 0x40, 0x50, 0, 0x60, 0x60, 0]"
    by code_simp+
  then show ?thesis by blast
qed

text \<open>
  The loader's stack: the place asked for is a multiple of 32 kilobytes, at least that much and less than 96 kilobytes above the first
  stack; the stack pointer is aligned as a call needs it. A refused mapping is not noticed: the stack pointer then lies in the
  first 512 kilobytes of memory.
\<close>

theorem setup_stack_place:
  assumes "unat rsp + 2 ^ 17 < 2 ^ 64"
  shows "unat (stack_hint rsp) mod 32768 = 0" "unat rsp + 32768 \<le> unat (stack_hint rsp)"
    "unat (stack_hint rsp) < unat rsp + 98304"
    "unat (mmap (stack_hint rsp) STACK_SIZE) mod 4096 = 0 \<Longrightarrow> unat (snd (setup_stack mmap rsp)) mod 16 = 0"
    "mmap (stack_hint rsp) STACK_SIZE = - e \<Longrightarrow> 0 < unat e \<Longrightarrow> unat e < 4096 \<Longrightarrow> unat (snd (setup_stack mmap rsp)) < 2 ^ 19"
proof -
  have m: "0xFFFFFFFFFFFF0000 = (NOT (2 ^ 16 - 1) :: u64)" by simp
  have r: "unat (rsp + 0xFFFF) = unat rsp + 65535" using assms by (subst unat_add_64) simp_all
  have d: "unat ((rsp + 0xFFFF) AND 0xFFFFFFFFFFFF0000) = (unat rsp + 65535) div 65536 * 65536"
    unfolding m using unat_round_down [of 16 "rsp + 0xFFFF"] by (simp add: r)
  define q where "q = (unat rsp + 65535) div 65536"
  have q: "unat rsp \<le> q * 65536" "q * 65536 < unat rsp + 65536"
    using div_mult_mod_eq [of "unat rsp + 65535" 65536] mod_less_divisor [of 65536 "unat rsp + 65535"] unfolding q_def by linarith+
  have h: "unat (stack_hint rsp) = q * 65536 + 32768"
    using assms q d unfolding stack_hint_def by (subst unat_add_64) (simp_all add: q_def STACK_DISPLACEMENT_def)
  show "unat rsp + 32768 \<le> unat (stack_hint rsp)" "unat (stack_hint rsp) < unat rsp + 98304" using h q by simp_all
  have "q * 65536 + 32768 = (2 * q + 1) * 32768" by simp
  then show "unat (stack_hint rsp) mod 32768 = 0" unfolding h by simp
  show "unat (snd (setup_stack mmap rsp)) mod 16 = 0" if page: "unat (mmap (stack_hint rsp) STACK_SIZE) mod 4096 = 0"
  proof -
    let ?a = "mmap (stack_hint rsp) STACK_SIZE"
    have "unat (?a + STACK_SIZE) = (unat ?a + 524288) mod 2 ^ 64" by (simp add: unat_word_ariths STACK_SIZE_def)
    then have "unat (?a + STACK_SIZE) mod 16 = (unat ?a + 524288) mod 16" by (simp add: mod_mod_cancel)
    moreover obtain k where "unat ?a = 4096 * k" using page by (auto simp: mod_eq_0_iff_dvd dvd_def)
    ultimately show ?thesis by (simp add: setup_stack_def Let_def)
  qed
  show "unat (snd (setup_stack mmap rsp)) < 2 ^ 19"
    if "mmap (stack_hint rsp) STACK_SIZE = - e" "0 < unat e" "unat e < 4096"
  proof -
    have "- e + STACK_SIZE = STACK_SIZE - e" by simp
    moreover have "unat (STACK_SIZE - e) = 524288 - unat e"
      using that(3) by (subst unat_sub) (simp_all add: STACK_SIZE_def word_le_nat_alt)
    ultimately show ?thesis using that by (simp add: setup_stack_def Let_def)
  qed
qed

end
