(* ===== verification/WL_Session.thy ===== *)
theory WL_Session
  imports WL_Main WL_Calls WL_Process
begin

text \<open>
  The first calls of a program, across the components: the state in which \<open>WL_Main\<close> enters the program, the registers of
  \<open>WL_Calls\<close>, the dispatcher of \<open>WL_Dispatch\<close>, and the calls on handles of \<open>WL_Process\<close>.
\<close>

section \<open>Lemmas\<close>

text \<open>A context as a call leaves it: the result in \<open>rax\<close> and the rest as it was.\<close>

definition answered :: "u64 list \<Rightarrow> u64 \<Rightarrow> u64 list \<Rightarrow> bool" where
  "answered ctx v out \<longleftrightarrow> (\<forall>i < NGREGS. out ! i = (if i = REG_RAX then v else ctx ! i))"

lemma booted_call:
  assumes "boot_subsystems sys_ue sys_gsi = Ret r" "sys_ue < 4096" "sys_gsi < 4096" "sys_ue \<noteq> sys_gsi"
    and "length gregs = NGREGS" "length ws = 6" "map_of (boot_calls sys_ue sys_gsi) (unat (gregs ! REG_RAX)) = f"
  shows "answered (place_args ws gregs) (case f of Some f \<Rightarrow> run f ws | None \<Rightarrow> unsupported)
    (invoke_syscall_uctx run unsupported r (place_args ws gregs))"
proof -
  note p = place_args_regs [OF assms(5,6)]
  have w: "[place_args ws gregs ! 8, place_args ws gregs ! 9, place_args ws gregs ! 12, place_args ws gregs ! 2,
      place_args ws gregs ! 0, place_args ws gregs ! 1] = ws"
    using p(1) by (simp add: arg_regs_def reg_defs)
  show ?thesis
    using trapped_syscall [OF assms(2-4) p(3), of run unsupported, unfolded w] assms(1,7) p(2)
    by (auto simp: answered_def reg_defs)
qed

lemma io_handle_fd:
  assumes "base_ok base" "handle_map base t p = Some (io_handle (HANDLE_TYPE_IO A) (of_nat i))" "i < 3"
    and "HANDLE_TYPE_IO A AND NOT 0xF0000000 = HANDLE_TYPE_IO A"
  shows "io_fd A base p t = Ret (Inr (of_nat i))"
proof -
  have "i = 0 \<or> i = 1 \<or> i = 2" using assms(3) by auto
  then show ?thesis
    unfolding io_fd_map [OF assms(1)]
    using assms(2,4) by (auto simp: io_fd_abs_def check_type_def borrow_fd_def io_handle_def)
qed

lemma entered_handle:
  assumes "entered_ok M sys_ue sys_gsi fd_of g plan p hdr t e" "i < 3"
  shows "handle_map (mc_handles_base M) (en_table e) (en_handles e ! i) = Some (io_handle (mc_hty_io M) (of_nat i))"
proof -
  obtain a b c where h: "take 3 (en_handles e) = [a, b, c]" "distinct [a, b, c]"
    "handle_map (mc_handles_base M) (en_table e) = (handle_map (mc_handles_base M) t)
      (a \<mapsto> io_handle (mc_hty_io M) 0, b \<mapsto> io_handle (mc_hty_io M) 1, c \<mapsto> io_handle (mc_hty_io M) 2)"
    using assms(1) by (auto simp: entered_ok_def)
  have "en_handles e ! i = [a, b, c] ! i" using h(1) assms(2) by (metis nth_take)
  moreover have "i = 0 \<or> i = 1 \<or> i = 2" using assms(2) by auto
  ultimately show ?thesis using h(2,3) by auto
qed

section \<open>Properties\<close>

text \<open>
  C17. Writing to the standard descriptors, end to end. In the state in which the program is entered, a system call with the
  number \<open>0x2001\<close> on one of the three handles the program finds in its auxiliary vector writes the program's
  buffer to the descriptor of the same number: the program gets what the kernel answers, encoded, in \<open>rax\<close>, and keeps
  its other registers. A call with a number that is not registered changes nothing but \<open>rax\<close>.
\<close>

theorem program_writes:
  assumes "entered_ok M sys_ue sys_gsi fd_of g plan p hdr t e" "base_ok (mc_handles_base M)"
    and "sys_ue < 4096" "sys_gsi < 4096" "sys_ue \<noteq> sys_gsi"
    and "HANDLE_TYPE_IO A = mc_hty_io M" "HANDLE_TYPE_IO A AND NOT 0xF0000000 = HANDLE_TYPE_IO A" "i < 3"
    and "length gregs = NGREGS" "gregs ! REG_RAX = 0x2001"
    and "ctx = place_args [en_handles e ! i, buf, len, w3, w4, w5] gregs"
    and "\<And>ws x. WL_Process.IOWrite A k (mc_handles_base M) (ws ! 0) (ws ! 1) (ws ! 2) (en_table e) = Ret x \<Longrightarrow>
      run WL_Dispatch.IOWrite ws = into_sys_usize into_code x"
  shows "answered ctx (into_sys_usize into_code (map_err (k (of_nat i) buf len)))
      (invoke_syscall_uctx run unsupported (st_registry (en_state e)) ctx) \<and>
    (unat nr \<notin> set (map fst (boot_calls sys_ue sys_gsi)) \<longrightarrow>
      answered (place_args [w0, w1, w2, w3, w4, w5] (gregs[REG_RAX := nr])) unsupported
        (invoke_syscall_uctx run unsupported (st_registry (en_state e)) (place_args [w0, w1, w2, w3, w4, w5] (gregs[REG_RAX := nr]))))"
proof -
  have r: "boot_subsystems sys_ue sys_gsi = Ret (st_registry (en_state e))" using assms(1) by (simp add: entered_ok_def)
  have "io_fd A (mc_handles_base M) (en_handles e ! i) (en_table e) = Ret (Inr (of_nat i))"
    using entered_handle [OF assms(1,8)] assms(6) by (intro io_handle_fd [OF assms(2) _ assms(8,7)]) simp
  then have w: "run WL_Dispatch.IOWrite [en_handles e ! i, buf, len, w3, w4, w5] =
      into_sys_usize into_code (map_err (k (of_nat i) buf len))"
    by (intro assms(12)) (simp add: WL_Process.IOWrite_def run_simps)
  have "map_of (boot_calls sys_ue sys_gsi) 0x2001 = Some WL_Dispatch.IOWrite"
    using assms(3-5) by (auto simp: boot_calls_def)
  then have "answered ctx (into_sys_usize into_code (map_err (k (of_nat i) buf len)))
      (invoke_syscall_uctx run unsupported (st_registry (en_state e)) ctx)"
    using booted_call [OF r assms(3-5,9), where ws = "[en_handles e ! i, buf, len, w3, w4, w5]" and f = "Some WL_Dispatch.IOWrite" and
        run = run and unsupported = unsupported] assms(10) w
    by (simp add: assms(11))
  moreover have "answered (place_args [w0, w1, w2, w3, w4, w5] (gregs[REG_RAX := nr])) unsupported
      (invoke_syscall_uctx run unsupported (st_registry (en_state e)) (place_args [w0, w1, w2, w3, w4, w5] (gregs[REG_RAX := nr])))"
    if "unat nr \<notin> set (map fst (boot_calls sys_ue sys_gsi))"
    using booted_call [OF r assms(3-5), where gregs = "gregs[REG_RAX := nr]" and ws = "[w0, w1, w2, w3, w4, w5]" and f = None and
        run = run and unsupported = unsupported] assms(9) that
    by (simp add: map_of_eq_None_iff reg_defs)
  ultimately show ?thesis by blast
qed

definition demo_run :: "u64 entered \<Rightarrow> syscall_fn \<Rightarrow> u64 list \<Rightarrow> u64" where
  "demo_run e f ws =
     (case WL_Process.IOWrite some_io_abi (\<lambda>fd buf len. if fd = 1 then Inr len else Inl EBADF) 0x7000 (ws ! 0) (ws ! 1) (ws ! 2)
        (en_table e) of
        Ret x \<Rightarrow> into_sys_usize (\<lambda>_. 99) x
      | Panic \<Rightarrow> 0)"

theorem program_writes_witness:
  "\<exists>e. rust_entry demo_machine 1 demo_stack demo_startup handles_init = Some (Ret (Inr (Entered e))) \<and>
    invoke_syscall_uctx (demo_run e) 5 (st_registry (en_state e))
      (place_args [en_handles e ! 1, 0x100, 7, 0, 0, 0] ((replicate NGREGS 1)[REG_RAX := 0x2001])) ! REG_RAX = 7"
proof -
  obtain e where e: "rust_entry demo_machine 1 demo_stack demo_startup handles_init = Some (Ret (Inr (Entered e)))"
    "entered_ok demo_machine 0x40 0x01 start_fd demo_gen demo_plan demo_program [9] handles_init e"
    using demo_entered by blast
  have m: "mc_handles_base demo_machine = 0x7000" "mc_hty_io demo_machine = 3" by (simp_all add: demo_machine_def)
  show ?thesis
    using program_writes [OF e(2), where A = some_io_abi and i = 1 and gregs = "(replicate NGREGS 1)[REG_RAX := 0x2001]" and
        ctx = "place_args [en_handles e ! 1, 0x100, 7, 0, 0, 0] ((replicate NGREGS 1)[REG_RAX := 0x2001])" and
        k = "\<lambda>fd buf len. if fd = 1 then Inr len else Inl EBADF" and run = "demo_run e" and into_code = "\<lambda>_. 99" and
        unsupported = 5] e(1) some_base
    by (auto simp: m some_io_abi_def demo_run_def answered_def map_err_def reg_defs)
qed

end
