(* ===== verification/WL_Panic.thy ===== *)
theory WL_Panic
  imports WL_Runtime
begin

text \<open>
  The end of a process with its messages. The panic handlers of \<open>wl-impl/src/panic.rs\<close> and
  \<open>wl-ld-lilium/src/lib.rs\<close>; \<open>exit_unrecoverably\<close> with the message it prints first
  (\<open>wl-impl/src/helpers.rs\<close>), \<open>__stack_chk_fail\<close> (\<open>wl-impl/src/libc/libc_defs.rs\<close>), the global allocator of the loader
  (\<open>wl-ld-lilium/src/helpers.rs\<close>) and \<open>resolve_error\<close> (\<open>wl-ld-lilium/src/entry.rs\<close>); and the functions whose body
  is \<open>todo!()\<close>.
\<close>

section \<open>The end of a process with its messages\<close>

fun decimal :: "nat \<Rightarrow> bytes" where
  "decimal n = (if n < 10 then [0x30 + of_nat n] else decimal (n div 10) @ [0x30 + of_nat (n mod 10)])"

declare decimal.simps [simp del]

record location =
  loc_file :: bytes
  loc_line :: nat
  loc_column :: nat

record panic_info =
  pi_location :: "location option"
  pi_message :: "bytes list"

fun print_loc :: "location option \<Rightarrow> bytes list" where
  "print_loc (Some l) = [loc_file l, lit '' '', decimal (loc_line l), lit '':'', decimal (loc_column l)]"
| "print_loc None = [lit ''unknown location'']"

definition panic_text :: "panic_info \<Rightarrow> piece list" where
  "panic_text i = [Lit ''Program Panicked at: ['', Arg (print_loc (pi_location i)), Lit ''] '', Arg (pi_message i)]"

text \<open>\<open>show_uuid\<close> is the display of an identifier, from \<open>lilium_sys\<close>.\<close>

definition except_text :: "(exception_id \<Rightarrow> bytes) \<Rightarrow> exception_id \<Rightarrow> bytes" where
  "except_text show_uuid e = (case strexcept e of Named n \<Rightarrow> lit n | UnknownExcept u \<Rightarrow> show_uuid u)"

definition crash_text :: "(exception_id \<Rightarrow> bytes) \<Rightarrow> exception_id \<Rightarrow> piece list" where
  "crash_text show_uuid e = [Lit ''Crashing with unhandled exception: '', Arg [except_text show_uuid e]]"

definition EMUL_ERROR :: exception_id where "EMUL_ERROR = ''05e3080f-ded6-54a7-acfd-afec3d7e93cb''"
definition ABORT :: exception_id where "ABORT = ''466fbae6-be8b-5525-bd04-ee7153b74f55''"

text \<open>
  \<open>at_panic\<close> and \<open>exit_unrecoverably\<close> call each other and never return: the handler prints and exits, the exit prints first, and
  a message that cannot be printed panics, with the information \<open>nested\<close> of the \<open>unwrap\<close> in the macro. Nothing bounds the
  nesting but the stack: \<open>room\<close> is the number of further calls of the two that fit. There is no stack for signals, so
  the kernel ends a process that overflows its stack: \<open>Overflow\<close>. \<open>k i\<close> are the answers to the \<open>i\<close>-th message; None is a message
  whose writing does not end. The messages printed come with the end.
\<close>

datatype crash = AtPanic panic_info | Exiting "exception_id option"

datatype crash_end = Ended "bytes list" "end_call list" | Overflow "bytes list"

fun crash_run ::
  "(exception_id \<Rightarrow> bytes) \<Rightarrow> panic_info \<Rightarrow> (nat \<Rightarrow> bool) \<Rightarrow> (nat \<Rightarrow> u32 \<Rightarrow> answers) \<Rightarrow> nat \<Rightarrow> nat \<Rightarrow> crash \<Rightarrow> bytes list \<Rightarrow>
   crash_end option" where
  "crash_run show_uuid nested gone k 0 i c msgs = Some (Overflow msgs)"
| "crash_run show_uuid nested gone k (Suc room) i (Exiting None) msgs = map_option (Ended msgs) (exit_unrecoverably gone)"
| "crash_run show_uuid nested gone k (Suc room) i (Exiting (Some e)) msgs =
     (case eprintln (k i) (crash_text show_uuid e) of
        None \<Rightarrow> None
      | Some Panic \<Rightarrow> crash_run show_uuid nested gone k room (Suc i) (AtPanic nested) msgs
      | Some (Ret out) \<Rightarrow> map_option (Ended (msgs @ [out])) (exit_unrecoverably gone))"
| "crash_run show_uuid nested gone k (Suc room) i (AtPanic info) msgs =
     (case eprintln (k i) (panic_text info) of
        None \<Rightarrow> None
      | Some Panic \<Rightarrow> crash_run show_uuid nested gone k room (Suc i) (AtPanic nested) msgs
      | Some (Ret out) \<Rightarrow> crash_run show_uuid nested gone k room (Suc i) (Exiting (Some EMUL_ERROR)) (msgs @ [out]))"

definition stack_chk_fail ::
  "(exception_id \<Rightarrow> bytes) \<Rightarrow> panic_info \<Rightarrow> (nat \<Rightarrow> bool) \<Rightarrow> (nat \<Rightarrow> u32 \<Rightarrow> answers) \<Rightarrow> nat \<Rightarrow> crash_end option" where
  "stack_chk_fail show_uuid nested gone k room = crash_run show_uuid nested gone k room 0 (Exiting (Some ABORT)) []"

section \<open>The loader\<close>

text \<open>
  \<open>crash_unrecoverably\<close> is \<open>ld_so_impl\<close>'s. The handler panics again when it cannot print, down to the end of the stack as above.
\<close>

datatype ld_end = Crash bytes | ExitStatus bytes nat | LdOverflow

definition ld_panic_text :: "panic_info \<Rightarrow> piece list" where
  "ld_panic_text i =
     (case pi_location i of
        Some l \<Rightarrow> [Lit ''panicked at '', Arg [loc_file l, lit '':'', decimal (loc_line l), lit '':'', decimal (loc_column l)],
          Lit '': '', Arg (pi_message i)]
      | None \<Rightarrow> [Lit ''panicked: '', Arg (pi_message i)])"

fun ld_panic_handler :: "panic_info \<Rightarrow> (nat \<Rightarrow> u32 \<Rightarrow> answers) \<Rightarrow> nat \<Rightarrow> nat \<Rightarrow> panic_info \<Rightarrow> ld_end option" where
  "ld_panic_handler nested k 0 i info = Some LdOverflow"
| "ld_panic_handler nested k (Suc room) i info =
     (case ld_eprintln (k i) (ld_panic_text info) of
        None \<Rightarrow> None
      | Some Panic \<Rightarrow> ld_panic_handler nested k room (Suc i) nested
      | Some (Ret out) \<Rightarrow> Some (Crash out))"

definition ld_say_and :: "piece list \<Rightarrow> (bytes \<Rightarrow> ld_end) \<Rightarrow> panic_info \<Rightarrow> (nat \<Rightarrow> u32 \<Rightarrow> answers) \<Rightarrow> nat \<Rightarrow> ld_end option" where
  "ld_say_and ps e nested k room =
     (case ld_eprintln (k 0) ps of
        None \<Rightarrow> None
      | Some Panic \<Rightarrow> ld_panic_handler nested k room 1 nested
      | Some (Ret out) \<Rightarrow> Some (e out))"

definition no_global_alloc :: "panic_info \<Rightarrow> (nat \<Rightarrow> u32 \<Rightarrow> answers) \<Rightarrow> nat \<Rightarrow> ld_end option" where
  "no_global_alloc = ld_say_and [Lit ''Use MmapAllocator instead of Global''] Crash"

definition no_global_dealloc :: "panic_info \<Rightarrow> (nat \<Rightarrow> u32 \<Rightarrow> answers) \<Rightarrow> nat \<Rightarrow> ld_end option" where
  "no_global_dealloc = ld_say_and [Lit ''Use MmapAllocator instead of Global''] Crash"

text \<open>\<open>shown\<close> is the debug text of the error, from \<open>ld_so_impl\<close>.\<close>

definition resolve_error :: "bytes \<Rightarrow> bytes list \<Rightarrow> panic_info \<Rightarrow> (nat \<Rightarrow> u32 \<Rightarrow> answers) \<Rightarrow> nat \<Rightarrow> ld_end option" where
  "resolve_error c shown =
     ld_say_and [Lit ''Could not find: '', Arg [c], Lit '' ('', Arg shown, Lit '')''] (\<lambda>out. ExitStatus out 1)"

text \<open>The writer of the loader's back end, and closing a handle.\<close>

definition loader_write_str :: write_str where
  "loader_write_str st ws = fd_write_str st ws"

definition close_hdl :: "u64 \<Rightarrow> u32" where
  "close_hdl hdl = ucast hdl"

section \<open>Functions that are not written yet\<close>

definition AwaitAddress :: "u64 \<Rightarrow> u64 \<Rightarrow> usize \<Rightarrow> u64 \<times> usize \<Rightarrow> (sys_error + unit) run" where
  "AwaitAddress addr current ignore_mask options = Panic"

definition NotifyAddress :: "u64 \<Rightarrow> usize \<Rightarrow> usize \<Rightarrow> u64 \<times> usize \<Rightarrow> (sys_error + usize) run" where
  "NotifyAddress addr n wake_mask options = Panic"

definition lookup_soname :: "bytes \<Rightarrow> u64 \<Rightarrow> unit run" where
  "lookup_soname libname udata = Panic"

section \<open>Lemmas\<close>

lemma texts_refused:
  assumes "refuses (k stderr)"
  shows "eprintln k (panic_text i) = Some Panic" "eprintln k (crash_text f e) = Some Panic"
  using print_refused(1) [of k stderr] assms by (simp_all add: panic_text_def crash_text_def)

lemma ld_text_refused: "refuses (k stderr) \<Longrightarrow> ld_eprintln k (ld_panic_text info) = Some Panic"
  using print_refused(2) [of k stderr] by (cases "pi_location info") (simp_all add: ld_panic_text_def)

text \<open>The nesting goes on as long as messages are refused.\<close>

lemma crash_run_refused:
  "(\<And>j. j < m \<Longrightarrow> refuses (k (i + j) stderr)) \<Longrightarrow> m \<le> room \<Longrightarrow> 0 < m \<Longrightarrow>
   crash_run f nested gone k room i (AtPanic info) msgs = crash_run f nested gone k (room - m) (i + m) (AtPanic nested) msgs"
proof (induction m arbitrary: room i info)
  case (Suc m)
  obtain r where r: "room = Suc r" using Suc.prems(2) by (cases room) simp_all
  have "crash_run f nested gone k room i (AtPanic info) msgs = crash_run f nested gone k r (Suc i) (AtPanic nested) msgs"
    using Suc.prems(1) [of 0] by (simp add: r texts_refused)
  also have "\<dots> = crash_run f nested gone k (room - Suc m) (i + Suc m) (AtPanic nested) msgs"
  proof (cases "m = 0")
    case False
    have "refuses (k (Suc i + j) stderr)" if "j < m" for j using Suc.prems(1) [of "Suc j"] that by simp
    then show ?thesis using Suc.IH [of "Suc i" r nested] Suc.prems(2) r False by simp
  qed (simp add: r)
  finally show ?case .
qed simp

lemma crash_run_takes:
  assumes "exit_unrecoverably gone = Some cs" "takes (k i stderr) (format_args_nl (panic_text info))"
    and "takes (k (Suc i) stderr) (format_args_nl (crash_text f EMUL_ERROR))" "2 \<le> room"
  shows "crash_run f nested gone k room i (AtPanic info) msgs =
    Some (Ended (msgs @ [concat (format_args_nl (panic_text info)), concat (format_args_nl (crash_text f EMUL_ERROR))]) cs)"
proof -
  obtain r where "room = Suc (Suc r)" using assms(4) by (cases room; cases "room - 1") auto
  then show ?thesis using assms(1) eprintln_takes [of "k i", OF assms(2)] eprintln_takes [of "k (Suc i)", OF assms(3)] by simp
qed

section \<open>Properties\<close>

text \<open>
  C14. How a process comes to its end after a panic. When standard error takes the messages, in pieces of any size, the panic
  prints its location and message and then the emulation error, and goes on to the calls that kill the process. While standard error
  refuses, every message panics in turn: after \<open>m\<close> refused messages the handler has been entered \<open>m\<close> more times, each inside the one
  before, and what is printed once standard error takes messages again is the nested panic, not the first one. If it refuses for as
  many messages as calls fit on the stack, the process never gets to the calls that end it and nothing is printed: it runs out
  of stack. An exception that is reported prints its name and ends the process, or is the first of these nested panics; an
  exit without an exception does not print and ends the process in any case.
\<close>

theorem crash_needs_stderr:
  assumes "exit_unrecoverably gone = Some cs" "\<And>j. j < m \<Longrightarrow> refuses (k j stderr)"
    and "takes (k m stderr) (format_args_nl (panic_text (if m = 0 then info else nested)))"
    and "takes (k (Suc m) stderr) (format_args_nl (crash_text f EMUL_ERROR))"
    and "takes (k' 0 stderr) (format_args_nl (crash_text f e))"
  shows "(m + 2 \<le> room \<longrightarrow> crash_run f nested gone k room 0 (AtPanic info) [] =
      Some (Ended [concat (format_args_nl (panic_text (if m = 0 then info else nested))),
        concat (format_args_nl (crash_text f EMUL_ERROR))] cs)) \<and>
    (room \<le> m \<longrightarrow> crash_run f nested gone k room 0 (AtPanic info) [] = Some (Overflow [])) \<and>
    (0 < m \<longrightarrow> crash_run f nested gone k (Suc room) 0 (Exiting (Some e)) [] =
      crash_run f nested gone k room 1 (AtPanic nested) []) \<and>
    crash_run f nested gone k' (Suc room) 0 (Exiting (Some e)) [] = Some (Ended [concat (format_args_nl (crash_text f e))] cs) \<and>
    crash_run f nested gone k (Suc room) 0 (Exiting None) [] = Some (Ended [] cs)"
proof -
  have "crash_run f nested gone k room 0 (AtPanic info) [] =
      Some (Ended [concat (format_args_nl (panic_text (if m = 0 then info else nested))),
        concat (format_args_nl (crash_text f EMUL_ERROR))] cs)" if room: "m + 2 \<le> room"
  proof (cases "m = 0")
    case True
    then show ?thesis using crash_run_takes [where k = k and i = 0 and msgs = "[]", OF assms(1)] assms(3,4) room by simp
  next
    case False
    then have "crash_run f nested gone k room 0 (AtPanic info) [] = crash_run f nested gone k (room - m) m (AtPanic nested) []"
      using crash_run_refused [of m k 0 room] assms(2) room by simp
    then show ?thesis using crash_run_takes [where k = k and i = m and msgs = "[]", OF assms(1)] assms(3,4) room False by simp
  qed
  moreover have "crash_run f nested gone k room 0 (AtPanic info) [] = Some (Overflow [])" if "room \<le> m"
    using crash_run_refused [of room k 0 room] assms(2) that by (cases "room = 0") auto
  moreover have "crash_run f nested gone k (Suc room) 0 (Exiting (Some e)) [] = crash_run f nested gone k room 1 (AtPanic nested) []"
    if "0 < m" using assms(2) [OF that] by (simp add: texts_refused)
  ultimately show ?thesis using assms(1) eprintln_takes [of "k' 0", OF assms(5)] by simp
qed

definition quiet_panic :: panic_info where
  "quiet_panic = \<lparr> pi_location = None, pi_message = [] \<rparr>"

theorem crash_needs_stderr_witness:
  "\<exists>cs. crash_run (\<lambda>u. []) quiet_panic (\<lambda>i. i = 1)
      (\<lambda>i fd. if i < 3 then (\<lambda>j. [WriteFailed]) else if i = 3 then at_once (format_args_nl (panic_text quiet_panic))
         else at_once (format_args_nl (crash_text (\<lambda>u. []) EMUL_ERROR))) 9 0 (AtPanic quiet_panic) [] =
      Some (Ended [concat (format_args_nl (panic_text quiet_panic)), concat (format_args_nl (crash_text (\<lambda>u. []) EMUL_ERROR))] cs)"
proof -
  let ?k = "\<lambda>i (fd :: u32). if i < 3 then (\<lambda>j. [WriteFailed]) else if i = (3 :: nat) then at_once (format_args_nl (panic_text quiet_panic))
         else at_once (format_args_nl (crash_text (\<lambda>u. []) EMUL_ERROR))"
  have "exit_unrecoverably (\<lambda>i. i = 1) = Some [SetDefault SIGQUIT, Kill SIGQUIT]" by (simp add: exit_unrecoverably_def)
  from crash_needs_stderr [where m = 3 and k = ?k and room = 9 and info = quiet_panic and nested = quiet_panic and f = "\<lambda>u. []" and
      e = ABORT and k' = "\<lambda>i fd. at_once (format_args_nl (crash_text (\<lambda>u. []) ABORT))", OF this]
  show ?thesis by (auto simp: refuses_def takes_at_once)
qed

text \<open>The message of a failing stack check names an abort, and that of a panic its place.\<close>

theorem end_messages:
  "concat (format_args (crash_text f ABORT)) = lit ''Crashing with unhandled exception: Aborted''"
  "concat (format_args (crash_text f EMUL_ERROR)) =
     lit ''Crashing with unhandled exception: Emulation Error (winter-lily Interal Error)''"
  "concat (format_args (panic_text \<lparr> pi_location = Some \<lparr> loc_file = lit ''a.rs'', loc_line = 120, loc_column = 7 \<rparr>,
     pi_message = [lit ''no''] \<rparr>)) = lit ''Program Panicked at: [a.rs 120:7] no''"
  by (simp_all add: crash_text_def except_text_def strexcept_def ABORT_def EMUL_ERROR_def lit_def panic_text_def) code_simp

text \<open>
  In the loader the handler, the refused allocations and the error of the resolver print one message and end; with standard error
  refused they run out of stack.
\<close>

lemma ld_panic_refused: "(\<And>j. refuses (k j stderr)) \<Longrightarrow> ld_panic_handler nested k room i info = Some LdOverflow"
  by (induction room arbitrary: i info) (simp_all add: ld_text_refused)

theorem loader_ends_need_stderr:
  assumes "\<And>j. refuses (k j stderr)"
  shows "resolve_error c shown nested k room = Some LdOverflow" "no_global_alloc nested k room = Some LdOverflow"
    "no_global_dealloc nested k room = Some LdOverflow"
  using print_refused(2) [of "k 0" stderr] assms [of 0]
  by (simp_all add: resolve_error_def no_global_alloc_def no_global_dealloc_def ld_say_and_def ld_panic_refused [of k, OF assms])

end
