(* ===== verification/WL_Drop.thy ===== *)
theory WL_Drop
  imports WL_Once_Lock "HOL-Library.Multiset"
begin

text \<open>
  Ownership of the value of a \<open>OnceLock\<close> and the rest of \<open>LazyLock\<close> (\<open>wl-helpers/src/lib.rs\<close>): the destructors of the
  cell and of its guard, and the account of the values that go into a cell and come out of it.
\<close>

section \<open>Destructors and accessors\<close>

text \<open>The value the destructor of a cell destroys.\<close>

definition once_drop :: "'a once \<Rightarrow> 'a option" where
  "once_drop c = (if is_init c then val c else None)"

definition poison_on_drop :: "'a once \<Rightarrow> 'a once" where
  "poison_on_drop c = c\<lparr> lock := POISONED \<rparr>"

definition lazy_get_mut :: "'a lazy \<Rightarrow> ((unit + 'a) \<times> 'a lazy) run" where
  "lazy_get_mut l = run_bind (once_get_mut (once_lock l)) (\<lambda>(v, c). Ret (v, l\<lparr> once_lock := c \<rparr>))"

definition lazy_deref :: "'a lazy \<Rightarrow> ('a \<times> 'a lazy) run option" where
  "lazy_deref l = lazy_force l"

definition lazy_deref_mut :: "'a lazy \<Rightarrow> ('a \<times> 'a lazy) run" where
  "lazy_deref_mut l = lazy_force_mut l"

section \<open>The account of a cell\<close>

text \<open>
  Operations on a cell in a single thread. An initialiser is given by the value it makes, when it runs. Each
  step tells the values that were handed to the cell and those it handed back.
\<close>

datatype 'a cell_op = Set 'a | GetOrInit 'a | GetOrInitMut 'a | Get | GetMut | Take | ForceUnlock

type_synonym 'a account = "'a multiset \<times> 'a multiset \<times> 'a once"

definition option_mset :: "'a option \<Rightarrow> 'a multiset" where
  "option_mset x = (case x of None \<Rightarrow> {#} | Some v \<Rightarrow> {#v#})"

definition made :: "'a once \<Rightarrow> 'a \<Rightarrow> 'a multiset" where
  "made c v = (if is_init c then {#} else {#v#})"

fun cell_exec :: "'a cell_op \<Rightarrow> 'a once \<Rightarrow> 'a account run option" where
  "cell_exec (Set v) c = map_option (\<lambda>r. run_bind r (\<lambda>(x, c'). Ret ({#v#}, (case x of Inl v' \<Rightarrow> {#v'#} | Inr u \<Rightarrow> {#}), c'))) (once_set c v)"
| "cell_exec (GetOrInit v) c =
     map_option (\<lambda>r. run_bind r (\<lambda>(x, c'). Ret (made c v, {#}, c'))) (get_or_init c v :: ((unit + 'a) \<times> 'a once) run option)"
| "cell_exec (GetOrInitMut v) c =
     Some (run_bind (get_or_init_mut c v :: ((unit + 'a) \<times> 'a once) run) (\<lambda>(x, c'). Ret (made c v, {#}, c')))"
| "cell_exec Get c = map_option (\<lambda>r. run_bind r (\<lambda>(x, c'). Ret ({#}, {#}, c'))) (once_get c)"
| "cell_exec GetMut c = Some (run_bind (once_get_mut c) (\<lambda>(x, c'). Ret ({#}, {#}, c')))"
| "cell_exec Take c = Some (Ret ({#}, option_mset (fst (once_take c)), snd (once_take c)))"
| "cell_exec ForceUnlock c = Some (Ret ({#}, {#}, force_unlock c))"

fun cell_run :: "'a cell_op list \<Rightarrow> 'a account \<Rightarrow> 'a account run option" where
  "cell_run [] a = Some (Ret a)"
| "cell_run (x # xs) (ins, outs, c) =
     (case cell_exec x c of
        None \<Rightarrow> None
      | Some Panic \<Rightarrow> Some Panic
      | Some (Ret (i, out, c')) \<Rightarrow> cell_run xs (ins + i, outs + out, c'))"

section \<open>Lemmas\<close>

text \<open>The value is there exactly when the cell says so.\<close>

definition cell_wf :: "'a once \<Rightarrow> bool" where
  "cell_wf c \<longleftrightarrow> (is_init c \<longleftrightarrow> val c \<noteq> None)"

lemma lock_bits:
  "INIT \<noteq> 0" "INIT AND POISONED = 0" "POISONED AND INIT = 0" "INIT AND LOCK = 0" "LOCK AND POISONED = 0" "NOT LOCK AND INIT = INIT"
  by (simp_all add: INIT_def POISONED_def LOCK_def push_bit_eq_mult)

lemmas init_bits = is_init_def lock_bits

lemma force_unlock_init: "is_init (force_unlock c) = is_init c"
  by (simp add: init_bits force_unlock_def and.assoc)

lemma wf_val: "cell_wf c \<Longrightarrow> option_mset (once_drop c) = option_mset (val c)"
  by (auto simp: cell_wf_def once_drop_def)

lemma init_shared:
  assumes "try_get_or_init c f = Some (Ret (x, c'))" "cell_wf c"
  shows "cell_wf c' \<and> (f = Ret (Inr v) \<longrightarrow> option_mset (val c') = option_mset (val c) + made c v) \<and> (f = Ret (Inl r) \<longrightarrow> val c' = val c)"
  using assms
  by (auto simp: try_get_or_init_def cell_wf_def made_def Let_def init_bits option_mset_def
      split: if_splits run.splits sum.splits option.splits)

lemma init_exclusive:
  assumes "try_get_or_init_mut c f = Ret (x, c')" "cell_wf c"
  shows "cell_wf c' \<and> (f = Ret (Inr v) \<longrightarrow> option_mset (val c') = option_mset (val c) + made c v) \<and> (f = Ret (Inl r) \<longrightarrow> val c' = val c)"
  using assms
  by (auto simp: try_get_or_init_mut_def check_poison_def run_simps cell_wf_def made_def init_bits option_mset_def
      split: if_splits run.splits sum.splits option.splits)

lemma take_account:
  "cell_wf c \<Longrightarrow> cell_wf (snd (once_take c)) \<and> option_mset (val c) = option_mset (fst (once_take c)) + option_mset (val (snd (once_take c)))"
  by (auto simp: once_take_def cell_wf_def init_bits option_mset_def split: option.splits)

lemma cell_exec_account:
  assumes "cell_exec x c = Some (Ret (i, out, c'))" "cell_wf c"
  shows "cell_wf c' \<and> i + option_mset (val c) = out + option_mset (val c')"
proof (cases x)
  case (Set v)
  then obtain y where "try_get_or_init c (Ret (Inr v)) = Some (Ret (y :: unit + 'a, c'))"
    "i = {#v#}" "out = (if is_init c then {#v#} else {#})"
    using assms(1) by (cases "is_init c") (auto simp: once_set_def run_bind_eq_Ret)
  then show ?thesis using init_shared [OF _ assms(2), of "Ret (Inr v)" y c' v] by (auto simp: made_def split: if_splits)
next
  case (GetOrInit v)
  then obtain y where "try_get_or_init c (Ret (Inr v)) = Some (Ret (y :: unit + 'a, c'))" "i = made c v" "out = {#}"
    using assms(1) by (auto simp: get_or_init_def run_bind_eq_Ret)
  then show ?thesis using init_shared [OF _ assms(2), of "Ret (Inr v)" y c' v] by simp
next
  case (GetOrInitMut v)
  then obtain y where "try_get_or_init_mut c (Ret (Inr v)) = Ret (y :: unit + 'a, c')" "i = made c v" "out = {#}"
    using assms(1) by (auto simp: get_or_init_mut_def run_bind_eq_Ret)
  then show ?thesis using init_exclusive [OF _ assms(2), of "Ret (Inr v)" y c' v] by simp
next
  case Get
  then obtain y where "try_get_or_init c (Ret (Inl ())) = Some (Ret (y, c'))" "i = {#}" "out = {#}"
    using assms(1) by (auto simp: once_get_def run_bind_eq_Ret)
  then show ?thesis using init_shared [OF _ assms(2), of "Ret (Inl ())" y c'] by auto
next
  case GetMut
  then obtain y where "try_get_or_init_mut c (Ret (Inl ())) = Ret (y, c')" "i = {#}" "out = {#}"
    using assms(1) by (auto simp: once_get_mut_def run_bind_eq_Ret)
  then show ?thesis using init_exclusive [OF _ assms(2), of "Ret (Inl ())" y c'] by auto
next
  case Take
  then show ?thesis using assms take_account [OF assms(2)] by auto
next
  case ForceUnlock
  then show ?thesis using assms force_unlock_init [of c] by (auto simp: cell_wf_def) (simp_all add: force_unlock_def)
qed

lemma cell_run_account:
  assumes "cell_run xs (ins, outs, c) = Some (Ret (ins', outs', c'))" "cell_wf c" "ins = outs + option_mset (val c)"
  shows "cell_wf c' \<and> ins' = outs' + option_mset (val c')"
  using assms
proof (induction xs arbitrary: ins outs c)
  case (Cons x xs)
  then obtain i out c1 where c1: "cell_exec x c = Some (Ret (i, out, c1))" "cell_run xs (ins + i, outs + out, c1) = Some (Ret (ins', outs', c'))"
    by (auto split: option.splits run.splits)
  note a = cell_exec_account [OF c1(1) Cons.prems(2)]
  then have "ins + i = (outs + out) + option_mset (val c1)" using Cons.prems(3) by (simp add: ac_simps)
  then show ?case using Cons.IH [OF c1(2)] a by blast
qed simp

section \<open>Properties\<close>

text \<open>
  C16. No value of a cell is lost or destroyed twice. After any sequence of operations in one thread on a new cell, the
  values that were handed to it are those it handed back, by \<open>take\<close> or by refusing \<open>set\<close>, together with the
  one its destructor destroys.
\<close>

theorem once_values_conserved:
  assumes "cell_run xs ({#}, {#}, once_new) = Some (Ret (ins, outs, c))"
  shows "ins = outs + option_mset (once_drop c)"
proof -
  have "cell_wf once_new" by (simp add: cell_wf_def once_new_def init_bits)
  then show ?thesis using cell_run_account [OF assms] wf_val by (force simp: once_new_def option_mset_def)
qed

theorem once_values_conserved_witness:
  "\<exists>c. cell_run [Set 3, Set 4, Take, GetOrInit 5, GetOrInitMut 6] ({#}, {#}, once_new) = Some (Ret ({#3, 4, 5#}, {#4, 3#}, c)) \<and>
     once_drop c = Some (5 :: nat)"
proof -
  have r: "cell_run [Set 3, Set 4, Take, GetOrInit 5, GetOrInitMut 6] ({#}, {#}, once_new) =
      Some (Ret ({#3, 4, 5#}, {#4, 3#}, \<lparr> lock = INIT, val = Some (5 :: nat) \<rparr>))"
    by (simp add: once_set_def get_or_init_def get_or_init_mut_def try_get_or_init_def try_get_or_init_mut_def check_poison_def
        once_take_def once_new_def made_def init_bits run_simps option_mset_def Let_def)
  from once_values_conserved [OF this] have "option_mset (once_drop \<lparr> lock = INIT, val = Some (5 :: nat) \<rparr>) = {#5#}"
    by (simp add: add_eq_conv_ex)
  then show ?thesis using r by (auto simp: option_mset_def split: option.splits)
qed

text \<open>A guard that poisons an initialised cell makes its destructor forget the value.\<close>

theorem poisoned_value_leaks: "once_drop (poison_on_drop (once_new_init v)) = None"
  by (simp add: once_drop_def poison_on_drop_def init_bits)

text \<open>The references of a lazy cell force it.\<close>

theorem lazy_deref_forces:
  "lazy_deref (lazy_new_init v) = Some (Ret (v, lazy_new_init v))" "lazy_get_mut (lazy_new_init v) = Ret (Inr v, lazy_new_init v)"
  "lazy_deref_mut (lazy_new f) = Ret (f, \<lparr> once_lock = once_new_init f, init_fn = None \<rparr>)"
  by (simp_all add: lazy_deref_def lazy_get_mut_def lazy_deref_mut_def lazy_force_def lazy_force_mut_def lazy_new_def
      lazy_new_init_def lazy_result_def lazy_closure_def try_get_or_init_def try_get_or_init_mut_def once_get_mut_def
      check_poison_def once_new_def once_new_init_def init_bits run_simps)

end
