(* ===== verification/WL_Caches.thy ===== *)
theory WL_Caches
  imports WL_Ldso WL_Once_Lock WL_Cpu_Features
begin

text \<open>
  The statics the loader fills on first use: the descriptor of the sysroot (\<open>SYSROOT_FD\<close> of
  \<open>wl-ld-lilium/src/helpers.rs\<close>), the two search lists (\<open>wl-ld-lilium/src/ldso.rs\<close>) and the words of CPU features
  (\<open>wl-ld-lilium/src/detect/x86.rs\<close>). Each is a \<open>OnceLock\<close>. \<open>WL_Ldso\<close> computes their contents on every use; here the
  cells are threaded through, which shows when the two agree.
\<close>

section \<open>Uses of the cells\<close>

definition orun_bind :: "'a run option \<Rightarrow> ('a \<Rightarrow> 'b run option) \<Rightarrow> 'b run option" where
  "orun_bind x f = (case x of None \<Rightarrow> None | Some Panic \<Rightarrow> Some Panic | Some (Ret a) \<Rightarrow> f a)"

definition open_sysroot_cached :: "host \<Rightarrow> u32 \<Rightarrow> bytes \<Rightarrow> u32 once \<Rightarrow> ((errno + u32) \<times> u32 once) run option" where
  "open_sysroot_cached h at_fd st c =
     (if 256 \<le> length st then Some Panic
      else let path = cstr st in
        if take 1 path = lit ''/''
        then orun_bind (try_get_or_init c (sysroot_fd h)) (\<lambda>(r, c).
               Some (Ret (and_then r (\<lambda>at_fd. fs_openat (files h) at_fd (drop 1 path)), c)))
        else Some (Ret (fs_openat (files h) at_fd path, c)))"

text \<open>The list is computed when the cell is empty, which may not end.\<close>

definition search_list_cached ::
  "nat \<Rightarrow> host \<Rightarrow> SearchType \<Rightarrow> bytes once \<Rightarrow> ((errno + bytes) \<times> bytes once) run option" where
  "search_list_cached n h search c =
     (if is_init c then try_get_or_init c Panic
      else case search_list n h search of None \<Rightarrow> None | Some f \<Rightarrow> try_get_or_init c f)"

definition open_module_cached ::
  "nat \<Rightarrow> host \<Rightarrow> elf_host \<Rightarrow> SearchType \<Rightarrow> bytes \<Rightarrow> bytes once \<Rightarrow> (((errno + u32) \<times> u32 list) \<times> bytes once) run option" where
  "open_module_cached n h E search name c =
     orun_bind (search_list_cached n h search c) (\<lambda>(r, c).
       case r of
         Inl e \<Rightarrow> Some (Ret ((Inl e, []), c))
       | Inr path \<Rightarrow> Some (run_bind (open_module_loop h E name (split_items 0x1E path)) (\<lambda>x. Ret (x, c))))"

definition supported_feature_array ::
  "(u32 \<Rightarrow> u32 \<Rightarrow> cpuid_result) \<Rightarrow> u32 list once \<Rightarrow> ((unit + u32 list) \<times> u32 list once) run option" where
  "supported_feature_array cpuid c = get_or_init c (init_cpuid_features cpuid)"

section \<open>Sequences of uses\<close>

fun uses :: "('q \<Rightarrow> 'c \<Rightarrow> ('b \<times> 'c) run option) \<Rightarrow> 'q list \<Rightarrow> 'c \<Rightarrow> ('b list \<times> 'c) run option" where
  "uses f [] c = Some (Ret ([], c))"
| "uses f (q # qs) c = orun_bind (f q c) (\<lambda>(x, c). orun_bind (uses f qs c) (\<lambda>(xs, c). Some (Ret (x # xs, c))))"

fun plain_uses :: "('q \<Rightarrow> 'b run option) \<Rightarrow> 'q list \<Rightarrow> 'b list run option" where
  "plain_uses f [] = Some (Ret [])"
| "plain_uses f (q # qs) = orun_bind (f q) (\<lambda>x. orun_bind (plain_uses f qs) (\<lambda>xs. Some (Ret (x # xs))))"

definition results :: "('b list \<times> 'c) run option \<Rightarrow> 'b list run option" where
  "results x = orun_bind x (\<lambda>(xs, c). Some (Ret xs))"

section \<open>Cells that do not show\<close>

text \<open>
  A use through a cell shows nothing of the cell when, in every state the cell can be in, it gives what the use
  without a cell gives; then so does every sequence of uses. \<open>e\<close> are the surroundings.
\<close>

locale cached_use =
  fixes ok :: "'e \<Rightarrow> bool" and good :: "'e \<Rightarrow> 'c \<Rightarrow> bool"
    and step :: "'e \<Rightarrow> 'q \<Rightarrow> 'c \<Rightarrow> ('b \<times> 'c) run option" and plain :: "'e \<Rightarrow> 'q \<Rightarrow> 'b run option"
  assumes transparent:
    "ok e \<Longrightarrow> good e c \<Longrightarrow> \<exists>c'. good e c' \<and> step e q c = orun_bind (plain e q) (\<lambda>x. Some (Ret (x, c')))"
begin

lemma uses_transparent: "ok e \<Longrightarrow> good e c \<Longrightarrow> results (uses (step e) qs c) = plain_uses (plain e) qs"
proof (induction qs arbitrary: c)
  case (Cons q qs)
  obtain c' where c': "good e c'" "step e q c = orun_bind (plain e q) (\<lambda>x. Some (Ret (x, c')))"
    using transparent [OF Cons.prems] by blast
  have "orun_bind (uses (step e) qs c') (\<lambda>(xs, c). Some (Ret xs)) = plain_uses (plain e) qs"
    using Cons.IH [OF Cons.prems(1) c'(1)] by (simp add: results_def)
  then show ?case
    using c'(2) by (simp add: results_def) (auto simp: orun_bind_def split: option.splits run.splits)
qed (simp add: results_def orun_bind_def)

end

definition filled_with :: "'a \<Rightarrow> 'a once \<Rightarrow> bool" where
  "filled_with v c \<longleftrightarrow> c = once_new \<or> c = once_new_init v"

lemma init_filled: "filled_with v c \<Longrightarrow> try_get_or_init c (Ret (Inr v)) = Some (Ret (Inr v, once_new_init v))"
  by (auto simp: filled_with_def once_new_def once_new_init_def try_get_or_init_def is_init_def LOCK_def POISONED_def INIT_def)

lemma init_ready: "try_get_or_init (once_new_init v) f = Some (Ret (Inr v, once_new_init v))" "is_init (once_new_init v)"
  by (simp_all add: once_new_init_def try_get_or_init_def is_init_def INIT_def)

lemma new_not_ready: "\<not> is_init once_new"
  by (simp add: once_new_def is_init_def)

text \<open>A failing initialiser leaves the cell poisoned, and the next use panics.\<close>

lemma init_fails:
  "\<exists>c. try_get_or_init once_new (Ret (Inl e)) = Some (Ret (Inl e, c)) \<and> (\<forall>f. try_get_or_init c f = Some Panic) \<and> \<not> is_init c"
  by (simp add: once_new_def try_get_or_init_def is_init_def LOCK_def POISONED_def INIT_def push_bit_eq_mult)

lemma init_panics: "try_get_or_init once_new Panic = Some Panic"
  by (simp add: once_new_def try_get_or_init_def is_init_def LOCK_def POISONED_def)

interpretation sysroot: cached_use "\<lambda>(h, fd). sysroot_fd h = Ret (Inr fd)" "\<lambda>(h, fd). filled_with fd"
    "\<lambda>(h, fd) (at_fd, st). open_sysroot_cached h at_fd st" "\<lambda>(h, fd) (at_fd, st). Some (open_sysroot_rdonly h at_fd st)"
  by unfold_locales
    (auto simp: open_sysroot_cached_def open_sysroot_rdonly_def orun_bind_def run_simps Let_def init_filled filled_with_def
      dest: init_filled)

interpretation modules: cached_use "\<lambda>(n, h, E, search, path). search_list n h search = Some (Ret (Inr path))"
    "\<lambda>(n, h, E, search, path). filled_with path" "\<lambda>(n, h, E, search, path). open_module_cached n h E search"
    "\<lambda>(n, h, E, search, path). open_module n h E search"
proof unfold_locales
  fix e :: "nat \<times> host \<times> elf_host \<times> SearchType \<times> bytes" and c :: "bytes once" and q :: bytes
  obtain n h E search path where e: "e = (n, h, E, search, path)" by (cases e) auto
  assume "case e of (n, h, E, search, path) \<Rightarrow> search_list n h search = Some (Ret (Inr path))"
    and "(case e of (n, h, E, search, path) \<Rightarrow> filled_with path) c"
  then have s: "search_list n h search = Some (Ret (Inr path))" and c: "filled_with path c" by (simp_all add: e)
  have "search_list_cached n h search c = Some (Ret (Inr path, once_new_init path))"
    using c s init_filled [OF c] by (auto simp: search_list_cached_def filled_with_def init_ready new_not_ready)
  then show "\<exists>c'. (case e of (n, h, E, search, path) \<Rightarrow> filled_with path) c' \<and>
      (case e of (n, h, E, search, path) \<Rightarrow> open_module_cached n h E search) q c =
      orun_bind ((case e of (n, h, E, search, path) \<Rightarrow> open_module n h E search) q) (\<lambda>x. Some (Ret (x, c')))"
    using s
    by (intro exI [of _ "once_new_init path"])
      (auto simp: e open_module_cached_def open_module_def orun_bind_def filled_with_def run_simps split: run.split)
qed

interpretation features: cached_use "\<lambda>cpuid. True" "\<lambda>cpuid. filled_with (init_cpuid_features cpuid)"
    "\<lambda>cpuid (q :: unit). supported_feature_array cpuid" "\<lambda>cpuid q. Some (Ret (Inr (init_cpuid_features cpuid)))"
  by unfold_locales (auto simp: supported_feature_array_def get_or_init_def init_filled orun_bind_def filled_with_def)

section \<open>Properties\<close>

text \<open>
  C15. The cell of the sysroot. When the sysroot can be opened, files opened one after the other through the cell are those
  that opening without a cell gives, so the search for modules can leave the cell out. When it cannot be opened, the first
  absolute path fails with the error, but the cell stays poisoned: the second one panics, although without
  the cell it would fail like the first.
\<close>

theorem sysroot_cell:
  assumes "list_all (\<lambda>(at_fd, st). length st < 256 \<and> take 1 (cstr st) = lit ''/'') [q, r]"
  shows "case sysroot_fd h of
      Ret (Inr fd) \<Rightarrow>
        results (uses (\<lambda>(at_fd, st). open_sysroot_cached h at_fd st) qs once_new) =
        plain_uses (\<lambda>(at_fd, st). Some (open_sysroot_rdonly h at_fd st)) qs
    | Ret (Inl e) \<Rightarrow>
        results (uses (\<lambda>(at_fd, st). open_sysroot_cached h at_fd st) [q] once_new) = Some (Ret [Inl e]) \<and>
        results (uses (\<lambda>(at_fd, st). open_sysroot_cached h at_fd st) (q # r # qs) once_new) = Some Panic \<and>
        plain_uses (\<lambda>(at_fd, st). Some (open_sysroot_rdonly h at_fd st)) [q, r] = Some (Ret [Inl e, Inl e])
    | Panic \<Rightarrow> results (uses (\<lambda>(at_fd, st). open_sysroot_cached h at_fd st) (q # qs) once_new) = Some Panic"
proof (cases "sysroot_fd h")
  case Panic
  then show ?thesis
    using assms by (auto simp: results_def orun_bind_def open_sysroot_cached_def Let_def init_panics split: prod.split)
next
  case (Ret x)
  show ?thesis
  proof (cases x)
    case (Inl e)
    obtain c :: "u32 once" where c: "try_get_or_init once_new (Ret (Inl e)) = Some (Ret (Inl e, c))" "try_get_or_init c (Ret (Inl e)) = Some Panic"
      using init_fails [of e] by blast
    then show ?thesis
      using assms
      by (auto simp: Ret Inl results_def orun_bind_def open_sysroot_cached_def open_sysroot_rdonly_def Let_def run_simps
          split: prod.split)
  next
    case (Inr fd)
    then show ?thesis
      using sysroot.uses_transparent [of "(h, fd)" once_new qs] by (simp add: Ret filled_with_def)
  qed
qed

definition no_sysroot :: host where
  "no_sysroot = demo_host\<lparr> files := (files demo_host)\<lparr> fs_open := \<lambda>p. Inl ENOENT \<rparr> \<rparr>"

theorem sysroot_cell_witness:
  "results (uses (\<lambda>(at_fd, st). open_sysroot_cached no_sysroot at_fd st) [(100, lit ''/a''), (100, lit ''/b'')] once_new) = Some Panic"
proof -
  have "sysroot_fd no_sysroot = Ret (Inl ENOENT)" by code_simp
  moreover have "list_all (\<lambda>(at_fd, st). length st < 256 \<and> take 1 (cstr st) = lit ''/'') [(100 :: u32, lit ''/a''), (100, lit ''/b'')]"
    by code_simp
  ultimately show ?thesis using sysroot_cell [of "(100, lit ''/a'')" "(100, lit ''/b'')" no_sysroot "[]"] by simp
qed

text \<open>
  The cells of the search lists: once a list can be made, every search gives what searching without the cell gives; when
  making it fails, the first search has the error and the second one panics.
\<close>

theorem search_list_cells:
  "search_list n h search = Some (Ret (Inr path)) \<Longrightarrow>
    results (uses (open_module_cached n h E search) names once_new) = plain_uses (open_module n h E search) names"
  "search_list n h search = Some (Ret (Inl e)) \<Longrightarrow>
    results (uses (open_module_cached n h E search) (name # name' # names) once_new) = Some Panic"
proof -
  show "results (uses (open_module_cached n h E search) names once_new) = plain_uses (open_module n h E search) names"
    if "search_list n h search = Some (Ret (Inr path))"
    using modules.uses_transparent [of "(n, h, E, search, path)" once_new names] that by (simp add: filled_with_def)
  obtain c :: "bytes once" where c: "try_get_or_init once_new (Ret (Inl e)) = Some (Ret (Inl e, c))" "try_get_or_init c (Ret (Inl e)) = Some Panic"
    "\<not> is_init c"
    using init_fails [of e] by blast
  then show "results (uses (open_module_cached n h E search) (name # name' # names) once_new) = Some Panic"
    if "search_list n h search = Some (Ret (Inl e))"
    using that by (simp add: results_def orun_bind_def open_module_cached_def search_list_cached_def new_not_ready)
qed

text \<open>The feature words are those of the first use, every time.\<close>

theorem feature_cell:
  "results (uses (\<lambda>q :: unit. supported_feature_array cpuid) qs once_new) =
   plain_uses (\<lambda>q. Some (Ret (Inr (init_cpuid_features cpuid)))) qs"
  by (rule features.uses_transparent) (simp_all add: filled_with_def)

end
