(* ===== verification/WL_Build.thy ===== *)
theory WL_Build
  imports WL_Libc WL_Start
begin

text \<open>
  The build scripts: \<open>wl-impl/build.rs\<close>, \<open>wl-ld-lilium/build.rs\<close> and \<open>build-usi-lib.rs\<close>, which is the script of every
  subsystem. A script prints directives for cargo, the lines of the result, or panics. The C compiler is the crate
  \<open>cc\<close>; what it is asked to do is a value. The constants the crate reads from the build (\<open>wl-impl/src/lib.rs\<close>)
  and the template of a subsystem (\<open>module-lib-templ/src/lib.rs\<close>) are here too.
\<close>

section \<open>Scripts\<close>

text \<open>A variable of the environment as \<open>std::env::var\<close> gives it.\<close>

datatype var = Present string | NotPresent | NotUnicode

fun unwrap_var :: "var \<Rightarrow> string run" where
  "unwrap_var (Present s) = Ret s"
| "unwrap_var _ = Panic"

fun optional_var :: "var \<Rightarrow> string option" where
  "optional_var (Present s) = Some s"
| "optional_var _ = None"

definition strip_prefix :: "string \<Rightarrow> string \<Rightarrow> string option" where
  "strip_prefix p s = (if take (length p) s = p then Some (drop (length p) s) else None)"

definition usi_build :: "var \<Rightarrow> var \<Rightarrow> string list run" where
  "usi_build pkg_name link_target_dir =
     run_bind (unwrap_var pkg_name) (\<lambda>pkg.
       case strip_prefix ''wl-usi-'' pkg of
         None \<Rightarrow> Panic
       | Some name \<Rightarrow>
           Ret ([''cargo::rerun-if-changed=../build-usi-lib.rs'',
                 ''cargo::rustc-link-lib=dylib=wl_ld_lilium'',
                 ''cargo::rustc-link-arg=-soname'',
                 ''cargo::rustc-link-arg=libusi-'' @ name @ ''.so'',
                 ''cargo::rustc-link-arg=-rpath'',
                 ''cargo::rustc-link-arg=$ORIGIN''] @
                (case optional_var link_target_dir of
                   None \<Rightarrow> []
                 | Some d \<Rightarrow> [''cargo::rustc-link-search=native='' @ d])))"

definition ld_build :: "var \<Rightarrow> var \<Rightarrow> string list run" where
  "ld_build arch_var manifest_dir =
     run_bind (unwrap_var arch_var) (\<lambda>arch.
     run_bind (unwrap_var manifest_dir) (\<lambda>dir.
       Ret [''cargo::rerun-if-changed=build.rs'',
            ''cargo::rustc-link-arg=-soname'',
            ''cargo::rustc-link-arg=wl-ld-lilium-'' @ arch @ ''.so'',
            ''cargo::rustc-env=ARCH='' @ arch,
            ''cargo::rustc-link-arg=-T'' @ dir @ ''/'' @ arch @ ''.ld'']))"

text \<open>What \<open>wl-impl/build.rs\<close> asks of the C compiler.\<close>

record cc_build =
  cc_file :: string
  cc_std :: string
  cc_pic :: bool
  cc_metadata :: bool
  cc_flags_if_supported :: "string list"
  cc_flags :: "string list"
  cc_includes :: "string list"

definition ends_with :: "string \<Rightarrow> string \<Rightarrow> bool" where
  "ends_with suf s \<longleftrightarrow> drop (length s - length suf) s = suf"

definition signal_support :: "string \<Rightarrow> cc_build" where
  "signal_support arch =
     \<lparr> cc_file = ''c/signal_support/'' @ arch @ ''.c'', cc_std = ''c17'', cc_pic = True, cc_metadata = True,
       cc_flags_if_supported = [''-ffreestanding''],
       cc_flags = [''-ftls-model=initial-exec'', ''-fvisibility=protected''] @
         (if arch = ''x86_64'' \<or> ends_with ''86'' arch then [''-masm=intel''] else []),
       cc_includes = [''c/signal_support/include'', ''c/signal_support/include/'' @ arch @ ''/''] \<rparr>"

definition target_var :: "string \<Rightarrow> var \<Rightarrow> (string list \<times> string \<times> string \<times> string \<times> string) run" where
  "target_var arch env =
     (case env of
        Present st \<Rightarrow> run_bind (lilium_target arch (Some st)) (\<lambda>t. Ret ([], t))
      | NotUnicode \<Rightarrow> Panic
      | NotPresent \<Rightarrow>
          run_bind (lilium_target arch None) (\<lambda>t. Ret ([''cargo::rustc-env=WL_LILIUM_TARGET='' @ arch @ ''-pc-lilium-std''], t)))"

definition vendor_var :: "var \<Rightarrow> string list run" where
  "vendor_var env =
     (case env of
        Present _ \<Rightarrow> Ret []
      | NotUnicode \<Rightarrow> Panic
      | NotPresent \<Rightarrow> Ret [''cargo::rustc-env=WL_VENDOR_NAME=winter-lily''])"

definition target_env :: "string \<times> string \<times> string \<times> string \<Rightarrow> string list" where
  "target_env = (\<lambda>(arch, vendor, os, env).
     [''cargo::rustc-env=WL_LILIUM_TARGET_ARCH='' @ arch, ''cargo::rustc-env=WL_LILIUM_TARGET_VENDOR='' @ vendor,
      ''cargo::rustc-env=WL_LILIUM_TARGET_OS='' @ os, ''cargo::rustc-env=WL_LILIUM_TARGET_ENV='' @ env])"

definition wl_impl_build :: "var \<Rightarrow> var \<Rightarrow> var \<Rightarrow> var \<Rightarrow> var \<Rightarrow> (cc_build \<Rightarrow> unit run) \<Rightarrow> string list run" where
  "wl_impl_build arch_var target vendor out_dir link_target_dir compile =
     run_bind (unwrap_var arch_var) (\<lambda>arch.
     run_bind (target_var arch target) (\<lambda>(ds, t).
     run_bind (vendor_var vendor) (\<lambda>vs.
     run_bind (unwrap_var out_dir) (\<lambda>out.
     run_bind (compile (signal_support arch)) (\<lambda>u.
       Ret (ds @ target_env t @ vs @
         [''cargo::rerun-if-changed=c/signal_support/'' @ arch @ ''.c'', ''cargo::rustc-link-search=native='' @ out] @
         (case optional_var link_target_dir of
            None \<Rightarrow> [''cargo::rustc-link-lib=dylib=!rust-analyzer-only!use!build.sh!if!cargo'']
          | Some d \<Rightarrow> [''cargo::rustc-link-search=native='' @ d, ''cargo::rustc-link-lib=dylib=wl_ld_lilium''])))))))"

text \<open>
  What \<open>env!\<close> finds in the crate: the value the script set with \<open>rustc-env\<close> under that name (the last, if there are several),
  or else the variable of the build's own environment; with neither the crate does not compile, like one whose constants
  panic.
\<close>

definition rustc_env :: "(string \<Rightarrow> string option) \<Rightarrow> string list \<Rightarrow> string \<Rightarrow> string run" where
  "rustc_env own ds name =
     (case List.map_filter (strip_prefix (''cargo::rustc-env='' @ name @ ''='')) ds of
        [] \<Rightarrow> (case own name of None \<Rightarrow> Panic | Some v \<Rightarrow> Ret v)
      | v # vs \<Rightarrow> Ret (last (v # vs)))"

text \<open>The constants of \<open>wl-impl/src/lib.rs\<close>. The macro \<open>git_version!\<close> is a parameter, a function of its prefix and suffix.\<close>

record build_consts =
  c_LILIUM_TARGET :: string
  c_ARCH :: string
  c_OS_NAME :: string
  c_ENV :: string
  c_VERSION :: string
  c_KVENDOR_NAME :: string
  c_VERSION_MAJOR :: u32
  c_VERSION_MINOR :: u32
  c_VERSION_PATCH :: u32
  c_OS_ELAB_NAME :: string
  c_OS_VERSION_MAJOR :: u32
  c_OS_VERSION_MINOR :: u32
  c_KAPI_VERSION :: u64

definition crate_consts :: "(string \<Rightarrow> string option) \<Rightarrow> string list \<Rightarrow> (string \<Rightarrow> string \<Rightarrow> string) \<Rightarrow> build_consts run" where
  "crate_consts own ds git_version =
     run_bind (rustc_env own ds ''WL_LILIUM_TARGET'') (\<lambda>target.
     run_bind (rustc_env own ds ''WL_LILIUM_TARGET_ARCH'') (\<lambda>arch.
     run_bind (rustc_env own ds ''WL_LILIUM_TARGET_OS'') (\<lambda>os.
     run_bind (rustc_env own ds ''WL_LILIUM_TARGET_ENV'') (\<lambda>env.
     run_bind (rustc_env own ds ''CARGO_PKG_VERSION'') (\<lambda>version.
     run_bind (rustc_env own ds ''WL_VENDOR_NAME'') (\<lambda>vendor.
     run_bind (rustc_env own ds ''CARGO_PKG_VERSION_MAJOR'') (\<lambda>s. run_bind (const_parse_u32 (lit s) 10) (\<lambda>major.
     run_bind (rustc_env own ds ''CARGO_PKG_VERSION_MINOR'') (\<lambda>s. run_bind (const_parse_u32 (lit s) 10) (\<lambda>minor.
     run_bind (rustc_env own ds ''CARGO_PKG_VERSION_PATCH'') (\<lambda>s. run_bind (const_parse_u32 (lit s) 10) (\<lambda>patch.
       Ret \<lparr> c_LILIUM_TARGET = target, c_ARCH = arch, c_OS_NAME = os, c_ENV = env,
             c_VERSION = git_version (version @ ''-'') ''packaged'', c_KVENDOR_NAME = vendor,
             c_VERSION_MAJOR = of_nat major, c_VERSION_MINOR = of_nat minor, c_VERSION_PATCH = of_nat patch,
             c_OS_ELAB_NAME = ''Lilium'', c_OS_VERSION_MAJOR = 0, c_OS_VERSION_MINOR = 1,
             c_KAPI_VERSION = KAPI_VERSION (of_nat major) (of_nat minor) (of_nat patch) \<rparr>))))))))))))"

section \<open>Names between loader and libraries\<close>

text \<open>
  The macros of \<open>wl-interface-map/src/lib.rs\<close> that name the functions the loader looks up: the plain form is used where
  a library exports the function, the form with \<open>C\<close> where the loader looks it up.
\<close>

datatype iface_fn = SetupProcess | InitSubsystem | GetInitHandles

fun export_name :: "iface_fn \<Rightarrow> string" where
  "export_name SetupProcess = ''__wl_init_setup_process_v0''"
| "export_name InitSubsystem = ''__wl_init_subsystem_v0''"
| "export_name GetInitHandles = ''__wl_get_init_handles_v0''"

fun lookup_name :: "iface_fn \<Rightarrow> bytes" where
  "lookup_name SetupProcess = lit ''__wl_init_setup_process_v0''"
| "lookup_name InitSubsystem = lit ''__wl_init_subsystem_v0''"
| "lookup_name GetInitHandles = lit ''__wl_get_init_handles_v0''"

section \<open>The template of a subsystem\<close>

text \<open>It registers at the subsystem number with all bits set; its table is empty and its name is not written yet.\<close>

definition templ_init :: "subsys_info \<Rightarrow> syscall_fn registry \<Rightarrow> syscall_fn registry run" where
  "templ_init info r = init_subsystem (NOT 0) (insert_elems (replicate 4096 None) []) info r"

section \<open>Properties\<close>

definition build_tail :: "string \<Rightarrow> string \<Rightarrow> var \<Rightarrow> string list" where
  "build_tail arch out dir =
     [''cargo::rerun-if-changed=c/signal_support/'' @ arch @ ''.c'', ''cargo::rustc-link-search=native='' @ out] @
     (case optional_var dir of
        None \<Rightarrow> [''cargo::rustc-link-lib=dylib=!rust-analyzer-only!use!build.sh!if!cargo'']
      | Some d \<Rightarrow> [''cargo::rustc-link-search=native='' @ d, ''cargo::rustc-link-lib=dylib=wl_ld_lilium''])"

fun var_of :: "string option \<Rightarrow> var" where
  "var_of None = NotPresent"
| "var_of (Some v) = Present v"

definition soname :: "string \<Rightarrow> string" where
  "soname name = ''libusi-'' @ name @ ''.so''"

text \<open>
  The libraries the loader starts are those the scripts name: the build of the package \<open>wl-usi-\<close> with a name links the library
  under the name that the loader looks for, and the libraries of the six subsystems are the loader's default ones.
\<close>

theorem usi_soname_is_loaded:
  "\<exists>ds. usi_build (Present (''wl-usi-'' @ name)) dir = Ret ds \<and> ds ! 2 = ''cargo::rustc-link-arg=-soname'' \<and>
    ds ! 3 = ''cargo::rustc-link-arg='' @ soname name"
  "default_subsystems = map (\<lambda>name. lit (soname name)) default_names"
  by (simp_all add: usi_build_def strip_prefix_def run_simps soname_def default_subsystems_def default_names_def)

text \<open>Another package, or one without a name, does not build.\<close>

theorem usi_build_panics:
  "take 7 pkg \<noteq> ''wl-usi-'' \<Longrightarrow> usi_build (Present pkg) dir = Panic" "usi_build NotPresent dir = Panic"
  by (simp_all add: eval_nat_numeral usi_build_def strip_prefix_def run_simps)

lemma split_on_append: "c \<notin> set xs \<Longrightarrow> split_on c (xs @ c # ys) = xs # split_on c ys"
  by (induction xs) auto

text \<open>
  The default target is the one its own text stands for: a build that finds the variable the script would set prints the same parts as one
  that finds none.
\<close>

theorem default_target_roundtrip:
  assumes "CHR ''-'' \<notin> set arch"
  shows "lilium_target host (Some (arch @ ''-pc-lilium-std'')) = lilium_target arch None"
  using split_on_append [OF assms, of "''pc-lilium-std''"] by (simp add: lilium_target_def target_parts_def)

text \<open>
  The script of \<open>wl-impl\<close> succeeds with the variables cargo sets and a compiler that does, whatever the optional variables are,
  and then names the four parts of the target in order.
\<close>

theorem wl_impl_build_target:
  assumes "target_var arch target = Ret (ds, t)" "vendor \<noteq> NotUnicode" "compile (signal_support arch) = Ret ()"
  shows "\<exists>rst. wl_impl_build (Present arch) target vendor (Present out) dir compile = Ret (ds @ target_env t @ rst)"
  using assms by (cases vendor) (simp_all add: wl_impl_build_def vendor_var_def run_simps)

text \<open>A library made from the template takes the next free number, and none of its calls is supported.\<close>

theorem template_registers:
  assumes "unat (next_dyn_subsys r) < length (syscall_subsys_array r)" "length (subsys_registry r) = length (syscall_subsys_array r)"
  shows "templ_init info r = Ret (r\<lparr> next_dyn_subsys := next_dyn_subsys r + 1,
      syscall_subsys_array := (syscall_subsys_array r)[unat (next_dyn_subsys r) := Some (replicate 4096 None)],
      subsys_registry := (subsys_registry r)[unat (next_dyn_subsys r) := Some info] \<rparr>)"
  using assms by (simp add: templ_init_def init_subsystem_def register_subsys_def insert_elems_def run_simps Let_def)

text \<open>The loader looks every function up under the name it is exported with, and no two share a name.\<close>

theorem iface_names: "lookup_name f = lit (export_name f)" "export_name f = export_name g \<longleftrightarrow> f = g"
  by (cases f; simp) (cases f; cases g; simp)

lemma strip_prefix_simps:
  "strip_prefix [] s = Some s" "strip_prefix (c # p) [] = None"
  "strip_prefix (c # p) (d # s) = (if c = d then strip_prefix p s else None)"
  by (simp_all add: strip_prefix_def)

lemma map_filter_append: "List.map_filter f (xs @ ys) = List.map_filter f xs @ List.map_filter f ys"
  by (simp add: List.map_filter_def)

lemma build_tail_no_env: "List.map_filter (strip_prefix (''cargo::rustc-env='' @ p)) (build_tail arch out dir) = []"
  by (simp add: build_tail_def List.map_filter_simps strip_prefix_simps split: option.split)

lemmas directive_simps = rustc_env_def map_filter_append List.map_filter_simps strip_prefix_simps target_env_def
  build_tail_no_env [simplified]

text \<open>
  After the script of a build the crate compiles, given the version that cargo sets. Its constants are the parts of the target the
  script found, the target and the vendor of the environment or else the default ones, and the numbers of the version.
\<close>

theorem consts_of_build:
  assumes "wl_impl_build (Present arch) (var_of (own ''WL_LILIUM_TARGET'')) (var_of (own ''WL_VENDOR_NAME'')) (Present out) dir compile = Ret ds"
    and "own ''CARGO_PKG_VERSION'' = Some ver" "own ''CARGO_PKG_VERSION_MAJOR'' = Some x"
    and "own ''CARGO_PKG_VERSION_MINOR'' = Some y" "own ''CARGO_PKG_VERSION_PATCH'' = Some z"
    and "const_parse_u32 (lit x) 10 = Ret major" "const_parse_u32 (lit y) 10 = Ret minor" "const_parse_u32 (lit z) 10 = Ret patch"
  shows "\<exists>a v os e. lilium_target arch (own ''WL_LILIUM_TARGET'') = Ret (a, v, os, e) \<and>
    crate_consts own ds git_version = Ret \<lparr>
      c_LILIUM_TARGET = (case own ''WL_LILIUM_TARGET'' of None \<Rightarrow> arch @ ''-pc-lilium-std'' | Some w \<Rightarrow> w),
      c_ARCH = a, c_OS_NAME = os, c_ENV = e, c_VERSION = git_version (ver @ ''-'') ''packaged'',
      c_KVENDOR_NAME = (case own ''WL_VENDOR_NAME'' of None \<Rightarrow> ''winter-lily'' | Some w \<Rightarrow> w),
      c_VERSION_MAJOR = of_nat major, c_VERSION_MINOR = of_nat minor, c_VERSION_PATCH = of_nat patch,
      c_OS_ELAB_NAME = ''Lilium'', c_OS_VERSION_MAJOR = 0, c_OS_VERSION_MINOR = 1,
      c_KAPI_VERSION = KAPI_VERSION (of_nat major) (of_nat minor) (of_nat patch) \<rparr>"
proof -
  obtain pre a v os e vs where t: "target_var arch (var_of (own ''WL_LILIUM_TARGET'')) = Ret (pre, a, v, os, e)"
    and vs: "vendor_var (var_of (own ''WL_VENDOR_NAME'')) = Ret vs"
    and ds: "ds = pre @ target_env (a, v, os, e) @ vs @ build_tail arch out dir"
    using assms(1) by (auto simp: wl_impl_build_def build_tail_def run_bind_eq_Ret)
  have pre: "pre = (case own ''WL_LILIUM_TARGET'' of None \<Rightarrow> [''cargo::rustc-env=WL_LILIUM_TARGET='' @ arch @ ''-pc-lilium-std''] | Some _ \<Rightarrow> [])"
    and lt: "lilium_target arch (own ''WL_LILIUM_TARGET'') = Ret (a, v, os, e)"
    using t by (cases "own ''WL_LILIUM_TARGET''"; auto simp: target_var_def run_bind_eq_Ret)+
  have vs': "vs = (case own ''WL_VENDOR_NAME'' of None \<Rightarrow> [''cargo::rustc-env=WL_VENDOR_NAME=winter-lily''] | Some _ \<Rightarrow> [])"
    using vs by (cases "own ''WL_VENDOR_NAME''") (auto simp: vendor_var_def)
  note env = ds [unfolded pre vs']
  have "rustc_env own ds ''WL_LILIUM_TARGET'' = Ret (case own ''WL_LILIUM_TARGET'' of None \<Rightarrow> arch @ ''-pc-lilium-std'' | Some w \<Rightarrow> w)"
    unfolding env by (simp add: directive_simps split: option.split)
  moreover have "rustc_env own ds ''WL_VENDOR_NAME'' = Ret (case own ''WL_VENDOR_NAME'' of None \<Rightarrow> ''winter-lily'' | Some w \<Rightarrow> w)"
    unfolding env by (simp add: directive_simps split: option.split)
  moreover have "rustc_env own ds ''WL_LILIUM_TARGET_ARCH'' = Ret a" "rustc_env own ds ''WL_LILIUM_TARGET_OS'' = Ret os"
    "rustc_env own ds ''WL_LILIUM_TARGET_ENV'' = Ret e"
    unfolding env by (simp_all add: directive_simps split: option.split)
  moreover have "rustc_env own ds ''CARGO_PKG_VERSION'' = Ret ver" "rustc_env own ds ''CARGO_PKG_VERSION_MAJOR'' = Ret x"
    "rustc_env own ds ''CARGO_PKG_VERSION_MINOR'' = Ret y" "rustc_env own ds ''CARGO_PKG_VERSION_PATCH'' = Ret z"
    unfolding env by (simp_all add: directive_simps assms(2-5) split: option.split)
  ultimately show ?thesis using lt assms(6-8) by (simp add: crate_consts_def)
qed

end
