(* ===== verification/Spec2Isabelle.thy ===== *)
theory Spec2Isabelle
  imports WL_Split WL_Dispatch WL_Utf8 WL_Cpu_Features WL_Once_Lock WL_Futex WL_Mappings WL_Process
    WL_Phdrs WL_Env WL_Entry WL_Info WL_Libc
    WL_Runtime WL_Slices WL_Start WL_Calls WL_Main WL_Session WL_Panic WL_Drop WL_Caches WL_Build
begin

text \<open>
  Verification library for winter-lily, a layer that runs Lilium programs on Linux. All paths are below
  \<open>src/\<close>.

  \<^bold>\<open>The program.\<close> The loader \<open>wl-ld-lilium\<close> is entered by the kernel. It takes the start-up stack apart,
  lays out the address space, sets up thread-local storage, finds and maps modules, loads the six
  subsystems \<open>wl-usi-base\<close>, \<open>thread\<close>, \<open>io\<close>, \<open>process\<close>, \<open>debug\<close> and \<open>kmgmt\<close>, and builds the stack of the
  program. \<open>wl-impl\<close> is the library the subsystems share: it catches the system calls of the program
  through signals and dispatches them to the tables the subsystems registered, and it provides checked access to
  the program's memory, handles, environment, allocators and a small C library. \<open>wl-helpers\<close> holds the locks,
  the page allocator, the random generator and the feature tables both halves use.

  \<^bold>\<open>Conventions.\<close> A panic of the code is the value \<open>Panic\<close> of \<open>'a run\<close>; an error is the left summand of a sum; a
  process that is ended by a signal is \<open>Killed\<close>; a loop that does not end is \<open>None\<close> of a
  \<open>partial_function (option)\<close>. Integers keep their width, and arithmetic wraps as it does in the release
  profile. Kernel calls, the crates the sources only call and the constants of \<open>lilium_sys\<close> are arguments of
  the definitions.

  \<^bold>\<open>Theories.\<close>
  \<^item> \<open>WL_Prelude\<close>: the result types, lemmas on words, bytes and lists, and the locales \<open>slot_store\<close>,
    \<open>key_store\<close>, \<open>cursor_alloc\<close> and \<open>invariant_system\<close>, which are interpreted on the registry, the handle table,
    thread-local allocation, and the two locks. The locale \<open>cached_use\<close> is in \<open>WL_Caches\<close>.
  \<^item> \<open>WL_Dispatch\<close> (\<open>wl-impl/src/syscall_handler.rs\<close>, \<open>catch_signals.rs\<close>, the \<open>lib.rs\<close> of the subsystems):
    registration and dispatch. A registered table receives exactly the numbers of its slot, and the boot order
    gives every number the handler of the tables.
  \<^item> \<open>WL_Calls\<close> (\<open>wl-impl/src/syscall_helpers.rs\<close>, the signatures in the subsystems): admitted types, the wrapper of
    exported calls. A call's arguments arrive in its body as the program passed them, and its result in \<open>rax\<close>.
  \<^item> \<open>WL_Errors\<close> (\<open>wl-impl/src/helpers.rs\<close>, \<open>syscall_helpers.rs\<close>, \<open>catch_signals.rs\<close>, \<open>helpers/strexcept.rs\<close>):
    error numbers, return values, signals and exceptions.
  \<^item> \<open>WL_Memory\<close>, \<open>WL_Access\<close>, \<open>WL_Slices\<close> (\<open>wl-impl/src/helpers.rs\<close>, \<open>libc/libc_defs.rs\<close>,
    \<open>c/signal_support/x86_64.c\<close>): the copy routine by instructions, checked copies, probes, the raw and the typed
    iterators over a caller's slice. What is copied, when it is refused and when the process ends; the raw iterator
    refines a double-ended queue.
  \<^item> \<open>WL_Utf8\<close> (\<open>check_utf8\<close> of \<open>wl-impl/src/helpers.rs\<close>): the decoder and the chunked loop. Exactly the encodings
    of scalar values are accepted, with or without the beginning of one more character; what the chunks see of the string.
  \<^item> \<open>WL_Split\<close> (\<open>SplitAscii\<close> of \<open>wl-ld-lilium/src/helpers.rs\<close>, \<open>env.rs\<close>): splitting and \<open>get_env\<close>, equal to a lookup in
    an association list.
  \<^item> \<open>WL_Cpu_Features\<close> (\<open>wl-helpers/src/detect/x86.rs\<close>, \<open>wl-ld-lilium/src/detect/x86.rs\<close>, \<open>wl-usi-base/src/info.rs\<close>):
    the feature table and array, against the table of the processor manuals: which features are found, and which are not.
  \<^item> \<open>WL_Once_Lock\<close> (\<open>wl-helpers/src/lib.rs\<close>): \<open>OnceLock\<close> and \<open>LazyLock\<close> for one thread as a refinement, and
    \<open>try_get_or_init\<close> by atomic steps for any number of threads: safety, a thread that is stuck, a race. \<open>WL_Drop\<close> has the
    destructors: no value is lost or destroyed twice.
  \<^item> \<open>WL_Futex\<close> (\<open>wl-helpers/src/sync.rs\<close>): mutual exclusion in every interleaving, progress of the loops.
  \<^item> \<open>WL_Handles\<close> (\<open>wl-impl/src/handle_base.rs\<close>): the table refines a finite map.
  \<^item> \<open>WL_Mappings\<close> (\<open>wl-usi-process/src/mem.rs\<close>, \<open>MmapAllocator\<close> of \<open>wl-helpers/src/lib.rs\<close>, \<open>wl-impl/src/global.rs\<close>):
    protections of mappings, and that the allocators balance what they map, close and unmap on a kernel that
    answers a new mapping with fresh memory.
  \<^item> \<open>WL_Process\<close> (\<open>wl-usi-io/src/basic.rs\<close>, \<open>fs.rs\<close>, \<open>wl-usi-process/src/proc.rs\<close>): file and process calls, with the line
    \<open>OpenFile\<close> prints.
  \<^item> \<open>WL_Io\<close> (\<open>wl-ld-lilium/src/io.rs\<close>, \<open>pread_exact\<close> of \<open>helpers.rs\<close>, \<open>Stdio\<close> of \<open>wl-impl/src/ministd.rs\<close>): results
    do not depend on the pieces in which data arrive.
  \<^item> \<open>WL_Print\<close> (the macros of \<open>wl-impl/src/ministd.rs\<close> and \<open>wl-ld-lilium/src/lib.rs\<close>): formatted messages and that a
    refused one panics.
  \<^item> \<open>WL_Tls\<close>, \<open>WL_Phdrs\<close> (\<open>wl-ld-lilium/src/loader.rs\<close>, \<open>iface.rs\<close>): thread-local storage of modules, apart from each other as long as sizes
    and alignments do not wrap, and the mapping of their segments.
  \<^item> \<open>WL_Ldso\<close> (\<open>wl-ld-lilium/src/ldso.rs\<close>, \<open>helpers.rs\<close>, \<open>env.rs\<close>): search lists, configuration files, opening a
    module. \<open>WL_Caches\<close> threads the statics that are filled on first use through the same operations and shows that they do not
    show as long as filling them succeeds, and that a failure makes the second use panic.
  \<^item> \<open>WL_Entry\<close> (\<open>wl-ld-lilium/src/entry.rs\<close>, \<open>entry/x86_64.rs\<close>): start-up stack, auxiliary vector, arguments
    with the texts of the options, address plan, the stack of the program.
  \<^item> \<open>WL_Env\<close> (\<open>wl-impl/src/env.rs\<close>, the hash map of \<open>ministd.rs\<close>): the environment map refines a map while no freed entry is reused.
  \<^item> \<open>WL_Info\<close> (\<open>wl-usi-base/src/info.rs\<close>): the system information call.
  \<^item> \<open>WL_Libc\<close> (\<open>wl-impl/src/libc/libc_defs.rs\<close>, memory routines of \<open>wl-ld-lilium/src/helpers.rs\<close>, \<open>wl-impl/build.rs\<close>,
    \<open>wl-usi-io/src/poll.rs\<close>): jumps, the heap, memory routines, the build's parsers, jobs.
  \<^item> \<open>WL_Runtime\<close> (\<open>wl-impl/src/lib.rs\<close>, \<open>rand.rs\<close>, \<open>thread.rs\<close>, \<open>libc.rs\<close> and the exit and exception calls): set-up of
    the process, random numbers of threads, joining, ends of the process.
  \<^item> \<open>WL_Start\<close> (the end of \<open>__rust_entry\<close> in \<open>wl-ld-lilium/src/entry.rs\<close>, \<open>load_subsystem\<close> of \<open>ldso.rs\<close>): the theories above put
    together in the order of the code. The start makes the registry of the six initialisers, closes every library and
    seeds the process.
  \<^item> \<open>WL_Main\<close> (\<open>__rust_entry\<close> and \<open>__setup_auxv\<close> of \<open>entry.rs\<close>, the stack of \<open>entry/x86_64.rs\<close>): the whole entry, from the
    stack of the kernel to the stack, handles and random words of the program.
  \<^item> \<open>WL_Session\<close>: the first calls of the program in that state, through registers, dispatcher and handle table to the kernel.
  \<^item> \<open>WL_Panic\<close> (\<open>wl-impl/src/panic.rs\<close>, \<open>wl-ld-lilium/src/lib.rs\<close>): panics and the messages at the end of
    a process, which needs standard error to come about in an orderly way; the functions that are \<open>todo!()\<close>.
  \<^item> \<open>WL_Build\<close> (\<open>wl-impl/build.rs\<close>, \<open>wl-ld-lilium/build.rs\<close>, \<open>build-usi-lib.rs\<close>, \<open>wl-interface-map\<close>, \<open>module-lib-templ\<close>): the build
    scripts, the constants compiled from them and the names. The libraries are linked under the names the loader looks for, and a
    build whose script succeeds compiles to the constants of its target.

  \<^bold>\<open>Bounds and fuel.\<close> The nesting of included configuration files is bounded by fuel, because a file can
  include itself; \<open>None\<close> is running out of it, and the theorem on search lists is about files without includes,
  which need one level. The other loops are recursive on what they consume or are
  \<open>partial_function\<close>s with a theorem that says when they return. Nested panics each take a part of the stack: the room is a number of
  messages, running out of it is the end \<open>Overflow\<close>, and the theorem is about any room. In \<open>WL_Ldso\<close>
  the contents of \<open>OnceLock\<close> statics are computed at each use, which \<open>WL_Caches\<close> justifies. The iterator theorems are for elements
  of at most a page and slices inside the address space.

  \<^bold>\<open>Atomicity.\<close> The two locks are modelled by atomic accesses under sequential consistency. Everything else runs
  one call at a time, as its locks or its thread-local state make it do.

  \<^bold>\<open>Memory.\<close> An address that is not mapped faults, and a mapped one does not: a page behind the end of its file, which the kernel
  answers with \<open>SIGBUS\<close>, is not told apart, and clearing the rest of a segment in \<open>WL_Phdrs\<close> writes to memory that has just been
  mapped. The control blocks at the start of thread-local blocks are records of their own in \<open>WL_Tls\<close>, apart from the bytes of the modules.

  \<^bold>\<open>Not modelled.\<close> Symbol resolution and relocation are in \<open>ld_so_impl\<close>, which is a parameter of the start; relocating
  the loader itself and setting the resolvers' options are calls into it, and of the debug level only its parsing is seen. Naming the
  mapping of the loader's stack has no effect on what is modelled. The queue of I/O jobs is a type of \<open>cordyceps\<close> and
  nothing pushes to it; the pools of the global allocator are \<open>pooled_arena_malloc\<close>'s; the C compiler of the build is
  the crate \<open>cc\<close>. The lines printed
  before a signal without a name or a failed update of thread-local storage ends the process are left out. \<open>FusedUnsafeCell\<close> and \<open>SyncPointer\<close> are
  wrappers whose operations are the identity on the value inside; \<open>Success\<close> is the result of an initialiser that cannot
  fail. Marker traits, type conversions without effect, declarations of assembly symbols, imports and module lines have no
  counterpart; \<open>eh.rs\<close>, \<open>rt_impls.rs\<close>, \<open>hdl_impl.rs\<close> and the two \<open>detect.rs\<close> hold nothing else.
\<close>

end
